(* ===== verification/Verdikt_Prelude.thy ===== *)
theory Verdikt_Prelude imports Complex_Main "HOL-Library.Word" "HOL-Library.List_Lexorder" "HOL-Library.Multiset" "HOL-Library.Code_Target_Numeral" begin

text \<open>
  What every component of the development shares: JavaScript strings as lists of UTF-16
  code units, exceptions as the left summand of a result, the early-return and throwing
  loops of the source, and the lemma collections their proofs use.
\<close>

named_theorems js_eval \<open>equations that evaluate string literals and small helpers\<close>
named_theorems result_simps \<open>equations of the result combinators\<close>

section \<open>JavaScript strings\<close>

text \<open>
  A JavaScript string is a sequence of 16-bit code units. \<open>js\<close> turns an ASCII literal
  into one; a literal with another character in it is written with its code unit.
  The order of \<open>List_Lexorder\<close> on \<open>16 word list\<close> is the order of
  \<open>Array.prototype.sort\<close> without a comparator.
\<close>

type_synonym code_unit = "16 word"
type_synonym jstring = "16 word list"

definition js :: "string \<Rightarrow> jstring" where
  "js s = map of_char s"

lemma of_char_code_unit_eq [simp]: "(of_char c :: code_unit) = of_char d \<longleftrightarrow> c = d"
proof
  assume eq: "(of_char c :: code_unit) = of_char d"
  have "(of_char e :: nat) < 256" for e
    by (metis mod_less_divisor of_char_mod_256 zero_less_numeral)
  then have small: "(of_char e :: nat) < 2 ^ 16" for e
    by (rule less_trans) simp
  have "unat (of_nat (of_char e) :: code_unit) = of_char e" for e
    using small [of e] by (simp add: unat_of_nat)
  then have "unat (of_char e :: code_unit) = of_char e" for e
    by (simp add: of_nat_of_char)
  with eq have "(of_char c :: nat) = of_char d" by metis
  then show "c = d" by simp
qed simp

lemma js_inject [simp]: "js s = js t \<longleftrightarrow> s = t"
proof
  assume "js s = js t"
  then show "s = t"
    unfolding js_def by (metis injI inj_map_eq_map of_char_code_unit_eq)
qed simp

lemma js_Nil [simp]: "js [] = []"
  by (simp add: js_def)

lemma js_eq_Nil [simp]: "js s = [] \<longleftrightarrow> s = []" "[] = js s \<longleftrightarrow> s = []"
  by (auto simp: js_def)

lemma js_append: "js (s @ t) = js s @ js t"
  by (simp add: js_def)

lemma length_js [simp]: "length (js s) = length s"
  by (simp add: js_def)

lemmas js_literal [js_eval] = js_def

section \<open>Exceptions\<close>

text \<open>
  A function that may throw returns \<open>Inl m\<close> for \<open>throw new Error(m)\<close> and \<open>Inr v\<close> for
  \<open>return v\<close>: the message is all the callers of this program ever read of an error.
\<close>

type_synonym 'a result = "jstring + 'a"

definition bind_r :: "'e + 'a \<Rightarrow> ('a \<Rightarrow> 'e + 'b) \<Rightarrow> 'e + 'b" where
  "bind_r m f = (case m of Inl e \<Rightarrow> Inl e | Inr x \<Rightarrow> f x)"

definition ensure_r :: "bool \<Rightarrow> 'e \<Rightarrow> 'e + unit" where
  "ensure_r b e = (if b then Inr () else Inl e)"

lemma bind_r_simps [simp, result_simps]:
  "bind_r (Inl e) f = Inl e" "bind_r (Inr x) f = f x"
  by (simp_all add: bind_r_def)

lemma bind_r_Inr_iff: "bind_r m f = Inr y \<longleftrightarrow> (\<exists>x. m = Inr x \<and> f x = Inr y)"
  by (cases m) auto

lemma bind_r_Inl_iff: "bind_r m f = Inl e \<longleftrightarrow> m = Inl e \<or> (\<exists>x. m = Inr x \<and> f x = Inl e)"
  by (cases m) auto

lemma ensure_r_iff [simp, result_simps]:
  "ensure_r b e = Inr u \<longleftrightarrow> b" "ensure_r b e = Inl e' \<longleftrightarrow> \<not> b \<and> e = e'"
  by (auto simp: ensure_r_def)

lemma bind_r_cong:
  "m = m' \<Longrightarrow> (\<And>x. m' = Inr x \<Longrightarrow> f x = f' x) \<Longrightarrow> bind_r m f = bind_r m' f'"
  by (cases m') auto

text \<open>\<open>seq_r a b\<close> runs a block that only throws and then the code after it.\<close>

definition seq_r :: "'e + unit \<Rightarrow> 'e + 'a \<Rightarrow> 'e + 'a" where
  "seq_r a b = (case a of Inl e \<Rightarrow> Inl e | Inr _ \<Rightarrow> b)"

lemma seq_r_simps [simp, result_simps]: "seq_r (Inl e) b = Inl e" "seq_r (Inr u) b = b"
  by (simp_all add: seq_r_def)

lemma seq_r_Inr_iff [simp]: "seq_r a b = Inr y \<longleftrightarrow> a = Inr () \<and> b = Inr y"
  by (cases a) auto

lemma seq_r_Inl_iff: "seq_r a b = Inl e \<longleftrightarrow> a = Inl e \<or> a = Inr () \<and> b = Inl e"
  by (cases a) auto

fun is_ok :: "'e + 'a \<Rightarrow> bool" where
  "is_ok (Inl _) = False"
| "is_ok (Inr _) = True"

lemma is_ok_iff: "is_ok r \<longleftrightarrow> (\<exists>v. r = Inr v)"
  by (cases r) auto

section \<open>Loops that return early or throw\<close>

text \<open>
  \<open>or_else a b\<close> is the sequence of an early-returning block and the code after it: the
  block throws, returns a value, or falls through. \<open>first_fail f xs\<close> is
  \<open>for (const x of xs) { const r = f(x); if (r) return r; }\<close>; \<open>each_r\<close> is a loop whose
  body only throws; \<open>filter_r\<close> is \<open>Array.prototype.filter\<close> with a throwing predicate.
\<close>

definition or_else :: "'e + 'f option \<Rightarrow> 'e + 'f option \<Rightarrow> 'e + 'f option" where
  "or_else a b = (case a of Inl e \<Rightarrow> Inl e | Inr (Some f) \<Rightarrow> Inr (Some f) | Inr None \<Rightarrow> b)"

lemma or_else_simps [simp, result_simps]:
  "or_else (Inl e) b = Inl e" "or_else (Inr (Some f)) b = Inr (Some f)" "or_else (Inr None) b = b"
  by (simp_all add: or_else_def)

lemma or_else_None_iff [simp]: "or_else a b = Inr None \<longleftrightarrow> a = Inr None \<and> b = Inr None"
  by (auto simp: or_else_def split: sum.splits option.splits)

lemma or_else_ok: "is_ok a \<Longrightarrow> is_ok b \<Longrightarrow> is_ok (or_else a b)"
  by (auto simp: or_else_def split: sum.splits option.splits)

lemma or_else_cong:
  "a = a' \<Longrightarrow> (a' = Inr None \<Longrightarrow> b = b') \<Longrightarrow> or_else a b = or_else a' b'"
  by (auto simp: or_else_def split: sum.splits option.splits)

fun first_fail :: "('a \<Rightarrow> 'e + 'f option) \<Rightarrow> 'a list \<Rightarrow> 'e + 'f option" where
  "first_fail f [] = Inr None"
| "first_fail f (x # xs) = or_else (f x) (first_fail f xs)"

lemma first_fail_cong [fundef_cong]:
  "xs = ys \<Longrightarrow> (\<And>x. x \<in> set ys \<Longrightarrow> f x = g x) \<Longrightarrow> first_fail f xs = first_fail g ys"
  by (induction xs arbitrary: ys) auto

lemma first_fail_None_iff [simp]: "first_fail f xs = Inr None \<longleftrightarrow> (\<forall>x\<in>set xs. f x = Inr None)"
  by (induction xs) auto

lemma first_fail_ok: "(\<And>x. x \<in> set xs \<Longrightarrow> is_ok (f x)) \<Longrightarrow> is_ok (first_fail f xs)"
  by (induction xs) (auto intro: or_else_ok)

lemma first_fail_Some:
  "first_fail f xs = Inr (Some r) \<Longrightarrow> \<exists>x\<in>set xs. f x = Inr (Some r)"
  by (induction xs) (auto simp: or_else_def split: sum.splits option.splits)

fun each_r :: "('a \<Rightarrow> 'e + unit) \<Rightarrow> 'a list \<Rightarrow> 'e + unit" where
  "each_r f [] = Inr ()"
| "each_r f (x # xs) = seq_r (f x) (each_r f xs)"

lemma each_r_cong [fundef_cong]:
  "xs = ys \<Longrightarrow> (\<And>x. x \<in> set ys \<Longrightarrow> f x = g x) \<Longrightarrow> each_r f xs = each_r g ys"
  by (induction xs arbitrary: ys) auto

lemma each_r_ok_iff [simp]: "each_r f xs = Inr u \<longleftrightarrow> (\<forall>x\<in>set xs. f x = Inr ())"
  by (induction xs) auto

lemma each_r_Inl: "each_r f xs = Inl e \<Longrightarrow> \<exists>x\<in>set xs. f x = Inl e"
  by (induction xs) (auto simp: seq_r_Inl_iff)

fun filter_r :: "('a \<Rightarrow> 'e + bool) \<Rightarrow> 'a list \<Rightarrow> 'e + 'a list" where
  "filter_r f [] = Inr []"
| "filter_r f (x # xs) =
     bind_r (f x) (\<lambda>keep. bind_r (filter_r f xs) (\<lambda>ys. Inr (if keep then x # ys else ys)))"

lemma filter_r_cong [fundef_cong]:
  "xs = ys \<Longrightarrow> (\<And>x. x \<in> set ys \<Longrightarrow> f x = g x) \<Longrightarrow> filter_r f xs = filter_r g ys"
  by (induction xs arbitrary: ys) (auto intro!: bind_r_cong)

lemma filter_r_Inr:
  "(\<And>x. x \<in> set xs \<Longrightarrow> f x = Inr (p x)) \<Longrightarrow> filter_r f xs = Inr (filter p xs)"
  by (induction xs) auto

lemma filter_r_ok: "(\<And>x. x \<in> set xs \<Longrightarrow> is_ok (f x)) \<Longrightarrow> is_ok (filter_r f xs)"
proof (induction xs)
  case (Cons x xs)
  then have "is_ok (f x)" "is_ok (filter_r f xs)" by auto
  then show ?case by (auto simp: is_ok_iff)
qed simp

fun map_r :: "('a \<Rightarrow> 'e + 'b) \<Rightarrow> 'a list \<Rightarrow> 'e + 'b list" where
  "map_r f [] = Inr []"
| "map_r f (x # xs) = bind_r (f x) (\<lambda>y. bind_r (map_r f xs) (\<lambda>ys. Inr (y # ys)))"

lemma map_r_Inr_iff: "map_r f xs = Inr ys \<longleftrightarrow> list_all2 (\<lambda>x y. f x = Inr y) xs ys"
  by (induction xs arbitrary: ys) (auto simp: bind_r_Inr_iff list_all2_Cons1)

lemma map_r_pure: "(\<And>x. x \<in> set xs \<Longrightarrow> f x = Inr (g x)) \<Longrightarrow> map_r f xs = Inr (map g xs)"
  by (induction xs) auto

lemma map_r_Inl: "map_r f xs = Inl e \<Longrightarrow> \<exists>x\<in>set xs. f x = Inl e"
  by (induction xs) (auto simp: bind_r_Inl_iff)

section \<open>Lists\<close>

text \<open>\<open>Array.prototype.find\<close> is the library's \<open>find\<close>; \<open>join_with\<close> is \<open>join\<close>.\<close>

fun join_with :: "'a list \<Rightarrow> 'a list list \<Rightarrow> 'a list" where
  "join_with sep [] = []"
| "join_with sep [x] = x"
| "join_with sep (x # y # ys) = x @ sep @ join_with sep (y # ys)"

text \<open>\<open>String.prototype.split\<close> with a one-unit separator: never the empty list.\<close>

fun split_on :: "'a \<Rightarrow> 'a list \<Rightarrow> 'a list list" where
  "split_on c [] = [[]]"
| "split_on c (x # xs) =
     (if x = c then [] # split_on c xs
      else (case split_on c xs of [] \<Rightarrow> [[x]] | w # ws \<Rightarrow> (x # w) # ws))"

lemma split_on_neq_Nil [simp]: "split_on c xs \<noteq> []"
  by (induction xs) (auto split: list.splits)

lemma join_with_Cons: "ws \<noteq> [] \<Longrightarrow> join_with sep (w # ws) = w @ sep @ join_with sep ws"
  by (cases ws) auto

lemma join_split_on: "join_with [c] (split_on c xs) = xs"
proof (induction xs)
  case (Cons x xs)
  then show ?case
    by (cases "split_on c xs") (auto simp: join_with_Cons split: list.splits, (cases "tl (split_on c xs)"; auto)+)
qed simp

lemma split_on_no_sep: "c \<notin> set w \<Longrightarrow> split_on c w = [w]"
  by (induction w) auto

lemma split_on_append: "c \<notin> set w \<Longrightarrow> split_on c (w @ c # ys) = w # split_on c ys"
  by (induction w) auto

lemma split_on_no_sep_in: "w \<in> set (split_on c xs) \<Longrightarrow> c \<notin> set w"
proof (induction xs arbitrary: w)
  case (Cons x xs)
  then show ?case by (cases "split_on c xs") (auto split: if_splits)
qed simp

definition starts_with :: "'a list \<Rightarrow> 'a list \<Rightarrow> bool" where
  "starts_with s pre \<longleftrightarrow> take (length pre) s = pre"

definition ends_with :: "'a list \<Rightarrow> 'a list \<Rightarrow> bool" where
  "ends_with s suf \<longleftrightarrow> length suf \<le> length s \<and> drop (length s - length suf) s = suf"

lemma starts_with_iff: "starts_with s pre \<longleftrightarrow> (\<exists>t. s = pre @ t)"
  by (metis append_eq_conv_conj append_take_drop_id starts_with_def)

lemma ends_with_iff: "ends_with s suf \<longleftrightarrow> (\<exists>t. s = t @ suf)"
  by (metis (no_types, lifting) add_diff_cancel_right' append_eq_conv_conj append_take_drop_id ends_with_def
      length_append le_add2)

lemma find_SomeD: "find p xs = Some x \<Longrightarrow> x \<in> set xs \<and> p x"
  by (induction xs) (auto split: if_splits)

end
