(* ===== verification/JS_Number.thy ===== *)
theory JS_Number imports Verdikt_Prelude begin

text \<open>
  JavaScript numbers and decimal text. A finite double is the rational it denotes
  (\<open>-0\<close> and \<open>0\<close> are not told apart: no operation of this program does). \<open>to_f64\<close> is
  IEEE 754 round-to-nearest-even, which turns a decimal literal into a number;
  \<open>num_str\<close> is \<open>Number.prototype.toString\<close>; \<open>dec\<close> and \<open>undec\<close> are the decimal
  text of a non-negative \<open>BigInt\<close> and its value.
\<close>

section \<open>Numbers\<close>

datatype jsnum = Fin rat | PosInf | NegInf | NotNum

abbreviation jsint :: "int \<Rightarrow> jsnum" where
  "jsint i \<equiv> Fin (of_int i)"

definition is_whole :: "rat \<Rightarrow> bool" where
  "is_whole q \<longleftrightarrow> snd (quotient_of q) = 1"

fun is_finite :: "jsnum \<Rightarrow> bool" where
  "is_finite (Fin _) = True"
| "is_finite _ = False"

text \<open>\<open>Number.isInteger\<close>, \<open><\<close> and \<open>===\<close> on numbers; every comparison with NaN is false.\<close>

fun is_integer :: "jsnum \<Rightarrow> bool" where
  "is_integer (Fin q) = is_whole q"
| "is_integer _ = False"

fun num_less :: "jsnum \<Rightarrow> jsnum \<Rightarrow> bool" where
  "num_less (Fin a) (Fin b) = (a < b)"
| "num_less NotNum _ = False"
| "num_less _ NotNum = False"
| "num_less NegInf b = (b \<noteq> NegInf)"
| "num_less a NegInf = False"
| "num_less PosInf b = False"
| "num_less a PosInf = True"

definition num_eq :: "jsnum \<Rightarrow> jsnum \<Rightarrow> bool" where
  "num_eq a b \<longleftrightarrow> a = b \<and> a \<noteq> NotNum"

lemma is_whole_iff: "is_whole q \<longleftrightarrow> of_int \<lfloor>q\<rfloor> = q"
proof
  assume "is_whole q"
  then obtain n where "quotient_of q = (n, 1)"
    unfolding is_whole_def by (metis prod.collapse)
  then have "q = of_int n"
    using quotient_of_div [of q n 1] by simp
  then show "of_int \<lfloor>q\<rfloor> = q" by simp
next
  assume eq: "of_int \<lfloor>q\<rfloor> = q"
  have "snd (quotient_of (of_int \<lfloor>q\<rfloor>)) = 1" by simp
  then show "is_whole q"
    unfolding is_whole_def eq .
qed

lemma is_whole_of_int [simp]: "is_whole (of_int i)"
  by (simp add: is_whole_iff)

lemma is_whole_of_nat [simp]: "is_whole (of_nat i)"
  by (metis is_whole_of_int of_int_of_nat_eq)

lemma is_whole_numeral [simp]: "is_whole (numeral k)"
  by (metis is_whole_of_int of_int_numeral)

lemma is_whole_0_1 [simp]: "is_whole 0" "is_whole 1"
  by (metis is_whole_of_int of_int_0, metis is_whole_of_int of_int_1)

lemma is_wholeE: "is_whole q \<Longrightarrow> \<exists>i. q = of_int i"
  by (metis is_whole_iff)

section \<open>Decimal text\<close>

definition is_digit :: "code_unit \<Rightarrow> bool" where
  "is_digit c \<longleftrightarrow> 48 \<le> c \<and> c \<le> 57"

definition digit_val :: "code_unit \<Rightarrow> nat" where
  "digit_val c = unat (c - 48)"

definition digit_unit :: "nat \<Rightarrow> code_unit" where
  "digit_unit d = 48 + of_nat d"

fun dec :: "nat \<Rightarrow> jstring" where
  "dec n = (if n < 10 then [digit_unit n] else dec (n div 10) @ [digit_unit (n mod 10)])"

declare dec.simps [simp del]

definition undec :: "jstring \<Rightarrow> nat" where
  "undec s = foldl (\<lambda>a c. 10 * a + digit_val c) 0 s"

definition dec_int :: "int \<Rightarrow> jstring" where
  "dec_int i = (if i < 0 then js ''-'' @ dec (nat (- i)) else dec (nat i))"

lemma digit_unit_props:
  assumes "d < 10"
  shows "is_digit (digit_unit d)" "digit_val (digit_unit d) = d"
proof -
  have u: "unat (of_nat d :: code_unit) = d"
    using assms by (simp add: unat_of_nat)
  then have "unat (48 + of_nat d :: code_unit) = 48 + d"
    using assms by (simp add: unat_word_ariths)
  then show "is_digit (digit_unit d)"
    using assms by (simp add: is_digit_def digit_unit_def word_le_nat_alt)
  show "digit_val (digit_unit d) = d"
    unfolding digit_val_def digit_unit_def using u by simp
qed

lemma undec_snoc: "undec (s @ [c]) = 10 * undec s + digit_val c"
  by (simp add: undec_def)

lemma undec_dec [simp]: "undec (dec n) = n"
proof (induction n rule: dec.induct)
  case (1 n)
  show ?case
  proof (cases "n < 10")
    case True
    then show ?thesis by (simp add: dec.simps [of n] undec_def digit_unit_props)
  next
    case False
    with "1.IH" show ?thesis
      by (simp add: dec.simps [of n] undec_snoc digit_unit_props)
  qed
qed

lemma dec_digits: "c \<in> set (dec n) \<Longrightarrow> is_digit c"
proof (induction n rule: dec.induct)
  case (1 n)
  then show ?case
    by (cases "n < 10") (auto simp: dec.simps [of n] digit_unit_props)
qed

lemma dec_neq_Nil [simp]: "dec n \<noteq> []"
  by (simp add: dec.simps [of n])

lemma dec_inject [simp]: "dec m = dec n \<longleftrightarrow> m = n"
  by (metis undec_dec)

lemma hd_dec: "0 < n \<Longrightarrow> hd (dec n) \<noteq> 48"
proof (induction n rule: dec.induct)
  case (1 n)
  show ?case
  proof (cases "n < 10")
    case True
    then have "digit_val (digit_unit n) = n" by (simp add: digit_unit_props)
    moreover have "digit_val 48 = 0" by (simp add: digit_val_def)
    ultimately have "digit_unit n \<noteq> 48" using "1.prems" by force
    with True show ?thesis by (simp add: dec.simps [of n])
  next
    case False
    then have "hd (dec (n div 10)) \<noteq> 48" using "1.IH" by simp
    with False show ?thesis by (simp add: dec.simps [of n])
  qed
qed

lemma dec_0 [simp]: "dec 0 = [48]"
  by (simp add: dec.simps digit_unit_def)

text \<open>\<open>/^(0|[1-9][0-9]*)$/\<close>: no sign, no leading zero. Exactly the strings \<open>dec\<close> produces.\<close>

definition decimal_integer :: "jstring \<Rightarrow> bool" where
  "decimal_integer s \<longleftrightarrow> s \<noteq> [] \<and> list_all is_digit s \<and> (hd s = 48 \<longrightarrow> s = [48])"

lemma decimal_integer_dec [simp]: "decimal_integer (dec n)"
  by (cases "n = 0") (auto simp: decimal_integer_def list_all_iff dec_digits hd_dec, simp add: is_digit_def)

lemma digit_unit_val: "is_digit c \<Longrightarrow> digit_unit (digit_val c) = c \<and> digit_val c < 10"
  unfolding is_digit_def digit_unit_def digit_val_def by simp unat_arith

lemma undec_pos: "s \<noteq> [] \<Longrightarrow> list_all is_digit s \<Longrightarrow> hd s \<noteq> 48 \<Longrightarrow> 0 < undec s"
proof (induction s rule: rev_induct)
  case (snoc c s)
  show ?case
  proof (cases s)
    case Nil
    with snoc.prems have "is_digit c" "c \<noteq> 48" by simp_all
    then have "digit_val c \<noteq> 0"
      using digit_unit_val [of c] by (intro notI) (simp add: digit_unit_def)
    with Nil show ?thesis by (simp add: undec_def)
  next
    case (Cons a t)
    with snoc have "0 < undec s" by simp
    then show ?thesis by (simp add: undec_snoc)
  qed
qed simp

lemma dec_undec: "decimal_integer s \<Longrightarrow> dec (undec s) = s"
proof (induction s rule: rev_induct)
  case (snoc c s)
  then have c: "is_digit c" by (simp add: decimal_integer_def)
  show ?case
  proof (cases "s = []")
    case True
    then show ?thesis
      using digit_unit_val [OF c] by (simp add: undec_def dec.simps)
  next
    case False
    with snoc.prems have hd: "hd s \<noteq> 48" and all: "list_all is_digit s"
      by (auto simp: decimal_integer_def)
    with False have "decimal_integer s" by (simp add: decimal_integer_def)
    then have IH: "dec (undec s) = s" by (rule snoc.IH)
    have "0 < undec s" by (rule undec_pos [OF False all hd])
    then have "\<not> undec (s @ [c]) < 10" by (simp add: undec_snoc)
    then show ?thesis
      using digit_unit_val [OF c] IH by (subst dec.simps) (simp add: undec_snoc)
  qed
qed (simp add: decimal_integer_def)

lemma undec_inject: "decimal_integer s \<Longrightarrow> decimal_integer t \<Longrightarrow> undec s = undec t \<longleftrightarrow> s = t"
  by (metis dec_undec)

section \<open>Rounding to a double\<close>

fun ilog2 :: "nat \<Rightarrow> nat" where
  "ilog2 n = (if n < 2 then 0 else Suc (ilog2 (n div 2)))"

declare ilog2.simps [simp del]

definition binary_exponent :: "rat \<Rightarrow> int" where
  \<comment> \<open>the \<open>e\<close> with \<open>2 ^ e \<le> a < 2 ^ (e + 1)\<close>, for positive \<open>a\<close>\<close>
  "binary_exponent a =
     (if 1 \<le> a then int (ilog2 (nat \<lfloor>a\<rfloor>))
      else let m = nat \<lceil>inverse a\<rceil> in - int (if m \<le> 1 then 0 else Suc (ilog2 (m - 1))))"

definition pow_rat :: "int \<Rightarrow> int \<Rightarrow> rat" where
  "pow_rat b e = (if 0 \<le> e then of_int (b ^ nat e) else inverse (of_int (b ^ nat (- e))))"

definition round_half_even :: "rat \<Rightarrow> int" where
  "round_half_even q =
     (let f = \<lfloor>q\<rfloor>; r = q - of_int f
      in if r < 1 / 2 then f else if r > 1 / 2 then f + 1 else if even f then f else f + 1)"

definition to_f64 :: "rat \<Rightarrow> jsnum" where
  "to_f64 q =
     (if q = 0 then Fin 0
      else let a = \<bar>q\<bar>; e = binary_exponent a;
               ulp = pow_rat 2 (max e (- 1022) - 52);
               m = round_half_even (a / ulp)
           in if 1023 < e \<or> e = 1023 \<and> m = 2 ^ 53 then (if q < 0 then NegInf else PosInf)
              else Fin ((if q < 0 then - 1 else 1) * (of_int m * ulp)))"

text \<open>\<open>-\<close> and \<open>+\<close> on numbers.\<close>

fun num_minus :: "jsnum \<Rightarrow> jsnum \<Rightarrow> jsnum" where
  "num_minus (Fin a) (Fin b) = to_f64 (a - b)"
| "num_minus NotNum _ = NotNum"
| "num_minus _ NotNum = NotNum"
| "num_minus PosInf PosInf = NotNum"
| "num_minus NegInf NegInf = NotNum"
| "num_minus PosInf _ = PosInf"
| "num_minus NegInf _ = NegInf"
| "num_minus _ PosInf = NegInf"
| "num_minus _ NegInf = PosInf"

fun num_plus :: "jsnum \<Rightarrow> jsnum \<Rightarrow> jsnum" where
  "num_plus (Fin a) (Fin b) = to_f64 (a + b)"
| "num_plus NotNum _ = NotNum"
| "num_plus _ NotNum = NotNum"
| "num_plus PosInf NegInf = NotNum"
| "num_plus NegInf PosInf = NotNum"
| "num_plus PosInf _ = PosInf"
| "num_plus NegInf _ = NegInf"
| "num_plus _ PosInf = PosInf"
| "num_plus _ NegInf = NegInf"

section \<open>Number.prototype.toString\<close>

fun ilog10 :: "nat \<Rightarrow> nat" where
  "ilog10 n = (if n < 10 then 0 else Suc (ilog10 (n div 10)))"

declare ilog10.simps [simp del]

definition decimal_exponent :: "rat \<Rightarrow> int" where
  \<comment> \<open>the \<open>n\<close> with \<open>10 ^ (n - 1) \<le> a < 10 ^ n\<close>, for positive \<open>a\<close>\<close>
  "decimal_exponent a =
     (if 1 \<le> a then int (ilog10 (nat \<lfloor>a\<rfloor>)) + 1
      else let m = nat \<lceil>inverse a\<rceil> in 1 - int (if m \<le> 1 then 0 else Suc (ilog10 (m - 1))))"

text \<open>
  The fewest digits \<open>s\<close> whose value \<open>s * 10 ^ (n - k)\<close> rounds back to \<open>a\<close>, the closest to
  \<open>a\<close> among those of that length (ECMA-262, Number::toString). Seventeen are always enough.
\<close>

fun shortest_digits :: "rat \<Rightarrow> int \<Rightarrow> nat \<Rightarrow> nat \<Rightarrow> (int \<times> nat) option" where
  "shortest_digits a n k 0 = None"
| "shortest_digits a n k (Suc left) =
     (let unit = pow_rat 10 (n - int k); x = a / unit;
          back = (\<lambda>s. to_f64 (of_int s * unit) = Fin a)
      in (case filter back [\<lfloor>x\<rfloor>, \<lceil>x\<rceil>] of
            [] \<Rightarrow> shortest_digits a n (Suc k) left
          | [s] \<Rightarrow> Some (s, k)
          | s # t # _ \<Rightarrow> Some (if of_int t - x < x - of_int s then t else s, k)))"

definition digits_text :: "jstring \<Rightarrow> int \<Rightarrow> jstring" where
  \<comment> \<open>digits \<open>s\<close> with the decimal point after position \<open>n\<close>, in the notation of the standard\<close>
  "digits_text s n =
     (let k = int (length s)
      in if k \<le> n \<and> n \<le> 21 then s @ replicate (nat (n - k)) 48
         else if 0 < n \<and> n \<le> 21 then take (nat n) s @ js ''.'' @ drop (nat n) s
         else if - 6 < n \<and> n \<le> 0 then js ''0.'' @ replicate (nat (- n)) 48 @ s
         else (let e = n - 1; expo = js ''e'' @ (if e < 0 then js ''-'' else js ''+'') @ dec (nat \<bar>e\<bar>)
               in if k = 1 then s @ expo else take 1 s @ js ''.'' @ drop 1 s @ expo))"

definition positive_str :: "rat \<Rightarrow> jstring" where
  "positive_str a =
     (if is_whole a \<and> a \<le> 2 ^ 53 then dec (nat \<lfloor>a\<rfloor>)
      else let n = decimal_exponent a
           in case shortest_digits a n 1 17 of
                Some (s, k) \<Rightarrow>
                  (if s = 10 ^ k then digits_text (js ''1'') (n + 1) else digits_text (dec (nat s)) n)
              | None \<Rightarrow> [])"

text \<open>Up to \<open>2 ^ 53\<close> the shortest digits of a whole number are its own.\<close>

fun num_str :: "jsnum \<Rightarrow> jstring" where
  "num_str NotNum = js ''NaN''"
| "num_str PosInf = js ''Infinity''"
| "num_str NegInf = js ''-Infinity''"
| "num_str (Fin q) =
     (if q = 0 then js ''0'' else if q < 0 then js ''-'' @ positive_str (- q) else positive_str q)"

lemma num_str_nat: "int n \<le> 2 ^ 53 \<Longrightarrow> num_str (jsint (int n)) = dec n"
proof -
  assume le: "int n \<le> 2 ^ 53"
  have "(of_nat n :: rat) \<le> 2 ^ 53"
    using le by (metis of_int_le_iff of_int_numeral of_int_of_nat_eq of_int_power)
  then show ?thesis
    by (cases "n = 0") (simp_all add: positive_str_def js_def of_nat_less_0_iff)
qed

lemma num_str_examples:
  "num_str (Fin (125 / 10)) = js ''12.5''" "num_str (Fin (- 3)) = js ''-3''"
  "num_str (to_f64 (1 / 10)) = js ''0.1''"
  by code_simp+

end
