(* ===== verification/JS_Json.thy ===== *)
theory JS_Json imports JS_Number begin

text \<open>
  JSON values as the program holds them, with what it uses of the language on them:
  \<open>Object.keys\<close>, \<open>Object.hasOwn\<close>, \<open>String\<close>, \<open>JSON.stringify\<close>, \<open>JSON.parse\<close> and
  \<open>TextEncoder\<close>. An object is its list of own properties in enumeration order; a well-formed
  one (\<open>wf_json\<close>) has distinct keys at every depth, and \<open>JSON.parse\<close> returns no other.
\<close>

section \<open>Values\<close>

datatype json =
    JNull
  | JBool bool
  | JNum jsnum
  | JStr jstring
  | JArr "json list"
  | JObj "(jstring \<times> json) list"

type_synonym members = "(jstring \<times> json) list"

abbreviation js_str :: "string \<Rightarrow> json" where
  "js_str s \<equiv> JStr (js s)"

definition object_keys :: "members \<Rightarrow> jstring list" where
  "object_keys ps = map fst ps"

definition member :: "members \<Rightarrow> string \<Rightarrow> json option" where
  \<comment> \<open>\<open>o.name\<close>: \<open>None\<close> is \<open>undefined\<close>, and \<open>'name' in o\<close> is \<open>\<noteq> None\<close>\<close>
  "member ps k = map_of ps (js k)"

definition has_own :: "members \<Rightarrow> jstring \<Rightarrow> bool" where
  "has_own ps k \<longleftrightarrow> k \<in> set (object_keys ps)"

definition sorted_keys :: "members \<Rightarrow> jstring list" where
  \<comment> \<open>\<open>Object.keys(o).sort()\<close>\<close>
  "sorted_keys ps = sort (object_keys ps)"

fun is_plain_object :: "json \<Rightarrow> bool" where
  "is_plain_object (JObj _) = True"
| "is_plain_object _ = False"

fun wf_json :: "json \<Rightarrow> bool" where
  "wf_json (JArr vs) = (\<forall>v\<in>set vs. wf_json v)"
| "wf_json (JObj ps) = (distinct (map fst ps) \<and> (\<forall>p\<in>set ps. wf_json (snd p)))"
| "wf_json _ = True"

lemma has_own_iff: "has_own ps k \<longleftrightarrow> map_of ps k \<noteq> None"
  by (simp add: has_own_def object_keys_def map_of_eq_None_iff)

lemma set_sorted_keys [simp]: "set (sorted_keys ps) = fst ` set ps"
  by (simp add: sorted_keys_def object_keys_def)

lemma map_of_size: "map_of ps k = Some v \<Longrightarrow> size v < size (JObj ps)"
  by (induction ps) (auto split: if_splits)

lemma map_of_size_in: "v \<in> set vs \<Longrightarrow> size v < size (JArr vs)"
  by (induction vs) auto

lemma member_size: "member ps k = Some v \<Longrightarrow> size v < size (JObj ps)"
  unfolding member_def by (rule map_of_size)

lemma wf_map_of: "wf_json (JObj ps) \<Longrightarrow> map_of ps k = Some v \<Longrightarrow> wf_json v"
  by (auto dest: map_of_SomeD)

text \<open>
  The same value with the members of every object sorted by key: two JSON documents that
  differ only in key order are those with the same canonical form.
\<close>

fun canon :: "json \<Rightarrow> json" where
  "canon (JArr vs) = JArr (map canon vs)"
| "canon (JObj ps) = JObj (sort_key fst (map (\<lambda>p. (fst p, canon (snd p))) ps))"
| "canon v = v"

definition canon_members :: "members \<Rightarrow> members" where
  "canon_members ps = sort_key fst (map (\<lambda>p. (fst p, canon (snd p))) ps)"

lemma canon_JObj: "canon (JObj ps) = JObj (canon_members ps)"
  by (simp add: canon_members_def)

lemma map_of_mset_eq:
  assumes "mset ps = mset qs" "distinct (map fst ps)"
  shows "map_of ps = map_of qs"
proof -
  have "mset (map fst ps) = mset (map fst qs)" using assms(1) by simp
  then have "distinct (map fst qs)" using assms(2) by (metis mset_eq_imp_distinct_iff)
  moreover have "set ps = set qs" using assms(1) by (rule mset_eq_setD)
  ultimately show ?thesis using assms(2) by (simp add: map_of_inject_set)
qed

lemma keys_canon_members: "mset (map fst (canon_members ps)) = mset (map fst ps)"
  by (simp add: canon_members_def multiset.map_comp comp_def)

lemma distinct_canon_members [simp]: "distinct (map fst (canon_members ps)) \<longleftrightarrow> distinct (map fst ps)"
  by (metis keys_canon_members mset_eq_imp_distinct_iff)

lemma length_canon_members [simp]: "length (canon_members ps) = length ps"
  by (simp add: canon_members_def)

lemma sorted_keys_canon [simp]: "sorted_keys (canon_members ps) = sorted_keys ps"
  unfolding sorted_keys_def object_keys_def
  by (metis keys_canon_members sorted_list_of_multiset_mset)

lemma map_of_canon_members:
  assumes "distinct (map fst ps)"
  shows "map_of (canon_members ps) k = map_option canon (map_of ps k)"
proof -
  have eq: "map_of (canon_members ps) = map_of (map (\<lambda>p. (fst p, canon (snd p))) ps)"
  proof (rule map_of_mset_eq)
    show "mset (canon_members ps) = mset (map (\<lambda>p. (fst p, canon (snd p))) ps)"
      by (simp add: canon_members_def)
    show "distinct (map fst (canon_members ps))" using assms by simp
  qed
  have "map_of (map (\<lambda>p. (fst p, canon (snd p))) ps) k = map_option canon (map_of ps k)"
    by (induction ps) auto
  with eq show ?thesis by simp
qed

lemma has_own_canon [simp]: "has_own (canon_members ps) k \<longleftrightarrow> has_own ps k"
  unfolding has_own_def object_keys_def by (metis keys_canon_members mset_eq_setD)

lemma wf_canon: "wf_json v \<Longrightarrow> wf_json (canon v)"
proof (induction v)
  case (JObj ps)
  have "wf_json (snd p)" if "p \<in> set (canon_members ps)" for p
    using that JObj by (auto simp: canon_members_def)
  with JObj.prems show ?case by (simp add: canon_JObj del: canon.simps)
qed auto

section \<open>String(v) and JSON.stringify(v)\<close>

fun to_str :: "json \<Rightarrow> jstring" where
  "to_str JNull = js ''null''"
| "to_str (JBool b) = (if b then js ''true'' else js ''false'')"
| "to_str (JNum n) = num_str n"
| "to_str (JStr s) = s"
| "to_str (JArr vs) = join_with (js '','') (map (\<lambda>v. if v = JNull then [] else to_str v) vs)"
| "to_str (JObj _) = js ''[object Object]''"

definition hex_digit :: "nat \<Rightarrow> code_unit" where
  "hex_digit d = (if d < 10 then 48 + of_nat d else 87 + of_nat d)"

definition hex4 :: "code_unit \<Rightarrow> jstring" where
  "hex4 c = map (\<lambda>i. hex_digit (unat c div 16 ^ i mod 16)) [3, 2, 1, 0]"

definition high_surrogate :: "code_unit \<Rightarrow> bool" where
  "high_surrogate c \<longleftrightarrow> 55296 \<le> c \<and> c \<le> 56319"

definition low_surrogate :: "code_unit \<Rightarrow> bool" where
  "low_surrogate c \<longleftrightarrow> 56320 \<le> c \<and> c \<le> 57343"

definition quote_unit :: "code_unit \<Rightarrow> jstring" where
  "quote_unit c =
     (if c = 34 then [92, 34] else if c = 92 then [92, 92]
      else if c = 8 then [92, 98] else if c = 9 then [92, 116] else if c = 10 then [92, 110]
      else if c = 12 then [92, 102] else if c = 13 then [92, 114]
      else if c < 32 then 92 # 117 # hex4 c else [c])"

fun quote_body :: "jstring \<Rightarrow> jstring" where
  "quote_body [] = []"
| "quote_body (c # r) =
     (if high_surrogate c then
        (case r of d # r' \<Rightarrow> if low_surrogate d then c # d # quote_body r'
                              else 92 # 117 # hex4 c @ quote_body r
         | [] \<Rightarrow> 92 # 117 # hex4 c)
      else if low_surrogate c then 92 # 117 # hex4 c @ quote_body r
      else quote_unit c @ quote_body r)"

definition quote :: "jstring \<Rightarrow> jstring" where
  "quote s = 34 # quote_body s @ [34]"

fun stringify :: "json \<Rightarrow> jstring" where
  "stringify JNull = js ''null''"
| "stringify (JBool b) = (if b then js ''true'' else js ''false'')"
| "stringify (JNum n) = (if is_finite n then num_str n else js ''null'')"
| "stringify (JStr s) = quote s"
| "stringify (JArr vs) = js ''['' @ join_with (js '','') (map stringify vs) @ js '']''"
| "stringify (JObj ps) =
     js ''{'' @ join_with (js '','') (map (\<lambda>p. quote (fst p) @ js '':'' @ stringify (snd p)) ps) @ js ''}''"

section \<open>TextEncoder\<close>

definition code_point :: "code_unit \<Rightarrow> code_unit \<Rightarrow> nat" where
  "code_point h l = 65536 + (unat h - 55296) * 1024 + (unat l - 56320)"

definition utf8_point :: "nat \<Rightarrow> 8 word list" where
  "utf8_point p = map of_nat
     (if p < 128 then [p]
      else if p < 2048 then [192 + p div 64, 128 + p mod 64]
      else if p < 65536 then [224 + p div 4096, 128 + p div 64 mod 64, 128 + p mod 64]
      else [240 + p div 262144, 128 + p div 4096 mod 64, 128 + p div 64 mod 64, 128 + p mod 64])"

fun utf8 :: "jstring \<Rightarrow> 8 word list" where
  "utf8 [] = []"
| "utf8 (c # r) =
     (if high_surrogate c then
        (case r of d # r' \<Rightarrow> if low_surrogate d then utf8_point (code_point c d) @ utf8 r'
                              else [239, 191, 189] @ utf8 r
         | [] \<Rightarrow> [239, 191, 189])
      else if low_surrogate c then [239, 191, 189] @ utf8 r
      else utf8_point (unat c) @ utf8 r)"

definition utf8_length :: "jstring \<Rightarrow> nat" where
  "utf8_length s = length (utf8 s)"

lemma length_utf8_point: "1 \<le> length (utf8_point p)" "length (utf8_point p) \<le> 4"
  "p < 65536 \<Longrightarrow> length (utf8_point p) \<le> 3"
  by (auto simp: utf8_point_def)

lemma length_utf8_le: "length (utf8 s) \<le> 3 * length s"
proof (induction s rule: utf8.induct)
  case (2 c r)
  have "unat c < 65536"
    by (rule less_le_trans [OF unsigned_less]) simp
  then have one: "length (utf8_point (unat c)) \<le> 3" by (rule length_utf8_point)
  show ?case
  proof (cases "high_surrogate c \<and> r \<noteq> []")
    case True
    then obtain d r' where r: "r = d # r'" by (cases r) auto
    then show ?thesis
      using True 2(1,2) [of d r'] length_utf8_point(2) [of "code_point c d"] by auto
  next
    case False
    then show ?thesis using one 2(3,4) by (auto split: list.splits)
  qed
qed simp

section \<open>JSON.parse\<close>

text \<open>
  The grammar of ECMA-404 over code units. An object keeps the last value of a repeated key
  at the key's first place, and enumerates array-index keys first in ascending order, as an
  ordinary object does. The parser spends one unit of fuel per value, array element or
  member; \<open>json_parse\<close> gives it more than any text can use (\<open>json_parse_enough_fuel\<close>).
\<close>

definition is_ws :: "code_unit \<Rightarrow> bool" where
  "is_ws c \<longleftrightarrow> c = 32 \<or> c = 9 \<or> c = 10 \<or> c = 13"

definition skip_ws :: "jstring \<Rightarrow> jstring" where
  "skip_ws s = dropWhile is_ws s"

definition array_index :: "jstring \<Rightarrow> bool" where
  "array_index k \<longleftrightarrow> decimal_integer k \<and> undec k < 2 ^ 32 - 1"

fun insert_index :: "jstring \<Rightarrow> json \<Rightarrow> members \<Rightarrow> members" where
  "insert_index k v [] = [(k, v)]"
| "insert_index k v ((k', v') # ps) =
     (if array_index k' \<and> undec k' < undec k then (k', v') # insert_index k v ps
      else (k, v) # (k', v') # ps)"

definition obj_put :: "jstring \<Rightarrow> json \<Rightarrow> members \<Rightarrow> members" where
  "obj_put k v ps =
     (if has_own ps k then map (\<lambda>p. if fst p = k then (k, v) else p) ps
      else if array_index k then insert_index k v ps
      else ps @ [(k, v)])"

definition hex_val :: "code_unit \<Rightarrow> nat option" where
  "hex_val c =
     (if 48 \<le> c \<and> c \<le> 57 then Some (unat (c - 48))
      else if 97 \<le> c \<and> c \<le> 102 then Some (unat (c - 87))
      else if 65 \<le> c \<and> c \<le> 70 then Some (unat (c - 55))
      else None)"

definition unescape :: "code_unit \<Rightarrow> code_unit option" where
  "unescape c =
     (if c = 34 \<or> c = 92 \<or> c = 47 then Some c else if c = 98 then Some 8
      else if c = 102 then Some 12 else if c = 110 then Some 10
      else if c = 114 then Some 13 else if c = 116 then Some 9 else None)"

definition four_hex :: "jstring \<Rightarrow> (code_unit \<times> jstring) option" where
  "four_hex s =
     (if length s < 4 then None
      else (case map hex_val (take 4 s) of
              [Some a, Some b, Some c, Some d] \<Rightarrow>
                Some (of_nat (((a * 16 + b) * 16 + c) * 16 + d), drop 4 s)
            | _ \<Rightarrow> None))"

lemma four_hex_length: "four_hex s = Some (c, r) \<Longrightarrow> length r < length s"
  by (auto simp: four_hex_def split: if_splits list.splits option.splits)

definition push_unit :: "code_unit \<Rightarrow> (jstring \<times> jstring) option \<Rightarrow> (jstring \<times> jstring) option" where
  "push_unit c res = map_option (\<lambda>(t, r). (c # t, r)) res"

text \<open>The rest of a string literal after its opening quote: its value and what follows.\<close>

function (sequential) parse_str :: "jstring \<Rightarrow> (jstring \<times> jstring) option" where
  "parse_str [] = None"
| "parse_str (c # r) =
     (if c = 34 then Some ([], r)
      else if c = 92 then
        (case r of [] \<Rightarrow> None
         | e # r1 \<Rightarrow>
             if e = 117 then (case four_hex r1 of None \<Rightarrow> None | Some (u, r2) \<Rightarrow> push_unit u (parse_str r2))
             else (case unescape e of None \<Rightarrow> None | Some u \<Rightarrow> push_unit u (parse_str r1)))
      else if c < 32 then None
      else push_unit c (parse_str r))"
  by pat_completeness auto
termination
  by (relation "measure length") (auto dest: four_hex_length)

definition parse_exponent :: "jstring \<Rightarrow> (int \<times> jstring) option" where
  "parse_exponent s =
     (case s of
        e # r \<Rightarrow>
          if e = 101 \<or> e = 69 then
            (let (neg, r1) = (case r of sg # r' \<Rightarrow> if sg = 45 then (True, r')
                                else if sg = 43 then (False, r') else (False, r) | [] \<Rightarrow> (False, r));
                 ds = takeWhile is_digit r1
             in if ds = [] then None
                else Some (if neg then - int (undec ds) else int (undec ds), dropWhile is_digit r1))
          else Some (0, s)
      | [] \<Rightarrow> Some (0, s))"

definition parse_fraction :: "jstring \<Rightarrow> (jstring \<times> jstring) option" where
  "parse_fraction s =
     (case s of
        d # r \<Rightarrow> if d = 46 then (let ds = takeWhile is_digit r
                                 in if ds = [] then None else Some (ds, dropWhile is_digit r))
                 else Some ([], s)
      | [] \<Rightarrow> Some ([], s))"

definition parse_num :: "jstring \<Rightarrow> (jsnum \<times> jstring) option" where
  "parse_num s =
     (let (neg, s1) = (case s of c # r \<Rightarrow> if c = 45 then (True, r) else (False, s) | [] \<Rightarrow> (False, s));
          whole = (case s1 of c # r \<Rightarrow> if c = 48 then [c] else takeWhile is_digit s1 | [] \<Rightarrow> [])
      in if whole = [] then None
         else (case parse_fraction (drop (length whole) s1) of None \<Rightarrow> None
               | Some (fr, s2) \<Rightarrow>
                   (case parse_exponent s2 of None \<Rightarrow> None
                    | Some (e, s3) \<Rightarrow>
                        (let m = of_nat (undec (whole @ fr)) * pow_rat 10 (e - int (length fr))
                         in Some (to_f64 (if neg then - m else m), s3)))))"

datatype parsed = Parsed json jstring | SyntaxError | OutOfFuel

fun parse_value :: "nat \<Rightarrow> jstring \<Rightarrow> parsed"
and parse_elements :: "nat \<Rightarrow> json list \<Rightarrow> jstring \<Rightarrow> parsed"
and parse_members :: "nat \<Rightarrow> members \<Rightarrow> jstring \<Rightarrow> parsed" where
  "parse_value 0 s = OutOfFuel"
| "parse_value (Suc n) s =
     (case skip_ws s of
        [] \<Rightarrow> SyntaxError
      | c # r \<Rightarrow>
          if c = 123 then
            (if take 1 (skip_ws r) = [125] then Parsed (JObj []) (drop 1 (skip_ws r)) else parse_members n [] r)
          else if c = 91 then
            (if take 1 (skip_ws r) = [93] then Parsed (JArr []) (drop 1 (skip_ws r)) else parse_elements n [] r)
          else if c = 34 then
            (case parse_str r of None \<Rightarrow> SyntaxError | Some (t, r') \<Rightarrow> Parsed (JStr t) r')
          else if starts_with (c # r) (js ''true'') then Parsed (JBool True) (drop 4 (c # r))
          else if starts_with (c # r) (js ''false'') then Parsed (JBool False) (drop 5 (c # r))
          else if starts_with (c # r) (js ''null'') then Parsed JNull (drop 4 (c # r))
          else (case parse_num (c # r) of None \<Rightarrow> SyntaxError | Some (m, r') \<Rightarrow> Parsed (JNum m) r'))"
| "parse_elements 0 acc s = OutOfFuel"
| "parse_elements (Suc n) acc s =
     (case parse_value n s of
        Parsed v s' \<Rightarrow>
          (case skip_ws s' of
             [] \<Rightarrow> SyntaxError
           | c # r \<Rightarrow> if c = 44 then parse_elements n (acc @ [v]) r
                      else if c = 93 then Parsed (JArr (acc @ [v])) r else SyntaxError)
      | bad \<Rightarrow> bad)"
| "parse_members 0 acc s = OutOfFuel"
| "parse_members (Suc n) acc s =
     (case skip_ws s of
        [] \<Rightarrow> SyntaxError
      | q # r \<Rightarrow>
          if q \<noteq> 34 then SyntaxError
          else (case parse_str r of
                  None \<Rightarrow> SyntaxError
                | Some (k, r1) \<Rightarrow>
                    (case skip_ws r1 of
                       [] \<Rightarrow> SyntaxError
                     | colon # r2 \<Rightarrow>
                         if colon \<noteq> 58 then SyntaxError
                         else (case parse_value n r2 of
                                 Parsed v s' \<Rightarrow>
                                   (case skip_ws s' of
                                      [] \<Rightarrow> SyntaxError
                                    | c # r3 \<Rightarrow> if c = 44 then parse_members n (obj_put k v acc) r3
                                                else if c = 125 then Parsed (JObj (obj_put k v acc)) r3
                                                else SyntaxError)
                               | bad \<Rightarrow> bad))))"

text \<open>The text of a \<open>SyntaxError\<close> is up to the implementation; the model has one for all.\<close>

definition syntax_error :: jstring where
  "syntax_error = js ''JSON.parse: unexpected input''"

definition json_parse :: "jstring \<Rightarrow> json result" where
  "json_parse s =
     (case parse_value (2 * length s + 1) s of
        Parsed v r \<Rightarrow> if skip_ws r = [] then Inr v else Inl syntax_error
      | _ \<Rightarrow> Inl syntax_error)"

subsection \<open>The fuel is enough, and every object parsed is well formed\<close>

lemma length_skip_ws: "length (skip_ws s) \<le> length s"
  by (simp add: skip_ws_def length_dropWhile_le)

lemma skip_ws_Cons: "skip_ws s = c # r \<Longrightarrow> length r < length s"
  using length_skip_ws [of s] by simp

lemma parse_str_length: "parse_str s = Some (t, r) \<Longrightarrow> length r < length s"
proof (induction s arbitrary: t r rule: parse_str.induct)
  case (2 c s)
  then show ?case
    by (fastforce simp: push_unit_def dest: four_hex_length split: if_splits list.splits option.splits)
qed simp

lemma parse_fraction_length: "parse_fraction s = Some (ds, r) \<Longrightarrow> length r \<le> length s"
  by (auto simp: parse_fraction_def Let_def length_dropWhile_le le_SucI split: list.splits if_splits)

lemma parse_exponent_length: "parse_exponent s = Some (e, r) \<Longrightarrow> length r \<le> length s"
  by (auto simp: parse_exponent_def Let_def length_dropWhile_le le_SucI split: list.splits if_splits)

lemma parse_num_length: "parse_num s = Some (m, r) \<Longrightarrow> length r < length s"
  by (auto simp: parse_num_def Let_def split: list.splits if_splits option.splits
      dest!: parse_fraction_length parse_exponent_length)

lemma wf_obj_put:
  assumes "wf_json (JObj ps)" "wf_json v"
  shows "wf_json (JObj (obj_put k v ps))"
proof -
  have keys: "map fst (map (\<lambda>p. if fst p = k then (k, v) else p) ps) = map fst ps"
    by (induction ps) auto
  have ins: "mset (insert_index k v qs) = add_mset (k, v) (mset qs)" for qs
    by (induction qs) auto
  then have "mset (map fst (insert_index k v ps)) = add_mset k (mset (map fst ps))" by simp
  then have "k \<notin> fst ` set ps \<Longrightarrow> distinct (map fst ps) \<Longrightarrow> distinct (map fst (insert_index k v ps))"
    by (metis distinct.simps(2) list.set_map mset.simps(2) mset_eq_imp_distinct_iff)
  moreover have "set (insert_index k v ps) = insert (k, v) (set ps)"
    by (metis ins set_mset_add_mset_insert set_mset_mset)
  moreover have "wf_json (JObj (map (\<lambda>p. if fst p = k then (k, v) else p) ps))"
    using assms by (simp only: wf_json.simps keys) auto
  ultimately show ?thesis
    using assms unfolding obj_put_def has_own_def object_keys_def by auto
qed

lemma map_of_replace: "has_own ps k \<Longrightarrow> map_of (map (\<lambda>p. if fst p = k then (k, v) else p) ps) = (map_of ps)(k \<mapsto> v)"
proof -
  have other: "k \<notin> fst ` set ps \<Longrightarrow> map_of (map (\<lambda>p. if fst p = k then (k, v) else p) ps) = map_of ps" for ps
    by (induction ps) auto
  show "has_own ps k \<Longrightarrow> ?thesis"
  proof (induction ps)
    case (Cons p ps)
    then show ?case using other [of ps] by (cases "k \<in> fst ` set ps") (auto simp: has_own_def object_keys_def fun_upd_twist)
  qed (simp add: has_own_def object_keys_def)
qed

lemma map_of_insert_index: "k \<notin> fst ` set ps \<Longrightarrow> map_of (insert_index k v ps) = (map_of ps)(k \<mapsto> v)"
  by (induction ps) (auto simp: fun_upd_twist)

lemma map_of_obj_put: "map_of (obj_put k v ps) = (map_of ps)(k \<mapsto> v)"
proof -
  have "map_of (ps @ [(k, v)]) = (map_of ps)(k \<mapsto> v)" if "k \<notin> fst ` set ps"
    using that by (auto simp: map_add_def map_of_eq_None_iff [symmetric] fun_eq_iff split: option.splits)
  then show ?thesis
    using map_of_replace map_of_insert_index [of k ps v]
    by (simp add: obj_put_def) (auto simp: has_own_def object_keys_def)
qed

lemma keys_obj_put:
  "mset (map fst (obj_put k v ps)) = (if has_own ps k then mset (map fst ps) else add_mset k (mset (map fst ps)))"
proof -
  have keys: "map fst (map (\<lambda>p. if fst p = k then (k, v) else p) ps) = map fst ps" by (induction ps) auto
  have ins: "mset (map fst (insert_index k v ps)) = add_mset k (mset (map fst ps))" by (induction ps) auto
  show ?thesis
  proof (cases "has_own ps k")
    case True
    then show ?thesis by (simp only: obj_put_def if_True keys)
  next
    case False
    then show ?thesis using ins by (simp add: obj_put_def)
  qed
qed

lemma distinct_obj_put: "distinct (map fst ps) \<Longrightarrow> distinct (map fst (obj_put k v ps))"
proof -
  assume d: "distinct (map fst ps)"
  have "mset (map fst (obj_put k v ps)) = mset (if has_own ps k then map fst ps else k # map fst ps)"
    by (simp only: keys_obj_put mset.simps split: if_splits) simp
  then show ?thesis
    using d mset_eq_imp_distinct_iff by (fastforce simp: has_own_def object_keys_def split: if_splits)
qed

lemma parse_sound:
  "(2 * length s < n \<longrightarrow> parse_value n s \<noteq> OutOfFuel) \<and>
   (\<forall>v r. parse_value n s = Parsed v r \<longrightarrow> length r < length s \<and> wf_json v)"
  "(2 * length s + 1 < n \<longrightarrow> parse_elements n acc s \<noteq> OutOfFuel) \<and>
   (\<forall>v r. parse_elements n acc s = Parsed v r \<longrightarrow> wf_json (JArr acc) \<longrightarrow> length r < length s \<and> wf_json v)"
  "(2 * length s + 1 < n \<longrightarrow> parse_members n mem s \<noteq> OutOfFuel) \<and>
   (\<forall>v r. parse_members n mem s = Parsed v r \<longrightarrow> wf_json (JObj mem) \<longrightarrow> length r < length s \<and> wf_json v)"
proof (induction n s and n acc s and n mem s rule: parse_value_parse_elements_parse_members.induct)
  case (2 n s)
  show ?case
  proof (cases "skip_ws s")
    case (Cons c r)
    then have lt: "length r < length s" by (rule skip_ws_Cons)
    have "length (drop 1 (skip_ws r)) < length s"
      using length_skip_ws [of r] lt by simp
    with 2(1,2) [OF Cons] Cons lt length_skip_ws [of s] show ?thesis
      by (auto dest!: parse_str_length parse_num_length split: option.splits)
  qed simp
next
  case (4 n acc s)
  show ?case
  proof (cases "parse_value n s")
    case (Parsed v s')
    show ?thesis
    proof (cases "skip_ws s'")
      case (Cons c r)
      then have "length r < length s'" by (rule skip_ws_Cons)
      with 4(1) 4(2) [OF Parsed Cons] Parsed Cons show ?thesis
        by auto
    qed (use Parsed in simp)
  qed (use 4 in auto)
next
  case (6 n mem s)
  show ?case
  proof (cases "skip_ws s")
    case (Cons q r)
    then have lq: "length r < length s" by (rule skip_ws_Cons)
    show ?thesis
    proof (cases "q = 34 \<and> parse_str r \<noteq> None")
      case True
      then obtain k r1 where str: "parse_str r = Some (k, r1)" by auto
      then have l1: "length r1 < length r" by (rule parse_str_length)
      show ?thesis
      proof (cases "skip_ws r1")
        case colon: (Cons co r2)
        then have l2: "length r2 < length r1" by (rule skip_ws_Cons)
        show ?thesis
        proof (cases "co = 58")
          case co: True
          have q: "\<not> q \<noteq> 34" using True by simp
          have co': "\<not> co \<noteq> 58" using co by simp
          note IHv = 6(1) [OF Cons q str refl colon co']
          note IHm = 6(2) [OF Cons q str refl colon co']
          show ?thesis
          proof (cases "parse_value n r2")
            case (Parsed v s')
            show ?thesis
            proof (cases "skip_ws s'")
              case c: (Cons c r3)
              then have l3: "length r3 < length s'" by (rule skip_ws_Cons)
              have lr: "length s' < length r2" and wv: "wf_json v" using IHv Parsed by auto
              have short: "length r3 < length s" using lq l1 l2 l3 lr by linarith
              note IH = IHm [OF Parsed c]
              have fuel: "2 * length s + 1 < Suc n \<Longrightarrow> 2 * length r3 + 1 < n"
                using short by linarith
              from IH fuel short wv show ?thesis
                using Cons True str colon co Parsed c wf_obj_put [of mem v k]
                by (auto simp del: wf_json.simps)
            qed (use Cons True str colon co Parsed in simp)
          qed (use Cons True str colon co IHv lq l1 l2 in auto)
        qed (use Cons True str colon in simp)
      qed (use Cons True str in simp)
    qed (use Cons in \<open>auto split: option.splits\<close>)
  qed simp
qed auto

lemma json_parse_enough_fuel: "parse_value (2 * length s + 1) s \<noteq> OutOfFuel"
  using parse_sound(1) [of s "2 * length s + 1"] by simp

lemma json_parse_wf: "json_parse s = Inr v \<Longrightarrow> wf_json v"
  using parse_sound(1) [of s "2 * length s + 1"]
  by (auto simp: json_parse_def split: parsed.splits if_splits)

lemma json_parse_examples:
  "json_parse (js ''{\"b\": [1, 2.5e1, null], \"a\": \"xA\"} '') =
     Inr (JObj [(js ''b'', JArr [JNum (Fin 1), JNum (Fin 25), JNull]), (js ''a'', js_str ''xA'')])"
  "json_parse (js ''{\"a\": 1, \"a\": 2}'') = Inr (JObj [(js ''a'', JNum (Fin 2))])"
  "json_parse (js ''[1,]'') = Inl syntax_error"
  by code_simp+

end
