(* ===== verification/Sla_Aggregate.thy ===== *)
theory Sla_Aggregate imports JS_Json begin

text \<open>
  \<open>packages/sla/aggregate.js\<close>: the reputation ratios on the 0..1000 scale, over the outcomes
  of a window of verdicts and over the outcomes of settled claims.
\<close>

definition SCORE_SCALE :: nat where "SCORE_SCALE = 1000"
definition NO_DATA_SCORE :: nat where "NO_DATA_SCORE = SCORE_SCALE"

text \<open>
  An entry is a string or an object with an \<open>outcome\<close>; either way the loop looks at one value,
  \<open>None\<close> being \<open>undefined\<close>. \<open>JSON.stringify\<close> of it goes into the error.
\<close>

definition entry_outcome :: "json \<Rightarrow> json option" where
  "entry_outcome entry = (case entry of
     JStr s \<Rightarrow> Some (JStr s) | JObj ps \<Rightarrow> member ps ''outcome'' | _ \<Rightarrow> None)"

definition stringify_opt :: "json option \<Rightarrow> jstring" where
  "stringify_opt v = (case v of None \<Rightarrow> js ''undefined'' | Some w \<Rightarrow> stringify w)"

record window_counts =
  n_pass :: nat
  n_fail :: nat
  n_down :: nat

record reputation_scores =
  conformance :: nat
  availability :: nat
  window_total :: nat
  window :: window_counts

definition count_outcome :: "window_counts \<Rightarrow> json option \<Rightarrow> window_counts result" where
  "count_outcome c v =
     (if v = Some (js_str ''PASS'') then Inr (c\<lparr>n_pass := n_pass c + 1\<rparr>)
      else if v = Some (js_str ''FAIL'') then Inr (c\<lparr>n_fail := n_fail c + 1\<rparr>)
      else if v = Some (js_str ''DOWN'') then Inr (c\<lparr>n_down := n_down c + 1\<rparr>)
      else Inl (js ''aggregateWindow: unknown outcome '' @ stringify_opt v))"

fun count_window :: "window_counts \<Rightarrow> json list \<Rightarrow> window_counts result" where
  "count_window c [] = Inr c"
| "count_window c (entry # rest) = bind_r (count_outcome c (entry_outcome entry)) (\<lambda>c'. count_window c' rest)"

definition ratio :: "nat \<Rightarrow> nat \<Rightarrow> nat" where
  \<comment> \<open>\<open>d === 0 ? NO_DATA_SCORE : Math.floor((n * SCORE_SCALE) / d)\<close>\<close>
  "ratio n d = (if d = 0 then NO_DATA_SCORE else (n * SCORE_SCALE) div d)"

definition aggregate_window :: "json list \<Rightarrow> reputation_scores result" where
  "aggregate_window verdicts =
     bind_r (count_window \<lparr>n_pass = 0, n_fail = 0, n_down = 0\<rparr> verdicts) (\<lambda>c.
     let answered = n_pass c + n_fail c; total = answered + n_down c in
     Inr \<lparr>conformance = ratio (n_pass c) answered, availability = ratio answered total,
          window_total = total, window = c\<rparr>)"

record claim_counts =
  n_met :: nat
  n_breach :: nat
  n_undecided :: nat

record semantic_score =
  semantic_conformance :: nat
  n_decided :: nat
  claims :: claim_counts

definition count_claim :: "claim_counts \<Rightarrow> json option \<Rightarrow> claim_counts result" where
  "count_claim c v =
     (if v = Some (js_str ''MET'') then Inr (c\<lparr>n_met := n_met c + 1\<rparr>)
      else if v = Some (js_str ''BREACH'') then Inr (c\<lparr>n_breach := n_breach c + 1\<rparr>)
      else if v = Some (js_str ''OPEN'') \<or> v = Some (js_str ''UNDETERMINED'') \<or> v = Some (js_str ''CANCELLED'')
      then Inr (c\<lparr>n_undecided := n_undecided c + 1\<rparr>)
      else Inl (js ''aggregateSemantic: unknown outcome '' @ stringify_opt v))"

fun count_claims :: "claim_counts \<Rightarrow> json list \<Rightarrow> claim_counts result" where
  "count_claims c [] = Inr c"
| "count_claims c (entry # rest) = bind_r (count_claim c (entry_outcome entry)) (\<lambda>c'. count_claims c' rest)"

definition aggregate_semantic :: "json list \<Rightarrow> semantic_score result" where
  "aggregate_semantic settlements =
     bind_r (count_claims \<lparr>n_met = 0, n_breach = 0, n_undecided = 0\<rparr> settlements) (\<lambda>c.
     let decided = n_met c + n_breach c in
     Inr \<lparr>semantic_conformance = ratio (n_met c) decided, n_decided = decided, claims = c\<rparr>)"

section \<open>The loops count\<close>

definition occurrences :: "string \<Rightarrow> json list \<Rightarrow> nat" where
  "occurrences s es = count_list (map entry_outcome es) (Some (js_str s))"

definition known_outcomes :: "string list \<Rightarrow> json list \<Rightarrow> bool" where
  "known_outcomes ss es \<longleftrightarrow> (\<forall>e\<in>set es. entry_outcome e \<in> (\<lambda>s. Some (js_str s)) ` set ss)"

lemma occurrences_simps [simp]:
  "occurrences s [] = 0"
  "occurrences s (e # es) = (if entry_outcome e = Some (js_str s) then 1 else 0) + occurrences s es"
  by (simp_all add: occurrences_def)

lemma occurrences_append [simp]: "occurrences s (xs @ ys) = occurrences s xs + occurrences s ys"
  by (induction xs) auto

lemma occurrences_mset: "mset xs = mset ys \<Longrightarrow> occurrences s xs = occurrences s ys"
  unfolding occurrences_def by (metis count_mset mset_map)

lemma known_outcomes_simps [simp]:
  "known_outcomes ss []"
  "known_outcomes ss (e # es) \<longleftrightarrow> entry_outcome e \<in> (\<lambda>s. Some (js_str s)) ` set ss \<and> known_outcomes ss es"
  by (auto simp: known_outcomes_def)

lemma count_window_counts:
  "count_window c es = Inr c' \<longleftrightarrow> known_outcomes [''PASS'', ''FAIL'', ''DOWN''] es \<and>
     c' = \<lparr>n_pass = n_pass c + occurrences ''PASS'' es, n_fail = n_fail c + occurrences ''FAIL'' es,
           n_down = n_down c + occurrences ''DOWN'' es\<rparr>"
  by (induction es arbitrary: c) (auto simp: count_outcome_def bind_r_Inr_iff)

lemma count_claims_counts:
  "count_claims c es = Inr c' \<longleftrightarrow> known_outcomes [''MET'', ''BREACH'', ''OPEN'', ''UNDETERMINED'', ''CANCELLED''] es \<and>
     c' = \<lparr>n_met = n_met c + occurrences ''MET'' es, n_breach = n_breach c + occurrences ''BREACH'' es,
           n_undecided = n_undecided c + occurrences ''OPEN'' es + occurrences ''UNDETERMINED'' es
             + occurrences ''CANCELLED'' es\<rparr>"
  by (induction es arbitrary: c) (auto simp: count_claim_def bind_r_Inr_iff)

lemma aggregate_window_iff:
  "aggregate_window es = Inr r \<longleftrightarrow> known_outcomes [''PASS'', ''FAIL'', ''DOWN''] es \<and>
     (let p = occurrences ''PASS'' es; f = occurrences ''FAIL'' es; d = occurrences ''DOWN'' es in
      r = \<lparr>conformance = ratio p (p + f), availability = ratio (p + f) (p + f + d),
           window_total = p + f + d, window = \<lparr>n_pass = p, n_fail = f, n_down = d\<rparr>\<rparr>)"
  by (auto simp: aggregate_window_def bind_r_Inr_iff count_window_counts Let_def)

lemma aggregate_semantic_iff:
  "aggregate_semantic es = Inr r \<longleftrightarrow> known_outcomes [''MET'', ''BREACH'', ''OPEN'', ''UNDETERMINED'', ''CANCELLED''] es \<and>
     (let m = occurrences ''MET'' es; b = occurrences ''BREACH'' es in
      r = \<lparr>semantic_conformance = ratio m (m + b), n_decided = m + b,
           claims = \<lparr>n_met = m, n_breach = b, n_undecided = occurrences ''OPEN'' es + occurrences ''UNDETERMINED'' es
             + occurrences ''CANCELLED'' es\<rparr>\<rparr>)"
  by (auto simp: aggregate_semantic_def bind_r_Inr_iff count_claims_counts Let_def)

lemma ratio_le: "n \<le> d \<Longrightarrow> ratio n d \<le> SCORE_SCALE"
proof -
  assume "n \<le> d"
  then have "d \<noteq> 0 \<Longrightarrow> n * SCORE_SCALE div d \<le> d * SCORE_SCALE div d"
    by (intro div_le_mono mult_right_mono) auto
  then show ?thesis by (simp add: ratio_def NO_DATA_SCORE_def)
qed

lemma ratio_full: "ratio n d = SCORE_SCALE \<longleftrightarrow> d = 0 \<or> n = d" if "n \<le> d"
proof (cases "d = 0 \<or> n = d")
  case False
  then have "n * SCORE_SCALE < d * SCORE_SCALE" using that by (simp add: SCORE_SCALE_def)
  then have "n * SCORE_SCALE div d < SCORE_SCALE" by (simp add: less_mult_imp_div_less mult.commute)
  then show ?thesis using False by (simp add: ratio_def)
qed (auto simp: ratio_def NO_DATA_SCORE_def)

lemma down_only [simp]:
  "occurrences ''PASS'' (replicate n (js_str ''DOWN'')) = 0" "occurrences ''FAIL'' (replicate n (js_str ''DOWN'')) = 0"
  "known_outcomes [''PASS'', ''FAIL'', ''DOWN''] (replicate n (js_str ''DOWN''))"
  by (induction n) (auto simp: entry_outcome_def)

lemma known_outcomes_append [simp]:
  "known_outcomes ss (es @ es') \<longleftrightarrow> known_outcomes ss es \<and> known_outcomes ss es'"
  by (auto simp: known_outcomes_def)

lemma window_reordered:
  "mset es' = mset es \<Longrightarrow> aggregate_window es = Inr r \<Longrightarrow> aggregate_window es' = Inr r"
  using occurrences_mset [of es' es] mset_eq_setD [of es' es]
  by (simp add: aggregate_window_iff known_outcomes_def Let_def)

lemma window_with_outages:
  assumes "aggregate_window es = Inr r"
  shows "\<exists>r'. aggregate_window (es @ replicate n (js_str ''DOWN'')) = Inr r' \<and>
     conformance r' = conformance r \<and> availability r' \<le> availability r"
proof -
  have "ratio a (a + b + c) \<le> ratio a (a + b)" for a b c
    by (auto simp: ratio_def NO_DATA_SCORE_def div_le_mono2)
  then show ?thesis
    using assms by (auto simp: aggregate_window_iff Let_def add.assoc [symmetric])
qed

lemma window_bounds:
  assumes "aggregate_window es = Inr r"
  shows "conformance r \<le> 1000 \<and> availability r \<le> 1000 \<and>
     (conformance r = 1000 \<longleftrightarrow> occurrences ''FAIL'' es = 0) \<and> (availability r = 1000 \<longleftrightarrow> occurrences ''DOWN'' es = 0)"
  using assms ratio_le [of "occurrences ''PASS'' es" "occurrences ''PASS'' es + occurrences ''FAIL'' es"]
    ratio_full [of "occurrences ''PASS'' es" "occurrences ''PASS'' es + occurrences ''FAIL'' es"]
    ratio_le [of "occurrences ''PASS'' es + occurrences ''FAIL'' es"
      "occurrences ''PASS'' es + occurrences ''FAIL'' es + occurrences ''DOWN'' es"]
    ratio_full [of "occurrences ''PASS'' es + occurrences ''FAIL'' es"
      "occurrences ''PASS'' es + occurrences ''FAIL'' es + occurrences ''DOWN'' es"]
  by (auto simp: aggregate_window_iff Let_def SCORE_SCALE_def)

lemma undecided_none:
  "known_outcomes [''OPEN'', ''UNDETERMINED'', ''CANCELLED''] us \<Longrightarrow>
     occurrences ''MET'' us = 0 \<and> occurrences ''BREACH'' us = 0 \<and>
     known_outcomes [''MET'', ''BREACH'', ''OPEN'', ''UNDETERMINED'', ''CANCELLED''] us"
  by (induction us) auto

section \<open>Properties\<close>

text \<open>
  \<open>aggregateWindow\<close> returns exactly on windows whose every outcome is PASS, FAIL or DOWN; then
  both scores are integers in 0..1000, do not depend on the order of the events, understate
  rather than round up (1000 needs a record without a FAIL, respectively without a DOWN), and
  further DOWN entries leave conformance untouched and never raise availability.
\<close>

theorem window_scores:
  assumes "known_outcomes [''PASS'', ''FAIL'', ''DOWN''] es"
  shows "\<exists>r. aggregate_window es = Inr r \<and> conformance r \<le> 1000 \<and> availability r \<le> 1000 \<and>
     (conformance r = 1000 \<longleftrightarrow> occurrences ''FAIL'' es = 0) \<and> (availability r = 1000 \<longleftrightarrow> occurrences ''DOWN'' es = 0) \<and>
     (\<forall>es'. mset es' = mset es \<longrightarrow> aggregate_window es' = Inr r) \<and>
     (\<forall>n. \<exists>r'. aggregate_window (es @ replicate n (js_str ''DOWN'')) = Inr r' \<and>
        conformance r' = conformance r \<and> availability r' \<le> availability r)"
proof -
  obtain r where "aggregate_window es = Inr r"
    using assms by (auto simp: aggregate_window_iff Let_def)
  then show ?thesis
    using window_bounds window_reordered window_with_outages by blast
qed

theorem window_scores_witness:
  "\<exists>r. aggregate_window [js_str ''PASS'', js_str ''FAIL'', js_str ''DOWN''] = Inr r \<and>
     aggregate_window [js_str ''DOWN'', js_str ''FAIL'', js_str ''PASS''] = Inr r \<and> conformance r = 500"
proof -
  let ?es = "[js_str ''PASS'', js_str ''FAIL'', js_str ''DOWN'']"
  have "known_outcomes [''PASS'', ''FAIL'', ''DOWN''] ?es" by (simp add: entry_outcome_def)
  from window_scores [OF this] obtain r where r: "aggregate_window ?es = Inr r"
    and o': "\<forall>es'. mset es' = mset ?es \<longrightarrow> aggregate_window es' = Inr r" by blast
  have "aggregate_window [js_str ''DOWN'', js_str ''FAIL'', js_str ''PASS''] = Inr r"
    using o' by (simp add: add_mset_commute)
  moreover have "conformance r = 500"
    using r by (simp add: aggregate_window_iff entry_outcome_def ratio_def SCORE_SCALE_def numeral_2_eq_2 [symmetric])
  ultimately show ?thesis using r by blast
qed

text \<open>
  A verdict whose outcome is none of the three is never folded into a denominator: the
  aggregation throws.
\<close>

theorem unknown_outcomes_throw:
  "is_ok (aggregate_window es) \<longleftrightarrow> known_outcomes [''PASS'', ''FAIL'', ''DOWN''] es"
  by (simp add: is_ok_iff aggregate_window_iff Let_def)

text \<open>
  \<open>aggregateSemantic\<close> is moved by decided claims only: opening, cancelling or leaving undecided
  any number of claims changes neither the score, which stays in 0..1000, nor its denominator.
\<close>

theorem undecided_claims_do_not_move_the_score:
  assumes "aggregate_semantic es = Inr r" "known_outcomes [''OPEN'', ''UNDETERMINED'', ''CANCELLED''] us"
  shows "semantic_conformance r \<le> 1000 \<and>
     (\<exists>r'. aggregate_semantic (es @ us) = Inr r' \<and> semantic_conformance r' = semantic_conformance r \<and>
        n_decided r' = n_decided r)"
  using assms(1) undecided_none [OF assms(2)]
    ratio_le [of "occurrences ''MET'' es" "occurrences ''MET'' es + occurrences ''BREACH'' es"]
  by (auto simp: aggregate_semantic_iff Let_def SCORE_SCALE_def)

theorem undecided_claims_do_not_move_the_score_witness:
  "\<exists>r'. aggregate_semantic ([js_str ''MET'', js_str ''BREACH''] @ [js_str ''OPEN'', js_str ''CANCELLED'']) = Inr r' \<and>
     semantic_conformance r' = 500"
proof -
  have "aggregate_semantic [js_str ''MET'', js_str ''BREACH''] =
      Inr \<lparr>semantic_conformance = 500, n_decided = 2, claims = \<lparr>n_met = 1, n_breach = 1, n_undecided = 0\<rparr>\<rparr>"
    by (simp add: aggregate_semantic_iff entry_outcome_def ratio_def SCORE_SCALE_def numeral_2_eq_2 [symmetric])
  from undecided_claims_do_not_move_the_score [OF this, of "[js_str ''OPEN'', js_str ''CANCELLED'']"]
  show ?thesis by (auto simp: entry_outcome_def)
qed

end
