(* ===== verification/JS_Text.thy ===== *)
theory JS_Text imports JS_Json begin

text \<open>
  The rest of the JavaScript string library the program uses: \<open>trim\<close>, \<open>toLowerCase\<close> on ASCII
  text, \<open>Number(s)\<close>, \<open>BigInt(s)\<close> and hexadecimal digits.
\<close>

definition is_space :: "code_unit \<Rightarrow> bool" where
  "is_space c \<longleftrightarrow> 9 \<le> c \<and> c \<le> 13 \<or> c \<in> {32, 160, 5760, 8232, 8233, 8239, 8287, 12288, 65279} \<or>
     8192 \<le> c \<and> c \<le> 8202"

definition trim :: "jstring \<Rightarrow> jstring" where
  "trim s = rev (dropWhile is_space (rev (dropWhile is_space s)))"

text \<open>The program lowers header names, hosts, hex words and addresses: ASCII in every use.\<close>

definition lower_unit :: "code_unit \<Rightarrow> code_unit" where
  "lower_unit c = (if 65 \<le> c \<and> c \<le> 90 then c + 32 else c)"

definition lower :: "jstring \<Rightarrow> jstring" where
  "lower s = map lower_unit s"

lemma lower_lower [simp]: "lower (lower s) = lower s"
proof -
  have "lower_unit (lower_unit c) = lower_unit c" for c
    unfolding lower_unit_def by (simp add: word_le_nat_alt) unat_arith
  then show ?thesis by (simp add: lower_def)
qed

lemma length_lower [simp]: "length (lower s) = length s"
  by (simp add: lower_def)

definition is_hex :: "code_unit \<Rightarrow> bool" where
  "is_hex c \<longleftrightarrow> is_digit c \<or> 97 \<le> c \<and> c \<le> 102 \<or> 65 \<le> c \<and> c \<le> 70"

definition hex_num :: "code_unit \<Rightarrow> nat" where
  "hex_num c = (if is_digit c then digit_val c else if 97 \<le> c then unat (c - 87) else unat (c - 55))"

definition un_radix :: "nat \<Rightarrow> jstring \<Rightarrow> nat" where
  "un_radix r s = foldl (\<lambda>a c. r * a + hex_num c) 0 s"

definition has_prefix_ci :: "jstring \<Rightarrow> string \<Rightarrow> bool" where
  "has_prefix_ci s p \<longleftrightarrow> lower (take (length p) s) = js p"

definition in_radix :: "nat \<Rightarrow> jstring \<Rightarrow> bool" where
  "in_radix r s \<longleftrightarrow> s \<noteq> [] \<and> list_all (\<lambda>c. is_hex c \<and> hex_num c < r) s"

text \<open>\<open>0x\<close>, \<open>0o\<close> and \<open>0b\<close> literals, which carry no sign.\<close>

definition prefixed_literal :: "jstring \<Rightarrow> nat option" where
  "prefixed_literal t =
     (let body = drop 2 t in
      if has_prefix_ci t ''0x'' then (if in_radix 16 body then Some (un_radix 16 body) else None)
      else if has_prefix_ci t ''0o'' then (if in_radix 8 body then Some (un_radix 8 body) else None)
      else if has_prefix_ci t ''0b'' then (if in_radix 2 body then Some (un_radix 2 body) else None)
      else None)"

definition signed :: "jstring \<Rightarrow> int \<times> jstring" where
  "signed t = (case t of c # r \<Rightarrow> if c = 45 then (-1, r) else if c = 43 then (1, r) else (1, t) | [] \<Rightarrow> (1, []))"

definition exponent_part :: "jstring \<Rightarrow> int option" where
  "exponent_part t = (case t of
      [] \<Rightarrow> Some 0
    | c # r \<Rightarrow>
        if c = 101 \<or> c = 69 then
          (case signed r of (sg, ds) \<Rightarrow> if ds \<noteq> [] \<and> list_all is_digit ds then Some (sg * int (undec ds)) else None)
        else None)"

definition decimal_literal :: "jstring \<Rightarrow> rat option" where
  "decimal_literal t =
     (let ip = takeWhile is_digit t; r = dropWhile is_digit t;
          fp = (case r of c # r' \<Rightarrow> if c = 46 then takeWhile is_digit r' else [] | [] \<Rightarrow> []);
          r2 = (case r of c # r' \<Rightarrow> if c = 46 then dropWhile is_digit r' else r | [] \<Rightarrow> [])
      in if ip = [] \<and> fp = [] then None
         else map_option (\<lambda>e. let m = of_nat (undec (ip @ fp)); k = e - int (length fp) in
                 if 0 \<le> k then m * 10 ^ nat k else m / 10 ^ nat (- k)) (exponent_part r2))"

text \<open>\<open>Number(s)\<close> of a string.\<close>

definition number_of_string :: "jstring \<Rightarrow> jsnum" where
  "number_of_string s =
     (let t = trim s in
      if t = [] then Fin 0
      else case prefixed_literal t of Some n \<Rightarrow> to_f64 (of_nat n)
      | None \<Rightarrow>
          (case signed t of (sg, r) \<Rightarrow>
             if r = js ''Infinity'' then (if sg < 0 then NegInf else PosInf)
             else (case decimal_literal r of Some q \<Rightarrow> to_f64 (of_int sg * q) | None \<Rightarrow> NotNum)))"

text \<open>\<open>BigInt(s)\<close> of a string; \<open>None\<close> is the SyntaxError.\<close>

definition bigint_of_string :: "jstring \<Rightarrow> int option" where
  "bigint_of_string s =
     (let t = trim s in
      if t = [] then Some 0
      else case prefixed_literal t of Some n \<Rightarrow> Some (int n)
      | None \<Rightarrow>
          (case signed t of (sg, ds) \<Rightarrow>
             if ds \<noteq> [] \<and> list_all is_digit ds then Some (sg * int (undec ds)) else None))"

lemma number_of_string_examples:
  "number_of_string (js '' 0.5 '') = Fin (1/2)" "number_of_string (js ''0x1F'') = Fin 31"
  "number_of_string (js ''1e2x'') = NotNum" "number_of_string [] = Fin 0"
  by code_simp+

lemma bigint_of_string_examples:
  "bigint_of_string (js ''-12'') = Some (-12)" "bigint_of_string (js ''1.5'') = None"
  by code_simp+

end
