(* ===== verification/Json_Schema.thy ===== *)
theory Json_Schema imports JS_Json begin

text \<open>
  \<open>packages/sla/jsonschema.js\<close>: the hand-rolled JSON Schema subset. \<open>assert_schema\<close>
  walks a schema and throws on anything the validator cannot enforce; \<open>validate\<close> returns
  the first failure of a value in a fixed traversal order, \<open>None\<close> when it conforms.
\<close>

section \<open>The keywords\<close>

definition ANNOTATION_KEYWORDS :: "jstring list" where
  "ANNOTATION_KEYWORDS = map js
     [''$schema'', ''$id'', ''$comment'', ''title'', ''description'', ''examples'', ''default'']"

definition SUPPORTED_KEYWORDS :: "jstring list" where
  "SUPPORTED_KEYWORDS = map js
     [''type'', ''const'', ''enum'', ''properties'', ''required'', ''additionalProperties'', ''items'',
      ''minItems'', ''maxItems'', ''minLength'', ''maxLength'', ''minimum'', ''maximum'', ''oneOf'']"

definition TYPE_NAMES :: "jstring list" where
  "TYPE_NAMES = map js
     [''object'', ''array'', ''string'', ''number'', ''integer'', ''boolean'', ''null'']"

definition NON_NEGATIVE_INTEGER_KEYWORDS :: "string list" where
  "NON_NEGATIVE_INTEGER_KEYWORDS = [''minItems'', ''maxItems'', ''minLength'', ''maxLength'']"

definition FINITE_NUMBER_KEYWORDS :: "string list" where
  "FINITE_NUMBER_KEYWORDS = [''minimum'', ''maximum'']"

section \<open>JSON pointers\<close>

definition replace_unit :: "code_unit \<Rightarrow> jstring \<Rightarrow> jstring \<Rightarrow> jstring" where
  \<comment> \<open>\<open>replaceAll\<close> of a one-unit pattern\<close>
  "replace_unit c r s = concat (map (\<lambda>x. if x = c then r else [x]) s)"

definition escape_token :: "jstring \<Rightarrow> jstring" where
  "escape_token token = replace_unit 47 (js ''~1'') (replace_unit 126 (js ''~0'') token)"

definition child :: "jstring \<Rightarrow> jstring \<Rightarrow> jstring" where
  "child pointer token = pointer @ js ''/'' @ escape_token token"

definition at_text :: "jstring \<Rightarrow> jstring" where
  "at_text pointer = (if pointer = [] then js ''the schema root'' else pointer)"

section \<open>assertSchema\<close>

definition type_names :: "json \<Rightarrow> json list" where
  "type_names t = (case t of JArr ts \<Rightarrow> ts | _ \<Rightarrow> [t])"

definition type_name_ok :: "json \<Rightarrow> bool" where
  "type_name_ok t = (case t of JStr n \<Rightarrow> n \<in> set TYPE_NAMES | _ \<Rightarrow> False)"

definition assert_keywords :: "members \<Rightarrow> jstring \<Rightarrow> unit result" where
  "assert_keywords s loc = each_r (\<lambda>keyword.
     if keyword \<in> set ANNOTATION_KEYWORDS then Inr ()
     else ensure_r (keyword \<in> set SUPPORTED_KEYWORDS)
            (js ''sla: unsupported schema keyword \"'' @ keyword @ js ''\" at '' @ loc)) (sorted_keys s)"

definition assert_type :: "members \<Rightarrow> jstring \<Rightarrow> unit result" where
  "assert_type s loc = (case member s ''type'' of None \<Rightarrow> Inr ()
     | Some t \<Rightarrow>
         seq_r (ensure_r (type_names t \<noteq> [])
                   (js ''sla: \"type\" at '' @ loc @ js '' must name at least one type'')) (
         each_r (\<lambda>name. ensure_r (type_name_ok name)
                   (js ''sla: unknown type \"'' @ to_str name @ js ''\" at '' @ loc)) (type_names t)))"

definition assert_enum :: "members \<Rightarrow> jstring \<Rightarrow> unit result" where
  "assert_enum s loc = (case member s ''enum'' of None \<Rightarrow> Inr ()
     | Some e \<Rightarrow> ensure_r (case e of JArr vs \<Rightarrow> vs \<noteq> [] | _ \<Rightarrow> False)
                   (js ''sla: \"enum\" at '' @ loc @ js '' must be a non-empty array''))"

definition is_string :: "json \<Rightarrow> bool" where
  "is_string v = (case v of JStr _ \<Rightarrow> True | _ \<Rightarrow> False)"

definition assert_required :: "members \<Rightarrow> jstring \<Rightarrow> unit result" where
  "assert_required s loc = (case member s ''required'' of None \<Rightarrow> Inr ()
     | Some r \<Rightarrow> ensure_r (case r of JArr names \<Rightarrow> list_all is_string names | _ \<Rightarrow> False)
                   (js ''sla: \"required\" at '' @ loc @ js '' must be an array of strings''))"

definition non_negative_integer :: "json \<Rightarrow> bool" where
  "non_negative_integer v = (case v of JNum n \<Rightarrow> is_integer n \<and> \<not> num_less n (Fin 0) | _ \<Rightarrow> False)"

definition assert_bound :: "members \<Rightarrow> jstring \<Rightarrow> string \<Rightarrow> unit result" where
  "assert_bound s loc keyword = (case member s keyword of None \<Rightarrow> Inr ()
     | Some bound \<Rightarrow> ensure_r (non_negative_integer bound)
                       (js ''sla: \"'' @ js keyword @ js ''\" at '' @ loc @ js '' must be a non-negative integer''))"

definition finite_number :: "json \<Rightarrow> bool" where
  "finite_number v = (case v of JNum n \<Rightarrow> is_finite n | _ \<Rightarrow> False)"

definition assert_finite :: "members \<Rightarrow> jstring \<Rightarrow> string \<Rightarrow> unit result" where
  "assert_finite s loc keyword = (case member s keyword of None \<Rightarrow> Inr ()
     | Some bound \<Rightarrow> ensure_r (finite_number bound)
                       (js ''sla: \"'' @ js keyword @ js ''\" at '' @ loc @ js '' must be a finite number''))"

function (sequential) assert_schema :: "json \<Rightarrow> jstring \<Rightarrow> unit result" where
  "assert_schema (JObj s) pointer =
     seq_r (assert_keywords s (at_text pointer)) (
     seq_r (assert_type s (at_text pointer)) (
     seq_r (assert_enum s (at_text pointer)) (
     seq_r (assert_required s (at_text pointer)) (
     seq_r (each_r (assert_bound s (at_text pointer)) NON_NEGATIVE_INTEGER_KEYWORDS) (
     seq_r (each_r (assert_finite s (at_text pointer)) FINITE_NUMBER_KEYWORDS) (
     seq_r (case member s ''properties'' of None \<Rightarrow> Inr ()
             | Some properties \<Rightarrow>
                 (case properties of
                    JObj ps \<Rightarrow> each_r (\<lambda>name. case map_of ps name of None \<Rightarrow> Inr ()
                        | Some sub \<Rightarrow> assert_schema sub (child (pointer @ js ''/properties'') name)) (sorted_keys ps)
                  | _ \<Rightarrow> Inl (js ''sla: \"properties\" at '' @ at_text pointer @ js '' must be an object''))) (
     seq_r (case member s ''additionalProperties'' of None \<Rightarrow> Inr ()
             | Some additional \<Rightarrow>
                 (case additional of JBool _ \<Rightarrow> Inr ()
                  | _ \<Rightarrow> assert_schema additional (pointer @ js ''/additionalProperties''))) (
     seq_r (case member s ''items'' of None \<Rightarrow> Inr ()
             | Some items \<Rightarrow> assert_schema items (pointer @ js ''/items'')) (
     case member s ''oneOf'' of None \<Rightarrow> Inr ()
     | Some alternatives \<Rightarrow>
         (case alternatives of
            JArr bs \<Rightarrow>
              seq_r (ensure_r (2 \<le> length bs)
                (js ''sla: \"oneOf\" at '' @ at_text pointer @ js '' must be an array of at least two schemas'')) (
              each_r (\<lambda>(index, branch). assert_schema branch (child (pointer @ js ''/oneOf'') (dec index)))
                (enumerate 0 bs))
          | _ \<Rightarrow> Inl (js ''sla: \"oneOf\" at '' @ at_text pointer
                        @ js '' must be an array of at least two schemas'')))))))))))"
| "assert_schema _ pointer = Inl (js ''sla: schema at '' @ at_text pointer @ js '' must be an object'')"
  by pat_completeness auto
termination
proof (relation "measure (size \<circ> fst)")
  fix s pointer properties ps name sub
  assume "member s ''properties'' = Some properties" "properties = JObj ps" "map_of ps name = Some sub"
  then show "((sub, child (pointer @ js ''/properties'') name), (JObj s, pointer)) \<in> measure (size \<circ> fst)"
    using member_size [of s "''properties''" properties] map_of_size [of ps name sub] by simp
next
  fix s pointer alternatives bs x index branch
  assume "member s ''oneOf'' = Some alternatives" "alternatives = JArr bs"
    "x \<in> set (enumerate 0 bs)" "(index, branch) = x"
  then have "branch \<in> set bs" "size (JArr bs) < size (JObj s)"
    using member_size [of s "''oneOf''" alternatives] by (auto simp: in_set_enumerate_eq)
  then show "((branch, child (pointer @ js ''/oneOf'') (dec index)), (JObj s, pointer)) \<in> measure (size \<circ> fst)"
    using map_of_size_in [of branch bs] by simp
qed (auto dest: member_size)

declare assert_schema.simps(1) [simp del]

section \<open>matchesType, describeValue, deepEqual\<close>

fun matches_type :: "json \<Rightarrow> json \<Rightarrow> bool" where
  "matches_type v (JStr name) =
     (if name = js ''null'' then v = JNull
      else if name = js ''array'' then (case v of JArr _ \<Rightarrow> True | _ \<Rightarrow> False)
      else if name = js ''object'' then is_plain_object v
      else if name = js ''string'' then is_string v
      else if name = js ''boolean'' then (case v of JBool _ \<Rightarrow> True | _ \<Rightarrow> False)
      else if name = js ''number'' then (case v of JNum n \<Rightarrow> is_finite n | _ \<Rightarrow> False)
      else if name = js ''integer'' then (case v of JNum n \<Rightarrow> is_integer n | _ \<Rightarrow> False)
      else False)"
| "matches_type v _ = False"

fun describe_value :: "json \<Rightarrow> jstring" where
  "describe_value JNull = js ''null''"
| "describe_value (JArr vs) = js ''array('' @ dec (length vs) @ js '')''"
| "describe_value (JObj ps) = js ''object{'' @ dec (length (object_keys ps)) @ js ''}''"
| "describe_value (JStr s) =
     (if 40 < length s then js ''string '' @ quote (take 40 s) @ [8230] else js ''string '' @ quote s)"
| "describe_value (JNum n) = js ''number '' @ num_str n"
| "describe_value (JBool b) = js ''boolean '' @ to_str (JBool b)"

function (sequential) deep_equal :: "json \<Rightarrow> json \<Rightarrow> bool" where
  "deep_equal (JNum m) (JNum n) = num_eq m n"
| "deep_equal (JArr vs) (JArr ws) =
     (length vs = length ws \<and> list_all (\<lambda>(v, w). deep_equal v w) (zip vs ws))"
| "deep_equal (JObj ps) (JObj qs) =
     (length (sorted_keys ps) = length (sorted_keys qs) \<and>
      list_all (\<lambda>(key, other). key = other \<and>
          (case map_of ps key of None \<Rightarrow> False
           | Some v \<Rightarrow> (case map_of qs key of None \<Rightarrow> False | Some w \<Rightarrow> deep_equal v w)))
        (zip (sorted_keys ps) (sorted_keys qs)))"
| "deep_equal v w = (v = w)"
  by pat_completeness auto
termination
proof (relation "measure (size \<circ> fst)")
  fix vs ws x and v w :: json
  assume "x \<in> set (zip vs ws)" "(v, w) = x"
  then have "v \<in> set vs" by (auto dest: set_zip_leftD)
  then show "((v, w), JArr vs, JArr ws) \<in> measure (size \<circ> fst)"
    using map_of_size_in [of v vs] by simp
qed (auto dest: map_of_size)

section \<open>validate\<close>

record schema_failure =
  f_pointer :: jstring
  f_expected :: jstring
  f_actual :: jstring

type_synonym verdict = "schema_failure option result"

definition fail_at :: "jstring \<Rightarrow> jstring \<Rightarrow> jstring \<Rightarrow> verdict" where
  "fail_at p e a = Inr (Some \<lparr>f_pointer = p, f_expected = e, f_actual = a\<rparr>)"

definition join_values :: "jstring \<Rightarrow> json list \<Rightarrow> jstring" where
  "join_values sep vs = join_with sep (map (\<lambda>v. if v = JNull then [] else to_str v) vs)"

definition check_type :: "members \<Rightarrow> json \<Rightarrow> jstring \<Rightarrow> verdict" where
  "check_type s v p = (case member s ''type'' of None \<Rightarrow> Inr None
     | Some t \<Rightarrow> if list_ex (matches_type v) (type_names t) then Inr None
                 else fail_at p (join_values (js '' | '') (type_names t)) (describe_value v))"

definition check_const :: "members \<Rightarrow> json \<Rightarrow> jstring \<Rightarrow> verdict" where
  "check_const s v p = (case member s ''const'' of None \<Rightarrow> Inr None
     | Some c \<Rightarrow> if deep_equal v c then Inr None else fail_at p (stringify c) (describe_value v))"

definition check_enum :: "members \<Rightarrow> json \<Rightarrow> jstring \<Rightarrow> verdict" where
  "check_enum s v p = (case member s ''enum'' of None \<Rightarrow> Inr None
     | Some e \<Rightarrow>
         (case e of
            JArr options \<Rightarrow>
              if list_ex (deep_equal v) options then Inr None
              else fail_at p (js ''one of '' @ stringify (JArr options)) (describe_value v)
          | _ \<Rightarrow> Inl (js ''options.some is not a function'')))"

text \<open>\<open>typeof schema.k === 'number'\<close>, then its value.\<close>

definition number_member :: "members \<Rightarrow> string \<Rightarrow> jsnum option" where
  "number_member s k = (case member s k of Some (JNum n) \<Rightarrow> Some n | _ \<Rightarrow> None)"

definition check_number :: "members \<Rightarrow> json \<Rightarrow> jstring \<Rightarrow> verdict" where
  "check_number s v p = (case v of
       JNum n \<Rightarrow>
         or_else (case number_member s ''minimum'' of
                    Some lo \<Rightarrow> if num_less n lo then fail_at p (js ''>= '' @ num_str lo) (num_str n) else Inr None
                  | None \<Rightarrow> Inr None)
                 (case number_member s ''maximum'' of
                    Some hi \<Rightarrow> if num_less hi n then fail_at p (js ''<= '' @ num_str hi) (num_str n) else Inr None
                  | None \<Rightarrow> Inr None)
     | _ \<Rightarrow> Inr None)"

definition len_num :: "'a list \<Rightarrow> jsnum" where
  "len_num xs = Fin (of_nat (length xs))"

definition check_string :: "members \<Rightarrow> json \<Rightarrow> jstring \<Rightarrow> verdict" where
  "check_string s v p = (case v of
       JStr t \<Rightarrow>
         or_else (case number_member s ''minLength'' of
                    Some lo \<Rightarrow> if num_less (len_num t) lo
                       then fail_at p (js ''length >= '' @ num_str lo) (js ''length '' @ dec (length t)) else Inr None
                  | None \<Rightarrow> Inr None)
                 (case number_member s ''maxLength'' of
                    Some hi \<Rightarrow> if num_less hi (len_num t)
                       then fail_at p (js ''length <= '' @ num_str hi) (js ''length '' @ dec (length t)) else Inr None
                  | None \<Rightarrow> Inr None)
     | _ \<Rightarrow> Inr None)"

definition check_count :: "members \<Rightarrow> json \<Rightarrow> jstring \<Rightarrow> verdict" where
  "check_count s v p = (case v of
       JArr vs \<Rightarrow>
         or_else (case number_member s ''minItems'' of
                    Some lo \<Rightarrow> if num_less (len_num vs) lo
                       then fail_at p (js ''>= '' @ num_str lo @ js '' items'') (dec (length vs) @ js '' items'')
                       else Inr None
                  | None \<Rightarrow> Inr None)
                 (case number_member s ''maxItems'' of
                    Some hi \<Rightarrow> if num_less hi (len_num vs)
                       then fail_at p (js ''<= '' @ num_str hi @ js '' items'') (dec (length vs) @ js '' items'')
                       else Inr None
                  | None \<Rightarrow> Inr None)
     | _ \<Rightarrow> Inr None)"

definition check_required :: "members \<Rightarrow> json \<Rightarrow> jstring \<Rightarrow> verdict" where
  "check_required s v p = (case v of
       JObj ps \<Rightarrow>
         (case member s ''required'' of
            Some (JArr names) \<Rightarrow>
              first_fail (\<lambda>name. if has_own ps (to_str name) then Inr None
                                 else fail_at (child p (to_str name)) (js ''present'') (js ''absent'')) names
          | _ \<Rightarrow> Inr None)
     | _ \<Rightarrow> Inr None)"

definition schema_properties :: "members \<Rightarrow> members" where
  "schema_properties s = (case member s ''properties'' of Some (JObj ps) \<Rightarrow> ps | _ \<Rightarrow> [])"

definition one_of :: "members \<Rightarrow> json list option" where
  "one_of s = (case member s ''oneOf'' of Some (JArr bs) \<Rightarrow> Some bs | _ \<Rightarrow> None)"

lemma schema_properties_size: "map_of (schema_properties s) k = Some sub \<Longrightarrow> size sub < size (JObj s)"
  unfolding schema_properties_def
  by (auto split: option.splits json.splits dest!: member_size map_of_size)

lemma one_of_size: "one_of s = Some bs \<Longrightarrow> b \<in> set bs \<Longrightarrow> size b < size (JObj s)"
  unfolding one_of_def by (auto split: option.splits json.splits dest!: member_size map_of_size_in)

function (sequential) validate :: "json \<Rightarrow> json \<Rightarrow> jstring \<Rightarrow> verdict" where
  "validate (JObj s) v p =
     or_else (check_type s v p) (
     or_else (check_const s v p) (
     or_else (check_enum s v p) (
     or_else (check_number s v p) (
     or_else (check_string s v p) (
     or_else (check_count s v p) (
     or_else (case v of
                JArr vs \<Rightarrow>
                  (case member s ''items'' of None \<Rightarrow> Inr None
                   | Some items \<Rightarrow> first_fail (\<lambda>(index, x). validate items x (child p (dec index))) (enumerate 0 vs))
              | _ \<Rightarrow> Inr None) (
     or_else (check_required s v p) (
     or_else (case v of
                JObj ps \<Rightarrow>
                  first_fail (\<lambda>name. case map_of ps name of None \<Rightarrow> Inr None
                    | Some x \<Rightarrow> (case map_of (schema_properties s) name of None \<Rightarrow> Inr None
                        | Some sub \<Rightarrow> validate sub x (child p name))) (sorted_keys (schema_properties s))
              | _ \<Rightarrow> Inr None) (
     or_else (case v of
                JObj ps \<Rightarrow>
                  (case member s ''additionalProperties'' of None \<Rightarrow> Inr None
                   | Some additional \<Rightarrow>
                       first_fail (\<lambda>name.
                           if has_own (schema_properties s) name then Inr None
                           else (case map_of ps name of None \<Rightarrow> Inr None
                             | Some x \<Rightarrow>
                                 if additional = JBool False
                                 then fail_at (child p name) (js ''no such member'') (describe_value x)
                                 else if additional \<noteq> JBool True then validate additional x (child p name)
                                 else Inr None)) (sorted_keys ps))
              | _ \<Rightarrow> Inr None)
     (case one_of s of None \<Rightarrow> Inr None
      | Some bs \<Rightarrow>
          bind_r (filter_r (\<lambda>branch. bind_r (validate branch v p) (\<lambda>f. Inr (f = None))) bs) (\<lambda>matches.
          if length matches \<noteq> 1
          then fail_at p (js ''exactly one of '' @ dec (length bs) @ js '' alternatives'')
                 (js ''matched '' @ dec (length matches))
          else Inr None)))))))))))"
| "validate _ v p = Inl (js ''sla: validate() called with a non-object schema'')"
  by pat_completeness auto
termination
  by (relation "measure (size \<circ> fst)") (auto dest: member_size schema_properties_size one_of_size)

declare validate.simps(1) [simp del]

section \<open>What assertSchema accepts\<close>

definition local_ok :: "members \<Rightarrow> bool" where
  "local_ok s \<longleftrightarrow>
     set (object_keys s) \<subseteq> set ANNOTATION_KEYWORDS \<union> set SUPPORTED_KEYWORDS \<and>
     (\<forall>t. member s ''type'' = Some t \<longrightarrow> type_names t \<noteq> [] \<and> (\<forall>n\<in>set (type_names t). type_name_ok n)) \<and>
     (\<forall>e. member s ''enum'' = Some e \<longrightarrow> (\<exists>vs. e = JArr vs \<and> vs \<noteq> [])) \<and>
     (\<forall>r. member s ''required'' = Some r \<longrightarrow> (\<exists>names. r = JArr names \<and> (\<forall>n\<in>set names. is_string n))) \<and>
     (\<forall>k\<in>set NON_NEGATIVE_INTEGER_KEYWORDS. \<forall>b. member s k = Some b \<longrightarrow> non_negative_integer b) \<and>
     (\<forall>k\<in>set FINITE_NUMBER_KEYWORDS. \<forall>b. member s k = Some b \<longrightarrow> finite_number b)"

text \<open>
  A schema is supported when its own keywords are, and every schema nested in it is: no
  pointer, no order, no message.
\<close>

inductive supported :: "json \<Rightarrow> bool" where
  supportedI: "local_ok s \<Longrightarrow>
    (\<And>p. member s ''properties'' = Some p \<Longrightarrow>
       \<exists>ps. p = JObj ps \<and> (\<forall>k sub. map_of ps k = Some sub \<longrightarrow> supported sub)) \<Longrightarrow>
    (\<And>a. member s ''additionalProperties'' = Some a \<Longrightarrow> (\<exists>b. a = JBool b) \<or> supported a) \<Longrightarrow>
    (\<And>i. member s ''items'' = Some i \<Longrightarrow> supported i) \<Longrightarrow>
    (\<And>a. member s ''oneOf'' = Some a \<Longrightarrow> \<exists>bs. a = JArr bs \<and> 2 \<le> length bs \<and> (\<forall>b\<in>set bs. supported b)) \<Longrightarrow>
    supported (JObj s)"

inductive_simps supported_JObj: "supported (JObj s)"
inductive_cases supportedE: "supported v"

lemma supported_is_object: "supported v \<Longrightarrow> \<exists>s. v = JObj s"
  by (auto elim: supportedE)

lemma local_checks_iff:
  "assert_keywords s loc = Inr () \<and> assert_type s loc = Inr () \<and> assert_enum s loc = Inr () \<and>
   assert_required s loc = Inr () \<and> each_r (assert_bound s loc) NON_NEGATIVE_INTEGER_KEYWORDS = Inr () \<and>
   each_r (assert_finite s loc) FINITE_NUMBER_KEYWORDS = Inr () \<longleftrightarrow> local_ok s"
proof -
  have 1: "assert_keywords s loc = Inr () \<longleftrightarrow>
      set (object_keys s) \<subseteq> set ANNOTATION_KEYWORDS \<union> set SUPPORTED_KEYWORDS"
    by (auto simp: assert_keywords_def object_keys_def subset_iff)
  have 2: "assert_type s loc = Inr () \<longleftrightarrow>
      (\<forall>t. member s ''type'' = Some t \<longrightarrow> type_names t \<noteq> [] \<and> (\<forall>n\<in>set (type_names t). type_name_ok n))"
    by (auto simp: assert_type_def split: option.splits)
  have 3: "assert_enum s loc = Inr () \<longleftrightarrow> (\<forall>e. member s ''enum'' = Some e \<longrightarrow> (\<exists>vs. e = JArr vs \<and> vs \<noteq> []))"
    by (auto simp: assert_enum_def split: option.splits json.splits)
  have 4: "assert_required s loc = Inr () \<longleftrightarrow>
      (\<forall>r. member s ''required'' = Some r \<longrightarrow> (\<exists>names. r = JArr names \<and> (\<forall>n\<in>set names. is_string n)))"
    by (auto simp: assert_required_def list_all_iff split: option.splits json.splits)
  have 5: "assert_bound s loc k = Inr () \<longleftrightarrow> (\<forall>b. member s k = Some b \<longrightarrow> non_negative_integer b)" for k
    by (auto simp: assert_bound_def split: option.splits)
  have 6: "assert_finite s loc k = Inr () \<longleftrightarrow> (\<forall>b. member s k = Some b \<longrightarrow> finite_number b)" for k
    by (auto simp: assert_finite_def split: option.splits)
  show ?thesis unfolding local_ok_def each_r_ok_iff 1 2 3 4 5 6 by blast
qed

lemma ex_enumerate: "(\<exists>i. (i, b) \<in> set (enumerate n bs)) \<longleftrightarrow> b \<in> set bs"
proof -
  have "(\<exists>i. (i, b) \<in> set (enumerate n bs)) \<longleftrightarrow> b \<in> set (map snd (enumerate n bs))"
    by (simp only: set_map) force
  then show ?thesis by simp
qed

lemma assert_schema_iff: "assert_schema v p = Inr () \<longleftrightarrow> supported v"
proof (induction v p rule: assert_schema.induct)
  case (1 s p)
  let ?props = "\<forall>q. member s ''properties'' = Some q \<longrightarrow>
      (\<exists>ps. q = JObj ps \<and> (\<forall>k sub. map_of ps k = Some sub \<longrightarrow> supported sub))"
  have props: "(case member s ''properties'' of None \<Rightarrow> Inr ()
      | Some properties \<Rightarrow> (case properties of
          JObj ps \<Rightarrow> each_r (\<lambda>name. case map_of ps name of None \<Rightarrow> Inr ()
              | Some sub \<Rightarrow> assert_schema sub (child (p @ js ''/properties'') name)) (sorted_keys ps)
        | _ \<Rightarrow> Inl (js ''sla: \"properties\" at '' @ at_text p @ js '' must be an object''))) = Inr () \<longleftrightarrow> ?props"
  proof (cases "member s ''properties''")
    case (Some q)
    show ?thesis
    proof (cases q)
      case (JObj ps)
      have "\<forall>k sub. map_of ps k = Some sub \<longrightarrow>
          (assert_schema sub (child (p @ js ''/properties'') k) = Inr () \<longleftrightarrow> supported sub)"
        using 1(1) [OF Some JObj] by (force dest: map_of_SomeD)
      moreover have "map_of ps k = Some sub \<Longrightarrow> k \<in> fst ` set ps" for k sub
        by (metis image_eqI fst_conv map_of_SomeD)
      ultimately show ?thesis
        using Some JObj by (fastforce split: option.splits)
    qed (use Some in auto)
  qed simp
  have addl: "(case member s ''additionalProperties'' of None \<Rightarrow> Inr ()
      | Some additional \<Rightarrow> (case additional of JBool _ \<Rightarrow> Inr ()
          | _ \<Rightarrow> assert_schema additional (p @ js ''/additionalProperties''))) = Inr () \<longleftrightarrow>
      (\<forall>a. member s ''additionalProperties'' = Some a \<longrightarrow> (\<exists>b. a = JBool b) \<or> supported a)"
    using 1(2-6) by (auto split: option.splits json.splits)
  have items: "(case member s ''items'' of None \<Rightarrow> Inr ()
      | Some items \<Rightarrow> assert_schema items (p @ js ''/items'')) = Inr () \<longleftrightarrow>
      (\<forall>i. member s ''items'' = Some i \<longrightarrow> supported i)"
    using 1(7) by (auto split: option.splits)
  have alts: "(case member s ''oneOf'' of None \<Rightarrow> Inr ()
      | Some alternatives \<Rightarrow> (case alternatives of
          JArr bs \<Rightarrow> seq_r (ensure_r (2 \<le> length bs) m)
            (each_r (\<lambda>(index, branch). assert_schema branch (child (p @ js ''/oneOf'') (dec index))) (enumerate 0 bs))
        | _ \<Rightarrow> Inl m)) = Inr () \<longleftrightarrow>
      (\<forall>a. member s ''oneOf'' = Some a \<longrightarrow> (\<exists>bs. a = JArr bs \<and> 2 \<le> length bs \<and> (\<forall>b\<in>set bs. supported b)))" for m
  proof (cases "member s ''oneOf''")
    case (Some a)
    show ?thesis
    proof (cases a)
      case (JArr bs)
      have "assert_schema b (child (p @ js ''/oneOf'') (dec i)) = Inr () \<longleftrightarrow> supported b"
        if "(i, b) \<in> set (enumerate 0 bs)" for i b
        using 1(8) [OF Some JArr that refl] .
      moreover have "b \<in> set bs \<longleftrightarrow> (\<exists>i. (i, b) \<in> set (enumerate 0 bs))" for b
        by (simp add: ex_enumerate)
      ultimately show ?thesis using Some JArr by fastforce
    qed (use Some in auto)
  qed simp
  show ?case
    unfolding assert_schema.simps(1) supported_JObj seq_r_Inr_iff local_checks_iff [symmetric, of s "at_text p"]
      props addl items alts by blast
qed (auto elim: supportedE)

text \<open>Acceptance does not depend on the pointer a schema is reported at.\<close>

lemma assert_schema_pointer: "assert_schema v p = Inr () \<longleftrightarrow> assert_schema v q = Inr ()"
  by (simp add: assert_schema_iff)

section \<open>validate never throws on a schema assertSchema accepted\<close>

lemma supported_property:
  "supported (JObj s) \<Longrightarrow> map_of (schema_properties s) k = Some sub \<Longrightarrow> supported sub"
  by (fastforce simp: supported_JObj schema_properties_def split: option.splits json.splits)

lemma supported_one_of: "supported (JObj s) \<Longrightarrow> one_of s = Some bs \<Longrightarrow> b \<in> set bs \<Longrightarrow> supported b"
  by (fastforce simp: supported_JObj one_of_def split: option.splits json.splits)

lemma fail_at_ok [simp]: "is_ok (fail_at p e a)"
  by (simp add: fail_at_def)

lemma fail_at_neq_None [simp]: "fail_at p e a \<noteq> Inr None"
  by (simp add: fail_at_def)

lemma local_checks_ok:
  "is_ok (check_type s v p)" "is_ok (check_const s v p)" "is_ok (check_number s v p)"
  "is_ok (check_string s v p)" "is_ok (check_count s v p)" "is_ok (check_required s v p)"
  by (auto simp: check_type_def check_const_def check_number_def check_string_def check_count_def
      check_required_def intro!: or_else_ok first_fail_ok split: option.splits json.splits)

lemma check_enum_ok: "local_ok s \<Longrightarrow> is_ok (check_enum s v p)"
  by (auto simp: check_enum_def local_ok_def split: option.splits json.splits)

lemma validate_ok: "supported schema \<Longrightarrow> is_ok (validate schema v p)"
proof (induction schema v p rule: validate.induct)
  case (1 s v p)
  from "1.prems" have ok: "local_ok s"
    and items: "\<And>i. member s ''items'' = Some i \<Longrightarrow> supported i"
    and addl: "\<And>a. member s ''additionalProperties'' = Some a \<Longrightarrow> (\<exists>b. a = JBool b) \<or> supported a"
    by (auto simp: supported_JObj)
  show ?case
    unfolding validate.simps(1)
  proof (intro or_else_ok local_checks_ok check_enum_ok [OF ok], goal_cases)
    case 1
    show ?case using "1.IH"(1) items
      by (auto intro!: first_fail_ok split: json.splits option.splits)
  next
    case 2
    show ?case using "1.IH"(2) supported_property [OF "1.prems"]
      by (auto intro!: first_fail_ok split: json.splits option.splits)
  next
    case 3
    show ?case using "1.IH"(3) addl
      by (auto intro!: first_fail_ok split: json.splits option.splits simp del: set_sorted_keys)
  next
    case 4
    show ?case
    proof (cases "one_of s")
      case (Some bs)
      have "is_ok (bind_r (validate b v p) (\<lambda>f. Inr (f = None)))" if "b \<in> set bs" for b
        using "1.IH"(4) [OF Some that] supported_one_of [OF "1.prems" Some that]
        by (auto simp: is_ok_iff)
      then have "is_ok (filter_r (\<lambda>b. bind_r (validate b v p) (\<lambda>f. Inr (f = None))) bs)"
        by (rule filter_r_ok)
      then show ?thesis using Some by (auto simp: is_ok_iff [of "filter_r _ _"])
    qed simp
  qed
qed (auto elim: supportedE)

section \<open>The declarative reading of a schema\<close>

text \<open>
  \<open>conforms\<close> says what a schema means for a value, one conjunct per keyword: no pointer, no
  traversal order, no early return. \<open>validate\<close> is proved to compute it.
\<close>

definition conforms_here :: "members \<Rightarrow> json \<Rightarrow> bool" where
  "conforms_here s v \<longleftrightarrow>
     (\<forall>t. member s ''type'' = Some t \<longrightarrow> (\<exists>n\<in>set (type_names t). matches_type v n)) \<and>
     (\<forall>c. member s ''const'' = Some c \<longrightarrow> deep_equal v c) \<and>
     (\<forall>options. member s ''enum'' = Some (JArr options) \<longrightarrow> (\<exists>c\<in>set options. deep_equal v c)) \<and>
     (\<forall>n lo. v = JNum n \<longrightarrow> number_member s ''minimum'' = Some lo \<longrightarrow> \<not> num_less n lo) \<and>
     (\<forall>n hi. v = JNum n \<longrightarrow> number_member s ''maximum'' = Some hi \<longrightarrow> \<not> num_less hi n) \<and>
     (\<forall>t lo. v = JStr t \<longrightarrow> number_member s ''minLength'' = Some lo \<longrightarrow> \<not> num_less (len_num t) lo) \<and>
     (\<forall>t hi. v = JStr t \<longrightarrow> number_member s ''maxLength'' = Some hi \<longrightarrow> \<not> num_less hi (len_num t)) \<and>
     (\<forall>vs lo. v = JArr vs \<longrightarrow> number_member s ''minItems'' = Some lo \<longrightarrow> \<not> num_less (len_num vs) lo) \<and>
     (\<forall>vs hi. v = JArr vs \<longrightarrow> number_member s ''maxItems'' = Some hi \<longrightarrow> \<not> num_less hi (len_num vs)) \<and>
     (\<forall>ps names. v = JObj ps \<longrightarrow> member s ''required'' = Some (JArr names) \<longrightarrow>
        (\<forall>n\<in>set names. has_own ps (to_str n)))"

function (sequential) conforms :: "json \<Rightarrow> json \<Rightarrow> bool" where
  "conforms (JObj s) v \<longleftrightarrow>
     conforms_here s v \<and>
     (case v of
        JArr vs \<Rightarrow> (case member s ''items'' of None \<Rightarrow> True | Some items \<Rightarrow> list_all (\<lambda>x. conforms items x) vs)
      | JObj ps \<Rightarrow>
          list_all (\<lambda>(k, x).
            case map_of (schema_properties s) k of
              Some sub \<Rightarrow> conforms sub x
            | None \<Rightarrow> (case member s ''additionalProperties'' of None \<Rightarrow> True
                | Some a \<Rightarrow> a = JBool True \<or> a \<noteq> JBool False \<and> conforms a x)) ps
      | _ \<Rightarrow> True) \<and>
     (case one_of s of None \<Rightarrow> True | Some bs \<Rightarrow> length (filter (\<lambda>b. conforms b v) bs) = 1)"
| "conforms _ v = False"
  by pat_completeness auto
termination
  by (relation "measure (size \<circ> fst)") (auto dest: member_size schema_properties_size one_of_size)

declare conforms.simps(1) [simp del]

lemma conforms_here_iff:
  assumes "local_ok s"
  shows "conforms_here s v \<longleftrightarrow>
     check_type s v p = Inr None \<and> check_const s v p = Inr None \<and> check_enum s v p = Inr None \<and>
     check_number s v p = Inr None \<and> check_string s v p = Inr None \<and> check_count s v p = Inr None \<and>
     check_required s v p = Inr None"
proof -
  have 1: "check_type s v p = Inr None \<longleftrightarrow>
      (\<forall>t. member s ''type'' = Some t \<longrightarrow> (\<exists>n\<in>set (type_names t). matches_type v n))"
    by (auto simp: check_type_def list_ex_iff split: option.splits)
  have 2: "check_const s v p = Inr None \<longleftrightarrow> (\<forall>c. member s ''const'' = Some c \<longrightarrow> deep_equal v c)"
    by (auto simp: check_const_def split: option.splits)
  have 3: "check_enum s v p = Inr None \<longleftrightarrow>
      (\<forall>options. member s ''enum'' = Some (JArr options) \<longrightarrow> (\<exists>c\<in>set options. deep_equal v c))"
    using assms by (auto simp: check_enum_def local_ok_def list_ex_iff split: option.splits json.splits)
  have 4: "check_required s v p = Inr None \<longleftrightarrow>
      (\<forall>ps names. v = JObj ps \<longrightarrow> member s ''required'' = Some (JArr names) \<longrightarrow>
        (\<forall>n\<in>set names. has_own ps (to_str n)))"
    by (auto simp: check_required_def split: option.splits json.splits)
  show ?thesis
    unfolding conforms_here_def 1 2 3 4
    by (cases v) (auto simp: check_number_def check_string_def check_count_def split: option.splits)
qed

lemma validate_conforms:
  "supported schema \<Longrightarrow> wf_json v \<Longrightarrow> validate schema v p = Inr None \<longleftrightarrow> conforms schema v"
proof (induction schema v p rule: validate.induct)
  case (1 s v p)
  from "1.prems"(1) have ok: "local_ok s"
    and items: "\<And>i. member s ''items'' = Some i \<Longrightarrow> supported i"
    and addl: "\<And>a. member s ''additionalProperties'' = Some a \<Longrightarrow> (\<exists>b. a = JBool b) \<or> supported a"
    by (auto simp: supported_JObj)
  have A: "(case member s ''items'' of None \<Rightarrow> Inr None
      | Some it \<Rightarrow> first_fail (\<lambda>(index, x). validate it x (child p (dec index))) (enumerate 0 vs)) = Inr None
    \<longleftrightarrow> (case member s ''items'' of None \<Rightarrow> True | Some it \<Rightarrow> list_all (conforms it) vs)"
    if v: "v = JArr vs" for vs
  proof (cases "member s ''items''")
    case (Some it)
    have "validate it x (child p (dec i)) = Inr None \<longleftrightarrow> conforms it x" if "(i, x) \<in> set (enumerate 0 vs)" for i x
    proof -
      have "x \<in> set vs" using that by (metis ex_enumerate)
      then have "wf_json x" using "1.prems"(2) v by auto
      then show ?thesis by (rule "1.IH"(1) [OF v Some that refl items [OF Some]])
    qed
    then have "(\<forall>y\<in>set (enumerate 0 vs). (case y of (i, x) \<Rightarrow> validate it x (child p (dec i))) = Inr None)
        \<longleftrightarrow> (\<forall>i x. (i, x) \<in> set (enumerate 0 vs) \<longrightarrow> conforms it x)" by auto
    also have "\<dots> \<longleftrightarrow> (\<forall>x\<in>set vs. conforms it x)" by (metis ex_enumerate)
    finally show ?thesis using Some by (simp add: list_all_iff)
  qed simp
  have B: "first_fail (\<lambda>name. case map_of ps name of None \<Rightarrow> Inr None
        | Some x \<Rightarrow> (case map_of (schema_properties s) name of None \<Rightarrow> Inr None
            | Some sub \<Rightarrow> validate sub x (child p name))) (sorted_keys (schema_properties s)) = Inr None
    \<longleftrightarrow> (\<forall>k x sub. map_of ps k = Some x \<longrightarrow> map_of (schema_properties s) k = Some sub \<longrightarrow> conforms sub x)"
    if v: "v = JObj ps" for ps
  proof -
    have "validate sub x (child p k) = Inr None \<longleftrightarrow> conforms sub x"
      if k: "k \<in> set (sorted_keys (schema_properties s))"
        and x: "map_of ps k = Some x" and sub: "map_of (schema_properties s) k = Some sub" for k x sub
      using "1.IH"(2) [OF v k x sub supported_property [OF "1.prems"(1) sub]] wf_map_of [of ps k x] "1.prems"(2) v x
      by simp
    moreover have "map_of (schema_properties s) k = Some sub \<Longrightarrow> k \<in> set (sorted_keys (schema_properties s))" for k sub
      by (force dest: map_of_SomeD)
    ultimately show ?thesis by (fastforce split: option.splits simp del: set_sorted_keys)
  qed
  have C: "(case member s ''additionalProperties'' of None \<Rightarrow> Inr None
      | Some additional \<Rightarrow> first_fail (\<lambda>name.
           if has_own (schema_properties s) name then Inr None
           else (case map_of ps name of None \<Rightarrow> Inr None
             | Some x \<Rightarrow> if additional = JBool False
                 then fail_at (child p name) (js ''no such member'') (describe_value x)
                 else if additional \<noteq> JBool True then validate additional x (child p name)
                 else Inr None)) (sorted_keys ps)) = Inr None
    \<longleftrightarrow> (\<forall>k x. map_of ps k = Some x \<longrightarrow> map_of (schema_properties s) k = None \<longrightarrow>
        (case member s ''additionalProperties'' of None \<Rightarrow> True
         | Some a \<Rightarrow> a = JBool True \<or> a \<noteq> JBool False \<and> conforms a x))"
    if v: "v = JObj ps" for ps
  proof (cases "member s ''additionalProperties''")
    case (Some a)
    have "validate a x (child p k) = Inr None \<longleftrightarrow> conforms a x"
      if "k \<in> set (sorted_keys ps)" "\<not> has_own (schema_properties s) k" "map_of ps k = Some x"
        "a \<noteq> JBool False" "a \<noteq> JBool True" for k x
    proof -
      have "supported a" using addl [OF Some] that(4,5) by (metis (full_types))
      moreover have "wf_json x" using wf_map_of [of ps k x] "1.prems"(2) v that(3) by simp
      ultimately show ?thesis using "1.IH"(3) [OF v Some that] by simp
    qed
    moreover have "map_of ps k = Some x \<Longrightarrow> k \<in> set (sorted_keys ps)" for k x
      by (force dest: map_of_SomeD)
    ultimately show ?thesis using Some
      by (fastforce simp: has_own_iff split: option.splits if_splits simp del: set_sorted_keys)
  qed simp
  have BC: "(\<forall>k x sub. map_of ps k = Some x \<longrightarrow> map_of (schema_properties s) k = Some sub \<longrightarrow> conforms sub x) \<and>
      (\<forall>k x. map_of ps k = Some x \<longrightarrow> map_of (schema_properties s) k = None \<longrightarrow> Q x) \<longleftrightarrow>
      list_all (\<lambda>(k, x). case map_of (schema_properties s) k of Some sub \<Rightarrow> conforms sub x | None \<Rightarrow> Q x) ps"
    if "v = JObj ps" for ps Q
  proof -
    have "map_of ps k = Some x \<longleftrightarrow> (k, x) \<in> set ps" for k x
      using "1.prems"(2) that by (simp add: map_of_eq_Some_iff)
    then show ?thesis by (fastforce simp: list_all_iff split: option.splits)
  qed
  have D: "(case one_of s of None \<Rightarrow> Inr None
      | Some bs \<Rightarrow> bind_r (filter_r (\<lambda>branch. bind_r (validate branch v p) (\<lambda>f. Inr (f = None))) bs) (\<lambda>matches.
          if length matches \<noteq> 1 then fail_at p (e bs) (a matches) else Inr None)) = Inr None
    \<longleftrightarrow> (case one_of s of None \<Rightarrow> True | Some bs \<Rightarrow> length (filter (\<lambda>b. conforms b v) bs) = 1)" for e a
  proof (cases "one_of s")
    case (Some bs)
    have "bind_r (validate b v p) (\<lambda>f. Inr (f = None)) = Inr (conforms b v)" if b: "b \<in> set bs" for b
    proof -
      have "supported b" using supported_one_of [OF "1.prems"(1) Some b] .
      then have "is_ok (validate b v p)" "validate b v p = Inr None \<longleftrightarrow> conforms b v"
        using validate_ok "1.IH"(4) [OF Some b _ "1.prems"(2)] by blast+
      then show ?thesis by (auto simp: is_ok_iff)
    qed
    then have "filter_r (\<lambda>b. bind_r (validate b v p) (\<lambda>f. Inr (f = None))) bs = Inr (filter (\<lambda>b. conforms b v) bs)"
      by (rule filter_r_Inr)
    then show ?thesis using Some by simp
  qed simp
  show ?case
  proof (cases v)
    case (JArr vs)
    show ?thesis
      unfolding validate.simps(1) conforms.simps(1) or_else_None_iff conforms_here_iff [OF ok, of v p] D
      unfolding JArr json.case A [OF JArr] by blast
  next
    case (JObj ps)
    show ?thesis
      unfolding validate.simps(1) conforms.simps(1) or_else_None_iff conforms_here_iff [OF ok, of v p] D
      unfolding JObj json.case B [OF JObj] C [OF JObj] BC [OF JObj, symmetric] by blast
  next
    case JNull
    show ?thesis
      unfolding validate.simps(1) conforms.simps(1) or_else_None_iff conforms_here_iff [OF ok, of v p] D
      unfolding JNull json.case by blast
  next
    case (JBool b)
    show ?thesis
      unfolding validate.simps(1) conforms.simps(1) or_else_None_iff conforms_here_iff [OF ok, of v p] D
      unfolding JBool json.case by blast
  next
    case (JNum n)
    show ?thesis
      unfolding validate.simps(1) conforms.simps(1) or_else_None_iff conforms_here_iff [OF ok, of v p] D
      unfolding JNum json.case by blast
  next
    case (JStr t)
    show ?thesis
      unfolding validate.simps(1) conforms.simps(1) or_else_None_iff conforms_here_iff [OF ok, of v p] D
      unfolding JStr json.case by blast
  qed
qed (auto elim: supportedE)

section \<open>Key order of the value is invisible\<close>

text \<open>
  Reordering the members of any object of the validated value changes neither the verdict
  nor a byte of the reported failure: every branch of \<open>validate\<close> gives the same result on a
  value and on its canonical form.
\<close>

lemma describe_canon [simp]: "describe_value (canon v) = describe_value v"
  by (cases v) (simp_all add: canon_JObj object_keys_def del: canon.simps(2))

lemma is_string_canon [simp]: "is_string (canon v) = is_string v"
  by (cases v) (simp_all add: is_string_def)

lemma matches_type_canon [simp]: "matches_type (canon v) n = matches_type v n"
  by (cases n; cases v) (simp_all add: is_string_def)

lemma canon_leaf:
  "canon v = JNull \<longleftrightarrow> v = JNull" "canon v = JBool b \<longleftrightarrow> v = JBool b" "canon v = JStr t \<longleftrightarrow> v = JStr t"
  by (cases v; simp)+

lemma deep_equal_canon: "wf_json v \<Longrightarrow> deep_equal (canon v) w = deep_equal v w"
proof (induction v w rule: deep_equal.induct)
  case (2 vs ws)
  have "deep_equal (canon v) w = deep_equal v w" if "(v, w) \<in> set (zip vs ws)" for v w
    using "2.IH" [OF that refl] "2.prems" set_zip_leftD [OF that] by simp
  then show ?case by (auto simp: list_all_iff zip_map1)
next
  case (3 ps qs)
  have d: "distinct (map fst ps)" using "3.prems" by simp
  have "deep_equal (canon v) w = deep_equal v w"
    if "(key, key) \<in> set (zip (sorted_keys ps) (sorted_keys qs))" "map_of ps key = Some v" "map_of qs key = Some w" for key v w
    using "3.IH" [OF that(1) refl that(2,3)] wf_map_of [OF "3.prems" that(2)] by simp
  then show ?case
    by (auto simp: canon_JObj map_of_canon_members [OF d] list_all_iff simp del: canon.simps split: option.splits)
qed (simp_all add: canon_leaf canon_JObj del: canon.simps(2))

lemma checks_canon:
  assumes "wf_json v"
  shows "check_type s (canon v) p = check_type s v p" "check_const s (canon v) p = check_const s v p"
    "check_enum s (canon v) p = check_enum s v p" "check_number s (canon v) p = check_number s v p"
    "check_string s (canon v) p = check_string s v p" "check_count s (canon v) p = check_count s v p"
    "check_required s (canon v) p = check_required s v p"
proof -
  have eq: "matches_type (canon v) = matches_type v" "deep_equal (canon v) = deep_equal v"
    using deep_equal_canon [OF assms] by (simp_all add: fun_eq_iff)
  show "check_type s (canon v) p = check_type s v p" "check_const s (canon v) p = check_const s v p"
    "check_enum s (canon v) p = check_enum s v p"
    unfolding check_type_def check_const_def check_enum_def eq describe_canon by (rule refl)+
  show "check_number s (canon v) p = check_number s v p"
    by (cases v) (simp_all add: check_number_def canon_JObj del: canon.simps(2))
  show "check_string s (canon v) p = check_string s v p"
    by (cases v) (simp_all add: check_string_def canon_JObj del: canon.simps(2))
  show "check_count s (canon v) p = check_count s v p"
  proof (cases v)
    case (JArr vs)
    show ?thesis unfolding JArr check_count_def canon.simps json.case len_num_def length_map by (rule refl)
  qed (simp_all add: check_count_def canon_JObj del: canon.simps(2))
  show "check_required s (canon v) p = check_required s v p"
  proof (cases v)
    case (JObj ps)
    show ?thesis unfolding JObj check_required_def canon_JObj json.case has_own_canon by (rule refl)
  qed (simp_all add: check_required_def)
qed

lemma enumerate_map: "enumerate n (map f xs) = map (\<lambda>(i, x). (i, f x)) (enumerate n xs)"
  by (induction xs arbitrary: n) auto

lemma first_fail_map: "first_fail f (map g xs) = first_fail (f \<circ> g) xs"
  by (induction xs) auto

lemma validate_canon: "wf_json v \<Longrightarrow> validate schema (canon v) p = validate schema v p"
proof (induction schema v p rule: validate.induct)
  case (1 s v p)
  have A: "first_fail (\<lambda>(index, x). validate it x (child p (dec index))) (enumerate 0 (map canon vs)) =
      first_fail (\<lambda>(index, x). validate it x (child p (dec index))) (enumerate 0 vs)"
    if "member s ''items'' = Some it" "v = JArr vs" for it vs
    unfolding enumerate_map first_fail_map
  proof (rule first_fail_cong [OF refl])
    fix y assume y: "y \<in> set (enumerate 0 vs)"
    obtain i x where [simp]: "y = (i, x)" by (cases y)
    have "x \<in> set vs" using y by (metis \<open>y = (i, x)\<close> ex_enumerate)
    then have "wf_json x" using "1.prems" that by simp
    then show "((\<lambda>(index, x). validate it x (child p (dec index))) \<circ> (\<lambda>(i, x). (i, canon x))) y =
        (case y of (index, x) \<Rightarrow> validate it x (child p (dec index)))"
      using "1.IH"(1) [OF that(2,1) y] by simp
  qed
  have d: "distinct (map fst ps)" if "v = JObj ps" for ps using that "1.prems" by simp
  have B: "(case map_of (canon_members ps) k of None \<Rightarrow> Inr None | Some x \<Rightarrow>
        (case map_of (schema_properties s) k of None \<Rightarrow> Inr None | Some sub \<Rightarrow> validate sub x (child p k))) =
      (case map_of ps k of None \<Rightarrow> Inr None | Some x \<Rightarrow>
        (case map_of (schema_properties s) k of None \<Rightarrow> Inr None | Some sub \<Rightarrow> validate sub x (child p k)))"
    if "v = JObj ps" "k \<in> set (sorted_keys (schema_properties s))" for ps k
    using "1.IH"(2) [OF that(1,2)] wf_map_of [of ps k] "1.prems" that(1)
    by (auto simp: map_of_canon_members [OF d [OF that(1)]] simp del: wf_json.simps split: option.splits)
  have C: "(case map_of (canon_members ps) k of None \<Rightarrow> Inr None | Some x \<Rightarrow>
        if a = JBool False then fail_at (child p k) (js ''no such member'') (describe_value x)
        else if a \<noteq> JBool True then validate a x (child p k) else Inr None) =
      (case map_of ps k of None \<Rightarrow> Inr None | Some x \<Rightarrow>
        if a = JBool False then fail_at (child p k) (js ''no such member'') (describe_value x)
        else if a \<noteq> JBool True then validate a x (child p k) else Inr None)"
    if "v = JObj ps" "member s ''additionalProperties'' = Some a" "k \<in> set (sorted_keys ps)"
      "\<not> has_own (schema_properties s) k" for ps a k
    using "1.IH"(3) [OF that] wf_map_of [of ps k] "1.prems" that(1)
    by (auto simp: map_of_canon_members [OF d [OF that(1)]] simp del: wf_json.simps split: option.splits)
  have D: "filter_r (\<lambda>b. bind_r (validate b (canon v) p) (\<lambda>f. Inr (f = None))) bs =
      filter_r (\<lambda>b. bind_r (validate b v p) (\<lambda>f. Inr (f = None))) bs"
    if "one_of s = Some bs" for bs
    by (rule filter_r_cong [OF refl]) (simp add: "1.IH"(4) [OF that _ "1.prems"])
  have D': "(case one_of s of None \<Rightarrow> Inr None
      | Some bs \<Rightarrow> bind_r (filter_r (\<lambda>b. bind_r (validate b (canon v) p) (\<lambda>f. Inr (f = None))) bs) (K bs)) =
     (case one_of s of None \<Rightarrow> Inr None
      | Some bs \<Rightarrow> bind_r (filter_r (\<lambda>b. bind_r (validate b v p) (\<lambda>f. Inr (f = None))) bs) (K bs))" for K :: "_ \<Rightarrow> _ \<Rightarrow> verdict"
    by (simp add: D split: option.splits)
  show ?case
  proof (cases v)
    case (JArr vs)
    show ?thesis
      unfolding validate.simps(1) checks_canon [OF "1.prems"] D'
      using A [OF _ JArr] by (simp add: JArr split: option.splits)
  next
    case (JObj ps)
    have E: "first_fail (\<lambda>name. case map_of (canon_members ps) name of None \<Rightarrow> Inr None
        | Some x \<Rightarrow> (case map_of (schema_properties s) name of None \<Rightarrow> Inr None
            | Some sub \<Rightarrow> validate sub x (child p name))) (sorted_keys (schema_properties s)) =
      first_fail (\<lambda>name. case map_of ps name of None \<Rightarrow> Inr None
        | Some x \<Rightarrow> (case map_of (schema_properties s) name of None \<Rightarrow> Inr None
            | Some sub \<Rightarrow> validate sub x (child p name))) (sorted_keys (schema_properties s))"
      by (rule first_fail_cong [OF refl]) (rule B [OF JObj])
    have F: "first_fail (\<lambda>name.
           if has_own (schema_properties s) name then Inr None
           else (case map_of (canon_members ps) name of None \<Rightarrow> Inr None
             | Some x \<Rightarrow> if additional = JBool False
                 then fail_at (child p name) (js ''no such member'') (describe_value x)
                 else if additional \<noteq> JBool True then validate additional x (child p name)
                 else Inr None)) (sorted_keys (canon_members ps)) =
       first_fail (\<lambda>name.
           if has_own (schema_properties s) name then Inr None
           else (case map_of ps name of None \<Rightarrow> Inr None
             | Some x \<Rightarrow> if additional = JBool False
                 then fail_at (child p name) (js ''no such member'') (describe_value x)
                 else if additional \<noteq> JBool True then validate additional x (child p name)
                 else Inr None)) (sorted_keys ps)"
      if "member s ''additionalProperties'' = Some additional" for additional
      unfolding sorted_keys_canon
      by (rule first_fail_cong [OF refl]) (use C [OF JObj that] in presburger)
    show ?thesis
      unfolding validate.simps(1) checks_canon [OF "1.prems"] D'
      unfolding JObj canon_JObj json.case E using F by (simp split: option.splits)
  qed (unfold validate.simps(1) checks_canon [OF "1.prems"] D', simp_all)
qed auto

section \<open>deepEqual is equality up to key order\<close>

text \<open>\<open>NaN\<close> is the one value that is not \<open>===\<close> itself; \<open>JSON.parse\<close> never returns it.\<close>

fun nan_free :: "json \<Rightarrow> bool" where
  "nan_free (JNum n) = (n \<noteq> NotNum)"
| "nan_free (JArr vs) = (\<forall>v\<in>set vs. nan_free v)"
| "nan_free (JObj ps) = (\<forall>p\<in>set ps. nan_free (snd p))"
| "nan_free _ = True"

lemma rebuild_members: "distinct (map fst xs) \<Longrightarrow> map (\<lambda>k. (k, the (map_of xs k))) (map fst xs) = xs"
proof (induction xs)
  case (Cons x xs)
  have "map (\<lambda>k. (k, the (map_of (x # xs) k))) (map fst xs) = map (\<lambda>k. (k, the (map_of xs k))) (map fst xs)"
    using Cons.prems by (intro map_cong [OF refl]) (auto simp: rev_image_eqI)
  with Cons show ?case by simp
qed simp

lemma sorted_keys_lookup: "k \<in> set (sorted_keys ps) \<Longrightarrow> \<exists>v. map_of ps k = Some v"
  using map_of_eq_None_iff [of ps k] by auto

lemma map_fst_canon_members: "map fst (canon_members ps) = sorted_keys ps"
proof -
  have "sorted (map fst (canon_members ps))" by (simp add: canon_members_def)
  then have "map fst (canon_members ps) = sort (map fst (canon_members ps))" by (simp add: sorted_sort_id)
  also have "\<dots> = sorted_keys (canon_members ps)" by (simp add: sorted_keys_def object_keys_def)
  finally show ?thesis by simp
qed

lemma canon_members_rebuild:
  assumes d: "distinct (map fst ps)"
  shows "canon_members ps = map (\<lambda>k. (k, canon (the (map_of ps k)))) (sorted_keys ps)"
proof -
  have "canon_members ps = map (\<lambda>k. (k, the (map_of (canon_members ps) k))) (map fst (canon_members ps))"
    by (rule rebuild_members [symmetric]) (simp add: d)
  also have "\<dots> = map (\<lambda>k. (k, the (map_option canon (map_of ps k)))) (sorted_keys ps)"
    by (simp only: map_fst_canon_members map_of_canon_members [OF d])
  also have "\<dots> = map (\<lambda>k. (k, canon (the (map_of ps k)))) (sorted_keys ps)"
  proof (rule map_cong [OF refl])
    fix k assume "k \<in> set (sorted_keys ps)"
    then obtain v where "map_of ps k = Some v" using sorted_keys_lookup by blast
    then show "(k, the (map_option canon (map_of ps k))) = (k, canon (the (map_of ps k)))" by simp
  qed
  finally show ?thesis .
qed

lemma keyed_eq_iff:
  "map (\<lambda>k. (k, f k)) ks = map (\<lambda>k. (k, g k)) ls \<longleftrightarrow> ks = ls \<and> (\<forall>k\<in>set ks. f k = g k)"
proof
  assume eq: "map (\<lambda>k. (k, f k)) ks = map (\<lambda>k. (k, g k)) ls"
  then have "map fst (map (\<lambda>k. (k, f k)) ks) = map fst (map (\<lambda>k. (k, g k)) ls)" by simp
  then have "ks = ls" by (simp add: comp_def)
  with eq show "ks = ls \<and> (\<forall>k\<in>set ks. f k = g k)" by auto
qed auto

lemma zip_all_eq_iff:
  "length ks = length ls \<and> list_all (\<lambda>(k, l). k = l \<and> P k) (zip ks ls) \<longleftrightarrow> ks = ls \<and> (\<forall>k\<in>set ks. P k)"
  by (induction ks arbitrary: ls) (case_tac ls; auto)+

lemma num_eq_iff: "m \<noteq> NotNum \<Longrightarrow> num_eq m n \<longleftrightarrow> m = n"
  by (auto simp: num_eq_def)

lemma deep_equal_iff_canon:
  "wf_json v \<Longrightarrow> wf_json w \<Longrightarrow> nan_free v \<Longrightarrow> deep_equal v w \<longleftrightarrow> canon v = canon w"
proof (induction v w rule: deep_equal.induct)
  case (1 m n)
  then show ?case by (simp add: num_eq_iff)
next
  case (2 vs ws)
  have "deep_equal v w \<longleftrightarrow> canon v = canon w" if "(v, w) \<in> set (zip vs ws)" for v w
    using "2.IH" [OF that refl] "2.prems" set_zip_leftD [OF that] set_zip_rightD [OF that] by simp
  then have "list_all (\<lambda>(v, w). deep_equal v w) (zip vs ws) \<longleftrightarrow> list_all (\<lambda>(v, w). canon v = canon w) (zip vs ws)"
    by (auto simp: list_all_iff)
  then have "deep_equal (JArr vs) (JArr ws) \<longleftrightarrow> list_all2 (\<lambda>v w. canon v = canon w) vs ws"
    by (auto simp: list_all2_iff list_all_iff)
  also have "\<dots> \<longleftrightarrow> map canon vs = map canon ws"
    by (auto simp: list_all2_conv_all_nth list_eq_iff_nth_eq)
  finally show ?case by simp
next
  case (3 ps qs)
  have d: "distinct (map fst ps)" "distinct (map fst qs)" using "3.prems" by simp_all
  define P where "P key \<longleftrightarrow> (case map_of ps key of None \<Rightarrow> False
      | Some v \<Rightarrow> (case map_of qs key of None \<Rightarrow> False | Some w \<Rightarrow> deep_equal v w))" for key
  have "P k \<longleftrightarrow> canon (the (map_of ps k)) = canon (the (map_of qs k))"
    if eq: "sorted_keys ps = sorted_keys qs" and k: "k \<in> set (sorted_keys ps)" for k
  proof -
    obtain v w where v: "map_of ps k = Some v" and w: "map_of qs k = Some w"
      using sorted_keys_lookup [OF k] sorted_keys_lookup [OF k [unfolded eq]] by blast
    have "(k, k) \<in> set (zip (sorted_keys ps) (sorted_keys qs))"
      using k unfolding eq by (simp add: zip_same_conv_map del: set_sorted_keys)
    moreover have "nan_free v" using "3.prems"(3) map_of_SomeD [OF v] by auto
    ultimately have "deep_equal v w \<longleftrightarrow> canon v = canon w"
      using "3.IH" [OF _ refl v w] wf_map_of [OF "3.prems"(1) v] wf_map_of [OF "3.prems"(2) w] by blast
    then show ?thesis by (simp add: P_def v w)
  qed
  then have "deep_equal (JObj ps) (JObj qs) \<longleftrightarrow> sorted_keys ps = sorted_keys qs \<and>
      (\<forall>k\<in>set (sorted_keys ps). canon (the (map_of ps k)) = canon (the (map_of qs k)))"
    unfolding deep_equal.simps P_def [symmetric] zip_all_eq_iff by blast
  then show ?case
    by (simp add: canon_JObj canon_members_rebuild d keyed_eq_iff del: canon.simps deep_equal.simps)
qed (auto simp: canon_JObj canon_leaf canon_leaf [THEN eq_iff_swap] simp del: canon.simps(2))

text \<open>Unfolding a concrete schema's acceptance down to its members.\<close>

lemmas supported_defs = supported_JObj local_ok_def object_keys_def member_def ANNOTATION_KEYWORDS_def
  SUPPORTED_KEYWORDS_def NON_NEGATIVE_INTEGER_KEYWORDS_def FINITE_NUMBER_KEYWORDS_def TYPE_NAMES_def type_names_def type_name_ok_def non_negative_integer_def finite_number_def
  is_string_def

section \<open>Properties\<close>

text \<open>
  C9: On a schema \<open>assertSchema\<close> accepts, \<open>validate\<close> never throws, and it reports no failure
  exactly when the value conforms to the schema keyword by keyword (\<open>conforms\<close>), at
  whatever pointer it starts.
\<close>

theorem validator_decides_conformance:
  assumes "assert_schema s q = Inr ()" "wf_json v"
  shows "\<exists>f. validate s v p = Inr f \<and> (f = None \<longleftrightarrow> conforms s v)"
proof -
  have "supported s" using assms(1) by (simp add: assert_schema_iff)
  then show ?thesis
    using validate_ok [of s v p] validate_conforms [of s v p] assms(2) by (auto simp: is_ok_iff)
qed

theorem validator_decides_conformance_witness:
  "\<exists>f. validate (JObj [(js ''type'', js_str ''array''), (js ''items'', JObj [(js ''enum'', JArr [JNull, JBool True])])])
      (JArr [JNull, JBool False]) [] = Inr f \<and> f \<noteq> None"
proof -
  have "assert_schema (JObj [(js ''type'', js_str ''array''), (js ''items'', JObj [(js ''enum'', JArr [JNull, JBool True])])]) [] = Inr ()"
    by (simp add: assert_schema_iff supported_defs)
  from validator_decides_conformance [OF this, of "JArr [JNull, JBool False]" "[]"]
  show ?thesis by (simp add: conforms.simps conforms_here_def member_def)
qed

text \<open>
  \<open>assertSchema\<close> accepts exactly the schemas built from the supported keywords with
  well-formed operands at every depth (\<open>supported\<close>), whatever pointer it reports at.
\<close>

theorem assert_schema_accepts_supported: "assert_schema s p = Inr () \<longleftrightarrow> supported s"
  by (rule assert_schema_iff)

text \<open>
  Two values that differ only in the order of object members get the same result from
  every schema: the same verdict and, byte for byte, the same failure report.
\<close>

theorem validator_ignores_key_order:
  assumes "wf_json v" "wf_json w" "canon v = canon w"
  shows "validate s v p = validate s w p"
  using validate_canon [OF assms(1)] validate_canon [OF assms(2)] assms(3) by metis

theorem validator_ignores_key_order_witness:
  "validate s (JObj [(js ''b'', JNull), (js ''a'', JBool True)]) p =
   validate s (JObj [(js ''a'', JBool True), (js ''b'', JNull)]) p"
proof (rule validator_ignores_key_order)
  show "canon (JObj [(js ''b'', JNull), (js ''a'', JBool True)]) = canon (JObj [(js ''a'', JBool True), (js ''b'', JNull)])"
    by code_simp
qed simp_all

text \<open>
  The \<open>deepEqual\<close> behind \<open>const\<close> and \<open>enum\<close> is equality of JSON values up to the order of
  object members.
\<close>

theorem deep_equal_is_json_equality:
  assumes "wf_json v" "wf_json w" "nan_free v"
  shows "deep_equal v w \<longleftrightarrow> canon v = canon w"
  using assms by (rule deep_equal_iff_canon)

theorem deep_equal_is_json_equality_witness:
  "deep_equal (JObj [(js ''b'', JNull), (js ''a'', JArr [JBool True])]) (JObj [(js ''a'', JArr [JBool True]), (js ''b'', JNull)])"
proof -
  have "canon (JObj [(js ''b'', JNull), (js ''a'', JArr [JBool True])]) = canon (JObj [(js ''a'', JArr [JBool True]), (js ''b'', JNull)])"
    by code_simp
  then show ?thesis
    by (subst deep_equal_is_json_equality) simp_all
qed

text \<open>
  The order of the members of the schema itself does show: \<open>const\<close> is reported through
  \<open>JSON.stringify\<close>, which follows insertion order.
\<close>

lemma const_report_follows_schema_order:
  "canon (JObj [(js ''const'', JObj [(js ''a'', JNull), (js ''b'', JNull)])]) =
     canon (JObj [(js ''const'', JObj [(js ''b'', JNull), (js ''a'', JNull)])]) \<and>
   validate (JObj [(js ''const'', JObj [(js ''a'', JNull), (js ''b'', JNull)])]) JNull [] \<noteq>
   validate (JObj [(js ''const'', JObj [(js ''b'', JNull), (js ''a'', JNull)])]) JNull []"
  by code_simp

end
