(* ===== verification/Sla_Engine.thy ===== *)
theory Sla_Engine imports Json_Schema begin

text \<open>
  \<open>packages/sla/schema.json\<close>, \<open>clauses.js\<close> and \<open>index.js\<close>: the SLA document schema, the
  clause evaluators, and the engine's three entry points \<open>parseSla\<close>, \<open>evaluate\<close> and
  \<open>evaluateStatusOnly\<close>. An SLA document and its clauses stay JSON values, as in the code.
\<close>

section \<open>schema.json\<close>

definition string_schema :: "nat \<Rightarrow> nat \<Rightarrow> json" where
  "string_schema lo hi = JObj [(js ''type'', js_str ''string''), (js ''minLength'', JNum (Fin (of_nat lo))),
     (js ''maxLength'', JNum (Fin (of_nat hi)))]"

definition common_members :: "string \<Rightarrow> members" where
  "common_members t =
     [(js ''id'', string_schema 1 64),
      (js ''description'', JObj [(js ''type'', js_str ''string''), (js ''maxLength'', JNum (Fin 256))]),
      (js ''type'', JObj [(js ''const'', js_str t)])]"

definition clause_schema :: "members \<Rightarrow> string list \<Rightarrow> members \<Rightarrow> json" where
  "clause_schema notes names ps = JObj (notes @
     [(js ''type'', js_str ''object''), (js ''additionalProperties'', JBool False),
      (js ''required'', JArr (map js_str names)), (js ''properties'', JObj ps)])"

definition SCHEMA_CLAUSE :: json where
  "SCHEMA_CLAUSE = clause_schema [(js ''title'', js_str ''schema clause'')] [''id'', ''type'', ''schema'']
     (common_members ''schema'' @ [(js ''schema'', JObj [(js ''type'', js_str ''object'')])])"

definition LATENCY_CLAUSE :: json where
  "LATENCY_CLAUSE = clause_schema [(js ''title'', js_str ''latency clause'')] [''id'', ''type'', ''maxMs'']
     (common_members ''latency'' @ [(js ''maxMs'', JObj [(js ''type'', js_str ''integer''),
        (js ''minimum'', JNum (Fin 0)), (js ''maximum'', JNum (Fin 600000))])])"

definition PRICE_CLAUSE :: json where
  "PRICE_CLAUSE = clause_schema [(js ''title'', js_str ''priceRange clause'')]
     [''id'', ''type'', ''minMinorUnits'', ''maxMinorUnits'', ''asset'']
     (common_members ''priceRange'' @
      [(js ''minMinorUnits'', JObj [(js ''description'', js_str ''Decimal integer string. JSON has no bigint and a float would break the integer-only comparison the spec requires.''),
          (js ''type'', js_str ''string''), (js ''minLength'', JNum (Fin 1)), (js ''maxLength'', JNum (Fin 78))]),
       (js ''maxMinorUnits'', string_schema 1 78),
       (js ''asset'', string_schema 1 16)])"

definition SEMANTIC_CLAUSE :: json where
  "SEMANTIC_CLAUSE = clause_schema
     [(js ''title'', js_str ''semantic clause''),
      (js ''description'', JStr (js ''A promise about what the response *says*, judged on dispute by a GenLayer Intelligent Contract rather than per call by CRE (docs/GenLayer.md). `evaluate` recognises it and always passes it: the deterministic engine is pure by invariant and cannot judge meaning, and refusing to parse the document would be worse ''
         @ [8212] @ js '' it would fall back to status-only and lose every deterministic clause the provider declared alongside it.''))]
     [''id'', ''type'', ''criteria'']
     (common_members ''semantic'' @ [(js ''criteria'', JObj
        [(js ''description'', js_str ''The binding judgment text, in plain language. Its own field rather than a reuse of `description`, which stays decorative on every clause type including this one: a reader has to be able to tell what the provider promised from what it merely explained. Frozen into the claim at filing time, so editing the SLA mid-dispute cannot change what is being judged.''),
         (js ''type'', js_str ''string''), (js ''minLength'', JNum (Fin 1)), (js ''maxLength'', JNum (Fin 2048))])])"

definition META_SCHEMA :: json where
  "META_SCHEMA = JObj
     [(js ''$schema'', js_str ''https://json-schema.org/draft/2020-12/schema''),
      (js ''$id'', js_str ''https://verdikt.bond/schema/sla-v1.json''),
      (js ''title'', js_str ''Verdikt SLA v1''),
      (js ''description'', js_str ''The provider-authored document stored verbatim in the `sla` ENS text record on <slug>.verdikt.eth. Validated by @verdikt/sla's own JSON Schema subset, so this file is executable rather than documentation that can drift.''),
      (js ''type'', js_str ''object''),
      (js ''additionalProperties'', JBool False),
      (js ''required'', JArr [js_str ''version'', js_str ''clauses'']),
      (js ''properties'', JObj
        [(js ''version'', JObj [(js ''const'', JNum (Fin 1))]),
         (js ''clauses'', JObj
           [(js ''description'', js_str ''At least one. An empty clause list would make every call PASS, including a 5xx, which is why it is rejected rather than treated as 'promises nothing'.''),
            (js ''type'', js_str ''array''),
            (js ''minItems'', JNum (Fin 1)),
            (js ''maxItems'', JNum (Fin 32)),
            (js ''items'', JObj [(js ''oneOf'', JArr [SCHEMA_CLAUSE, LATENCY_CLAUSE, PRICE_CLAUSE, SEMANTIC_CLAUSE])])])])]"

section \<open>The observation\<close>

text \<open>
  What the engine is handed, before \<open>assertObservation\<close> has looked at it: a field is any
  value (\<open>None\<close> is \<open>undefined\<close>), the paid amount a bigint or a value of another type.
  An argument that is not an object at all is \<open>None\<close>.
\<close>

datatype paid = BigInt int | NotBigInt jstring \<comment> \<open>its \<open>typeof\<close>\<close>

record observation =
  o_status :: "json option"
  o_headers :: "json option"
  o_body :: json
  o_latency_ms :: "json option"
  o_paid_amount :: paid
  o_transport_error :: "jstring option"

definition string_of_value :: "json option \<Rightarrow> jstring" where
  "string_of_value v = (case v of None \<Rightarrow> js ''undefined'' | Some w \<Rightarrow> to_str w)"

fun typeof_paid :: "paid \<Rightarrow> jstring" where
  "typeof_paid (BigInt _) = js ''bigint''"
| "typeof_paid (NotBigInt t) = t"

definition http_status :: "json option \<Rightarrow> bool" where
  "http_status v = (case v of
     Some (JNum n) \<Rightarrow> is_integer n \<and> \<not> num_less n (Fin 100) \<and> \<not> num_less (Fin 599) n
   | _ \<Rightarrow> False)"

definition is_object :: "json option \<Rightarrow> bool" where
  "is_object v = (case v of Some (JObj _) \<Rightarrow> True | Some (JArr _) \<Rightarrow> True | _ \<Rightarrow> False)"

definition is_latency :: "json option \<Rightarrow> bool" where
  "is_latency v = (case v of Some l \<Rightarrow> non_negative_integer l | None \<Rightarrow> False)"

fun is_amount :: "paid \<Rightarrow> bool" where
  "is_amount (BigInt a) = (0 \<le> a)"
| "is_amount (NotBigInt _) = False"

definition assert_observation :: "observation option \<Rightarrow> observation result" where
  "assert_observation arg = (case arg of
     None \<Rightarrow> Inl (js ''sla: observation must be an object'')
   | Some obs \<Rightarrow>
       seq_r (ensure_r (o_status obs = Some JNull \<or> http_status (o_status obs))
         (js ''sla: observation.status must be null or an HTTP status code, got '' @ string_of_value (o_status obs))) (
       seq_r (ensure_r (is_object (o_headers obs)) (js ''sla: observation.headers must be an object'')) (
       seq_r (ensure_r (is_latency (o_latency_ms obs))
         (js ''sla: observation.latencyMs must be a non-negative integer, got '' @ string_of_value (o_latency_ms obs))) (
       seq_r (ensure_r (is_amount (o_paid_amount obs))
         (js ''sla: observation.paidAmount must be a non-negative bigint, got '' @ typeof_paid (o_paid_amount obs)))
       (Inr obs)))))"

text \<open>The fields of an asserted observation, read as the code reads them.\<close>

definition status_null :: "observation \<Rightarrow> bool" where
  "status_null obs \<longleftrightarrow> o_status obs = Some JNull"

definition number_of :: "json option \<Rightarrow> jsnum" where
  \<comment> \<open>the value a comparison sees: \<open>undefined\<close> compares as NaN\<close>
  "number_of v = (case v of Some (JNum n) \<Rightarrow> n | _ \<Rightarrow> NotNum)"

definition status_num :: "observation \<Rightarrow> jsnum" where
  "status_num obs = number_of (o_status obs)"

definition amount_of :: "paid \<Rightarrow> int" where
  "amount_of p = (case p of BigInt a \<Rightarrow> a | NotBigInt _ \<Rightarrow> 0)"

definition num_le :: "jsnum \<Rightarrow> jsnum \<Rightarrow> bool" where
  "num_le a b \<longleftrightarrow> num_less a b \<or> num_eq a b"

section \<open>clauses.js\<close>

datatype outcome = PASS | FAIL | DOWN

record clause_result =
  r_id :: jstring
  r_type :: jstring
  r_pass :: bool
  r_expected :: jstring
  r_actual :: jstring

definition DELIVERY_CLAUSE_ID :: jstring where
  "DELIVERY_CLAUSE_ID = js ''delivery''"

definition MAX_CRITERIA_IN_RESULT :: nat where
  "MAX_CRITERIA_IN_RESULT = 200"

definition truncate_criteria :: "jstring \<Rightarrow> jstring" where
  "truncate_criteria criteria =
     (if MAX_CRITERIA_IN_RESULT < length criteria then take MAX_CRITERIA_IN_RESULT criteria @ [8230] else criteria)"

definition display :: "jstring \<Rightarrow> jstring" where
  "display pointer = (if pointer = [] then js ''(root)'' else pointer)"

definition evaluate_delivery :: "observation \<Rightarrow> clause_result" where
  "evaluate_delivery obs =
     (if status_null obs then
        \<lparr>r_id = DELIVERY_CLAUSE_ID, r_type = js ''delivery'', r_pass = False, r_expected = js ''a response'',
         r_actual = js ''no response (''
           @ (case o_transport_error obs of None \<Rightarrow> js ''unknown transport error'' | Some e \<Rightarrow> e) @ js '')''\<rparr>
      else
        \<lparr>r_id = DELIVERY_CLAUSE_ID, r_type = js ''delivery'', r_pass = num_less (status_num obs) (Fin 500),
         r_expected = js ''HTTP status < 500'', r_actual = string_of_value (o_status obs)\<rparr>)"

text \<open>\<open>BigInt(s)\<close> on the strings the schema lets through; anything else is a SyntaxError.\<close>

definition big_int :: "jstring \<Rightarrow> int result" where
  "big_int s = (if decimal_integer s then Inr (int (undec s))
                else Inl (js ''Cannot convert '' @ s @ js '' to a BigInt''))"

text \<open>\<open>`${clause.k}`\<close>, and the value of a string member.\<close>

definition text_of :: "members \<Rightarrow> string \<Rightarrow> jstring" where
  "text_of c k = string_of_value (member c k)"

definition evaluate_clause :: "members \<Rightarrow> observation \<Rightarrow> clause_result result" where
  "evaluate_clause c obs =
     (if text_of c ''type'' = js ''schema'' then
        bind_r (case member c ''schema'' of Some s \<Rightarrow> validate s (o_body obs) []
                | None \<Rightarrow> Inl (js ''sla: validate() called with a non-object schema'')) (\<lambda>failure.
        Inr (case failure of
               None \<Rightarrow> \<lparr>r_id = text_of c ''id'', r_type = js ''schema'', r_pass = True,
                        r_expected = js ''body matches schema'', r_actual = js ''body matches schema''\<rparr>
             | Some f \<Rightarrow> \<lparr>r_id = text_of c ''id'', r_type = js ''schema'', r_pass = False,
                        r_expected = display (f_pointer f) @ js '': '' @ f_expected f,
                        r_actual = display (f_pointer f) @ js '': '' @ f_actual f\<rparr>))
      else if text_of c ''type'' = js ''latency'' then
        Inr \<lparr>r_id = text_of c ''id'', r_type = js ''latency'',
             r_pass = num_le (number_of (o_latency_ms obs)) (number_of (member c ''maxMs'')),
             r_expected = js ''<= '' @ text_of c ''maxMs'' @ js ''ms'',
             r_actual = string_of_value (o_latency_ms obs) @ js ''ms''\<rparr>
      else if text_of c ''type'' = js ''priceRange'' then
        bind_r (big_int (text_of c ''minMinorUnits'')) (\<lambda>lo.
        bind_r (big_int (text_of c ''maxMinorUnits'')) (\<lambda>hi.
        Inr \<lparr>r_id = text_of c ''id'', r_type = js ''priceRange'',
             r_pass = (lo \<le> amount_of (o_paid_amount obs) \<and> amount_of (o_paid_amount obs) \<le> hi),
             r_expected = text_of c ''minMinorUnits'' @ js ''..'' @ text_of c ''maxMinorUnits'' @ js '' ''
               @ text_of c ''asset'' @ js '' minor units'',
             r_actual = dec_int (amount_of (o_paid_amount obs)) @ js '' '' @ text_of c ''asset'' @ js '' minor units''\<rparr>))
      else if text_of c ''type'' = js ''semantic'' then
        Inr \<lparr>r_id = text_of c ''id'', r_type = js ''semantic'', r_pass = True,
             r_expected = truncate_criteria (text_of c ''criteria''),
             r_actual = js ''not judged here '' @ [8212] @ js '' semantic clauses are decided on dispute''\<rparr>
      else Inl (js ''sla: unknown clause type \"'' @ text_of c ''type'' @ js ''\"''))"

section \<open>index.js\<close>

text \<open>\<open>sla.clauses\<close> of a document the schema accepted: an array of objects.\<close>

definition sla_clauses :: "json \<Rightarrow> members list" where
  "sla_clauses sla = (case sla of
     JObj ps \<Rightarrow> (case member ps ''clauses'' of
         Some (JArr cs) \<Rightarrow> map (\<lambda>c. case c of JObj m \<Rightarrow> m | _ \<Rightarrow> []) cs
       | _ \<Rightarrow> [])
   | _ \<Rightarrow> [])"

definition assert_price_bound :: "members \<Rightarrow> string \<Rightarrow> unit result" where
  "assert_price_bound c bound = ensure_r (decimal_integer (text_of c bound))
     (js ''sla: clause \"'' @ text_of c ''id'' @ js ''\" '' @ js bound
      @ js '' must be a decimal integer string, got \"'' @ text_of c bound @ js ''\"'')"

definition assert_clause :: "jstring list \<Rightarrow> members \<Rightarrow> unit result" where
  "assert_clause seen c =
     seq_r (ensure_r (text_of c ''id'' \<noteq> DELIVERY_CLAUSE_ID)
       (js ''sla: clause id \"'' @ DELIVERY_CLAUSE_ID @ js ''\" is reserved for the implicit delivery predicate'')) (
     seq_r (ensure_r (text_of c ''id'' \<notin> set seen) (js ''sla: duplicate clause id \"'' @ text_of c ''id'' @ js ''\"'')) (
     seq_r (if text_of c ''type'' = js ''schema'' then
              (case member c ''schema'' of
                 Some s \<Rightarrow> assert_schema s (js ''/clauses/'' @ text_of c ''id'' @ js ''/schema'')
               | None \<Rightarrow> Inl (js ''sla: schema at '' @ at_text (js ''/clauses/'' @ text_of c ''id'' @ js ''/schema'')
                               @ js '' must be an object''))
            else Inr ()) (
     if text_of c ''type'' = js ''priceRange'' then
       seq_r (each_r (assert_price_bound c) [''minMinorUnits'', ''maxMinorUnits'']) (
       bind_r (big_int (text_of c ''minMinorUnits'')) (\<lambda>lo.
       bind_r (big_int (text_of c ''maxMinorUnits'')) (\<lambda>hi.
       ensure_r (lo \<le> hi) (js ''sla: clause \"'' @ text_of c ''id'' @ js ''\" has minMinorUnits above maxMinorUnits''))))
     else Inr ())))"

fun assert_clauses :: "jstring list \<Rightarrow> members list \<Rightarrow> unit result" where
  "assert_clauses seen [] = Inr ()"
| "assert_clauses seen (c # cs) = seq_r (assert_clause seen c) (assert_clauses (text_of c ''id'' # seen) cs)"

definition assert_sla_document :: "json \<Rightarrow> unit result" where
  "assert_sla_document sla =
     bind_r (validate META_SCHEMA sla []) (\<lambda>failure.
     case failure of
       Some f \<Rightarrow> Inl (js ''sla: invalid SLA at '' @ (if f_pointer f = [] then js ''the SLA root'' else f_pointer f)
                  @ js '' '' @ [8212] @ js '' expected '' @ f_expected f @ js '', got '' @ f_actual f)
     | None \<Rightarrow> assert_clauses [] (sla_clauses sla))"

definition parse_sla :: "jstring \<Rightarrow> json result" where
  "parse_sla text = bind_r (json_parse text) (\<lambda>parsed. seq_r (assert_sla_document parsed) (Inr parsed))"

record evaluation =
  e_outcome :: outcome
  e_clauses :: "clause_result list"

definition evaluate :: "json \<Rightarrow> observation option \<Rightarrow> evaluation result" where
  "evaluate sla arg =
     bind_r (assert_observation arg) (\<lambda>obs.
     seq_r (assert_sla_document sla) (
     if status_null obs then Inr \<lparr>e_outcome = DOWN, e_clauses = [evaluate_delivery obs]\<rparr>
     else
       bind_r (map_r (\<lambda>c. evaluate_clause c obs) (sla_clauses sla)) (\<lambda>results.
       Inr (let clauses = evaluate_delivery obs # results in
            \<lparr>e_outcome = (if list_all r_pass clauses then PASS else FAIL), e_clauses = clauses\<rparr>))))"

text \<open>The fallback may decline: an outcome of \<open>None\<close> is the code's \<open>null\<close>.\<close>

definition evaluate_status_only :: "observation option \<Rightarrow> (outcome option \<times> clause_result list) result" where
  "evaluate_status_only arg = bind_r (assert_observation arg) (\<lambda>obs. Inr (
     if status_null obs then (Some DOWN, [])
     else if \<not> num_less (status_num obs) (Fin 200) \<and> num_less (status_num obs) (Fin 300) then (Some PASS, [])
     else if \<not> num_less (status_num obs) (Fin 500) then (Some FAIL, [])
     else (None, [])))"

section \<open>What schema.json accepts\<close>

text \<open>
  \<open>sla_shape\<close> writes out, member by member, the documents schema.json is meant to describe; it
  mentions neither schemas nor the validator.
\<close>

definition string_member :: "members \<Rightarrow> string \<Rightarrow> nat \<Rightarrow> nat \<Rightarrow> bool" where
  "string_member c k lo hi \<longleftrightarrow>
     (case member c k of Some (JStr s) \<Rightarrow> lo \<le> length s \<and> length s \<le> hi | _ \<Rightarrow> False)"

definition only_members :: "members \<Rightarrow> string list \<Rightarrow> bool" where
  "only_members c ks \<longleftrightarrow> list_all (\<lambda>k. k \<in> set (map js ks)) (object_keys c)"

definition clause_head :: "members \<Rightarrow> string \<Rightarrow> string list \<Rightarrow> bool" where
  "clause_head c t ks \<longleftrightarrow> only_members c ([''id'', ''description'', ''type''] @ ks) \<and>
     string_member c ''id'' 1 64 \<and>
     (member c ''description'' = None \<or> string_member c ''description'' 0 256) \<and>
     member c ''type'' = Some (js_str t)"

definition schema_clause_shape :: "members \<Rightarrow> bool" where
  "schema_clause_shape c \<longleftrightarrow> clause_head c ''schema'' [''schema''] \<and>
     (case member c ''schema'' of Some (JObj _) \<Rightarrow> True | _ \<Rightarrow> False)"

definition latency_clause_shape :: "members \<Rightarrow> bool" where
  "latency_clause_shape c \<longleftrightarrow> clause_head c ''latency'' [''maxMs''] \<and>
     (case member c ''maxMs'' of Some (JNum (Fin q)) \<Rightarrow> is_whole q \<and> 0 \<le> q \<and> q \<le> 600000 | _ \<Rightarrow> False)"

definition price_clause_shape :: "members \<Rightarrow> bool" where
  "price_clause_shape c \<longleftrightarrow> clause_head c ''priceRange'' [''minMinorUnits'', ''maxMinorUnits'', ''asset''] \<and>
     string_member c ''minMinorUnits'' 1 78 \<and> string_member c ''maxMinorUnits'' 1 78 \<and> string_member c ''asset'' 1 16"

definition semantic_clause_shape :: "members \<Rightarrow> bool" where
  "semantic_clause_shape c \<longleftrightarrow> clause_head c ''semantic'' [''criteria''] \<and> string_member c ''criteria'' 1 2048"

definition clause_shape :: "json \<Rightarrow> bool" where
  "clause_shape v \<longleftrightarrow> (case v of
     JObj c \<Rightarrow> schema_clause_shape c \<or> latency_clause_shape c \<or> price_clause_shape c \<or> semantic_clause_shape c
   | _ \<Rightarrow> False)"

definition sla_shape :: "json \<Rightarrow> bool" where
  "sla_shape v \<longleftrightarrow> (case v of
     JObj ps \<Rightarrow> only_members ps [''version'', ''clauses''] \<and> member ps ''version'' = Some (JNum (Fin 1)) \<and>
       (case member ps ''clauses'' of
          Some (JArr cs) \<Rightarrow> 1 \<le> length cs \<and> length cs \<le> 32 \<and> list_all clause_shape cs
        | _ \<Rightarrow> False)
   | _ \<Rightarrow> False)"

lemma conforms_unfold:
  "conforms (JObj s) v \<longleftrightarrow>
     conforms_here s v \<and>
     (case v of
        JArr vs \<Rightarrow> (case member s ''items'' of None \<Rightarrow> True | Some items \<Rightarrow> list_all (conforms items) vs)
      | JObj ps \<Rightarrow>
          list_all (\<lambda>(k, x).
            case map_of (schema_properties s) k of
              Some sub \<Rightarrow> conforms sub x
            | None \<Rightarrow> (case member s ''additionalProperties'' of None \<Rightarrow> True
                | Some a \<Rightarrow> a = JBool True \<or> a \<noteq> JBool False \<and> conforms a x)) ps
      | _ \<Rightarrow> True) \<and>
     (case one_of s of None \<Rightarrow> True | Some bs \<Rightarrow> length (filter (\<lambda>b. conforms b v) bs) = 1)"
  by (rule conforms.simps(1))

text \<open>A closed object schema, read off a well-formed object member by member.\<close>

lemma closed_members:
  assumes "distinct (map fst ps)" "distinct (map fst qs)"
  shows "list_all (\<lambda>(k, x). case map_of qs k of Some sub \<Rightarrow> P sub x | None \<Rightarrow> False) ps \<longleftrightarrow>
     list_all (\<lambda>k. k \<in> fst ` set qs) (object_keys ps) \<and>
     list_all (\<lambda>(k, sub). case map_of ps k of Some x \<Rightarrow> P sub x | None \<Rightarrow> True) qs"
proof -
  have "(k, x) \<in> set ps \<longleftrightarrow> map_of ps k = Some x" "(k, y) \<in> set qs \<longleftrightarrow> map_of qs k = Some y" for k x y
    using assms by (simp_all add: map_of_eq_Some_iff)
  moreover have "k \<in> fst ` set qs \<longleftrightarrow> (\<exists>sub. map_of qs k = Some sub)" for k
    using map_of_eq_None_iff [of qs k] by auto
  ultimately show ?thesis
    by (fastforce simp: list_all_iff object_keys_def split: option.splits)
qed

lemma leaf_simps [simp]:
  "one_of [] = None" "schema_properties [] = []"
  "k \<noteq> js ''oneOf'' \<Longrightarrow> one_of ((k, v) # s) = one_of s"
  "k \<noteq> js ''properties'' \<Longrightarrow> schema_properties ((k, v) # s) = schema_properties s"
  "schema_properties ((js ''properties'', JObj ps) # s) = ps"
  by (auto simp: one_of_def schema_properties_def member_def)

lemma deep_equal_JStr [simp]: "deep_equal v (JStr s) \<longleftrightarrow> v = JStr s"
  by (cases v) auto

lemma deep_equal_Fin [simp]: "deep_equal v (JNum (Fin q)) \<longleftrightarrow> v = JNum (Fin q)"
  by (cases v) (auto simp: num_eq_def)

lemma conforms_string:
  "conforms (string_schema lo hi) v \<longleftrightarrow> (case v of JStr s \<Rightarrow> lo \<le> length s \<and> length s \<le> hi | _ \<Rightarrow> False)"
proof -
  have "conforms_here [(js ''type'', js_str ''string''), (js ''minLength'', JNum (Fin (of_nat lo))),
      (js ''maxLength'', JNum (Fin (of_nat hi)))] v \<longleftrightarrow> (case v of JStr s \<Rightarrow> lo \<le> length s \<and> length s \<le> hi | _ \<Rightarrow> False)"
    by (cases v) (simp_all add: conforms_here_def member_def type_names_def
      number_member_def is_string_def len_num_def not_less)
  then show ?thesis
    by (cases v) (simp_all add: string_schema_def conforms_unfold member_def)
qed

lemma member_skip: "js k \<notin> fst ` set notes \<Longrightarrow> member (notes @ s) k = member s k"
  by (simp add: member_def map_add_def map_of_eq_None_iff [THEN iffD2])

lemma conforms_clause_object:
  assumes ns: "set (map fst notes) \<subseteq> set ANNOTATION_KEYWORDS"
    and dps: "distinct (map fst ps)" and wf: "wf_json (JObj c)"
  shows "conforms (clause_schema notes names ps) (JObj c) \<longleftrightarrow>
     list_all (\<lambda>n. has_own c (js n)) names \<and>
     list_all (\<lambda>k. k \<in> fst ` set ps) (object_keys c) \<and>
     list_all (\<lambda>(k, sub). case map_of c k of Some x \<Rightarrow> conforms sub x | None \<Rightarrow> True) ps"
proof -
  let ?r = "[(js ''type'', js_str ''object''), (js ''additionalProperties'', JBool False),
      (js ''required'', JArr (map js_str names)), (js ''properties'', JObj ps)]"
  have m: "member (notes @ ?r) k = member ?r k" if "js k \<notin> set ANNOTATION_KEYWORDS" for k
    by (rule member_skip) (use ns that in auto)
  have "conforms_here (notes @ ?r) (JObj c) \<longleftrightarrow> list_all (\<lambda>n. has_own c (js n)) names"
    by (simp add: conforms_here_def m ANNOTATION_KEYWORDS_def) (simp add: member_def type_names_def list_all_iff)
  moreover have "schema_properties (notes @ ?r) = ps" "one_of (notes @ ?r) = None"
    by (simp_all add: schema_properties_def one_of_def m ANNOTATION_KEYWORDS_def) (simp_all add: member_def)
  moreover have "member (notes @ ?r) ''additionalProperties'' = Some (JBool False)"
    by (simp add: m ANNOTATION_KEYWORDS_def) (simp add: member_def)
  moreover have "distinct (map fst c)" using wf by simp
  ultimately show ?thesis
    unfolding clause_schema_def conforms_unfold json.case
    using closed_members [OF _ dps, of c conforms] by (simp cong: option.case_cong)
qed

lemma conforms_clause_other:
  assumes ns: "set (map fst notes) \<subseteq> set ANNOTATION_KEYWORDS" and v: "\<not> is_plain_object v"
  shows "\<not> conforms (clause_schema notes names ps) v"
proof -
  have skip: "js ''type'' \<notin> fst ` set notes" using ns by (auto simp: subset_iff ANNOTATION_KEYWORDS_def)
  show ?thesis
    using v by (simp add: clause_schema_def conforms_unfold conforms_here_def member_skip [OF skip])
      (simp add: member_def type_names_def)
qed

lemma conforms_description:
  "conforms (JObj [(js ''type'', js_str ''string''), (js ''maxLength'', JNum (Fin (numeral h)))]) v \<longleftrightarrow>
     (case v of JStr s \<Rightarrow> length s \<le> numeral h | _ \<Rightarrow> False)"
proof -
  have "of_nat (length s) \<le> (numeral h :: rat) \<longleftrightarrow> length s \<le> numeral h" for s :: jstring
    by (metis of_nat_le_iff of_nat_numeral)
  then show ?thesis
    by (cases v) (simp_all add: conforms_unfold conforms_here_def member_def type_names_def
      number_member_def is_string_def len_num_def not_less)
qed

lemma conforms_described_string:
  "conforms (JObj [(js ''description'', d), (js ''type'', js_str ''string''), (js ''minLength'', JNum (Fin 1)),
     (js ''maxLength'', JNum (Fin (numeral h)))]) v \<longleftrightarrow>
     (case v of JStr s \<Rightarrow> 1 \<le> length s \<and> length s \<le> numeral h | _ \<Rightarrow> False)"
proof -
  have "of_nat (length s) \<le> (numeral h :: rat) \<longleftrightarrow> length s \<le> numeral h"
    "1 \<le> (of_nat (length s) :: rat) \<longleftrightarrow> 1 \<le> length s" for s :: jstring
    by (metis of_nat_le_iff of_nat_numeral, metis of_nat_le_iff of_nat_1)
  then show ?thesis
    by (cases v) (simp_all add: conforms_unfold conforms_here_def member_def type_names_def
      number_member_def is_string_def len_num_def not_less Suc_le_eq)
qed

lemma conforms_const:
  "conforms (JObj [(js ''const'', JStr t)]) v \<longleftrightarrow> v = JStr t"
  "conforms (JObj [(js ''const'', JNum (Fin q))]) v \<longleftrightarrow> v = JNum (Fin q)"
  by (cases v, simp_all add: conforms_unfold conforms_here_def member_def number_member_def list_all_iff)
     (cases v, simp_all add: conforms_unfold conforms_here_def member_def number_member_def list_all_iff)

lemma conforms_object:
  "conforms (JObj [(js ''type'', js_str ''object'')]) v \<longleftrightarrow> is_plain_object v"
  by (cases v) (simp_all add: conforms_unfold conforms_here_def member_def type_names_def
      number_member_def list_all_iff)

lemma conforms_max_ms:
  "conforms (JObj [(js ''type'', js_str ''integer''), (js ''minimum'', JNum (Fin 0)), (js ''maximum'', JNum (Fin 600000))]) v
     \<longleftrightarrow> (case v of JNum (Fin q) \<Rightarrow> is_whole q \<and> 0 \<le> q \<and> q \<le> 600000 | _ \<Rightarrow> False)"
proof (cases v)
  case (JNum n)
  show ?thesis unfolding JNum
    by (cases n) (simp_all add: conforms_unfold conforms_here_def member_def type_names_def number_member_def not_less)
qed (simp_all add: conforms_unfold conforms_here_def member_def type_names_def number_member_def)

lemmas leaf_conforms = conforms_string conforms_description conforms_described_string conforms_const
  conforms_object conforms_max_ms

lemma has_own_js: "has_own c (js k) \<longleftrightarrow> member c k \<noteq> None"
  by (simp add: has_own_iff member_def)

text \<open>One clause schema: the common members, then the type's own, all of them required.\<close>

lemma conforms_clause:
  assumes ns: "set (map fst notes) \<subseteq> set ANNOTATION_KEYWORDS"
    and ks: "map fst extra = map js ks" "distinct ks" "set ks \<inter> {''id'', ''description'', ''type''} = {}"
    and wf: "wf_json (JObj c)"
  shows "conforms (clause_schema notes ([''id'', ''type''] @ ks) (common_members t @ extra)) (JObj c) \<longleftrightarrow>
     clause_head c t ks \<and> list_all (\<lambda>(k, sub). case map_of c k of Some x \<Rightarrow> conforms sub x | None \<Rightarrow> False) extra"
proof -
  have "distinct (map fst (common_members t @ extra))"
    using ks by (auto simp: common_members_def distinct_map inj_on_def)
  note eq = conforms_clause_object [OF ns this wf, of "[''id'', ''type''] @ ks"]
  have keys: "fst ` set (common_members t @ extra) = set (map js ([''id'', ''description'', ''type''] @ ks))"
    using arg_cong [OF ks(1), of set] by (auto simp: common_members_def)
  have own: "list_all (\<lambda>n. has_own c (js n)) ks \<longleftrightarrow> list_all (\<lambda>(k, sub). map_of c k \<noteq> None) extra"
    using arg_cong [OF ks(1), of "list_all (has_own c)"]
    by (simp add: list.pred_map comp_def has_own_iff case_prod_unfold)
  have both: "list_all (\<lambda>(k, sub). map_of c k \<noteq> None) extra \<and>
      list_all (\<lambda>(k, sub). case map_of c k of Some x \<Rightarrow> conforms sub x | None \<Rightarrow> True) extra \<longleftrightarrow>
      list_all (\<lambda>(k, sub). case map_of c k of Some x \<Rightarrow> conforms sub x | None \<Rightarrow> False) extra"
    by (fastforce simp: list_all_iff split: option.splits)
  have common: "has_own c (js ''id'') \<and> has_own c (js ''type'') \<and>
      list_all (\<lambda>(k, sub). case map_of c k of Some x \<Rightarrow> conforms sub x | None \<Rightarrow> True) (common_members t) \<longleftrightarrow>
      string_member c ''id'' 1 64 \<and> (member c ''description'' = None \<or> string_member c ''description'' 0 256) \<and>
      member c ''type'' = Some (js_str t)"
    by (auto simp: common_members_def string_member_def leaf_conforms has_own_iff member_def split: option.splits json.splits)
  show ?thesis
    unfolding eq keys clause_head_def only_members_def list_all_append
    using own both common by auto
qed

lemma conforms_schema_clause:
  "wf_json (JObj c) \<Longrightarrow> conforms SCHEMA_CLAUSE (JObj c) \<longleftrightarrow> schema_clause_shape c"
  using conforms_clause [of "[(js ''title'', js_str ''schema clause'')]" "[(js ''schema'', JObj [(js ''type'', js_str ''object'')])]"
      "[''schema'']" c "''schema''"]
  by (auto simp: ANNOTATION_KEYWORDS_def SCHEMA_CLAUSE_def schema_clause_shape_def leaf_conforms member_def split: option.splits json.splits)

lemma conforms_latency_clause:
  "wf_json (JObj c) \<Longrightarrow> conforms LATENCY_CLAUSE (JObj c) \<longleftrightarrow> latency_clause_shape c"
  using conforms_clause [of "[(js ''title'', js_str ''latency clause'')]"
      "[(js ''maxMs'', JObj [(js ''type'', js_str ''integer''),
        (js ''minimum'', JNum (Fin 0)), (js ''maximum'', JNum (Fin 600000))])]" "[''maxMs'']" c "''latency''"]
  by (simp add: ANNOTATION_KEYWORDS_def LATENCY_CLAUSE_def latency_clause_shape_def leaf_conforms member_def cong: option.case_cong)

lemma conforms_price_clause:
  assumes "wf_json (JObj c)"
  shows "conforms PRICE_CLAUSE (JObj c) \<longleftrightarrow> price_clause_shape c"
proof -
  have "conforms PRICE_CLAUSE (JObj c) \<longleftrightarrow> clause_head c ''priceRange'' [''minMinorUnits'', ''maxMinorUnits'', ''asset''] \<and>
    list_all (\<lambda>(k, sub). case map_of c k of Some x \<Rightarrow> conforms sub x | None \<Rightarrow> False)
      [(js ''minMinorUnits'', JObj [(js ''description'', js_str ''Decimal integer string. JSON has no bigint and a float would break the integer-only comparison the spec requires.''),
          (js ''type'', js_str ''string''), (js ''minLength'', JNum (Fin 1)), (js ''maxLength'', JNum (Fin 78))]),
       (js ''maxMinorUnits'', string_schema 1 78), (js ''asset'', string_schema 1 16)]"
    unfolding PRICE_CLAUSE_def
    using conforms_clause [OF _ _ _ _ assms, of "[(js ''title'', js_str ''priceRange clause'')]" _
        "[''minMinorUnits'', ''maxMinorUnits'', ''asset'']" "''priceRange''"] by (simp add: ANNOTATION_KEYWORDS_def)
  then show ?thesis
    by (simp add: price_clause_shape_def leaf_conforms member_def string_member_def cong: option.case_cong json.case_cong)
qed

lemma conforms_semantic_clause:
  assumes "wf_json (JObj c)"
  shows "conforms SEMANTIC_CLAUSE (JObj c) \<longleftrightarrow> semantic_clause_shape c"
proof -
  have "conforms (clause_schema ((js ''title'', js_str ''semantic clause'') # [(js ''description'', d)]) [''id'', ''type'', ''criteria'']
     (common_members ''semantic'' @ [(js ''criteria'', JObj [(js ''description'', d'),
         (js ''type'', js_str ''string''), (js ''minLength'', JNum (Fin 1)), (js ''maxLength'', JNum (Fin 2048))])])) (JObj c)
     \<longleftrightarrow> clause_head c ''semantic'' [''criteria''] \<and>
    list_all (\<lambda>(k, sub). case map_of c k of Some x \<Rightarrow> conforms sub x | None \<Rightarrow> False)
      [(js ''criteria'', JObj [(js ''description'', d'),
         (js ''type'', js_str ''string''), (js ''minLength'', JNum (Fin 1)), (js ''maxLength'', JNum (Fin 2048))])]" for d d'
    using conforms_clause [OF _ _ _ _ assms, of "[(js ''title'', js_str ''semantic clause''), (js ''description'', d)]" _
        "[''criteria'']" "''semantic''"] by (simp add: ANNOTATION_KEYWORDS_def)
  then show ?thesis
    unfolding SEMANTIC_CLAUSE_def
    by (simp add: semantic_clause_shape_def leaf_conforms member_def string_member_def cong: option.case_cong json.case_cong)
qed

lemma clause_schemas_need_objects:
  assumes "\<not> is_plain_object v"
  shows "\<not> conforms SCHEMA_CLAUSE v" "\<not> conforms LATENCY_CLAUSE v" "\<not> conforms PRICE_CLAUSE v" "\<not> conforms SEMANTIC_CLAUSE v"
  unfolding SCHEMA_CLAUSE_def LATENCY_CLAUSE_def PRICE_CLAUSE_def SEMANTIC_CLAUSE_def
  by (rule conforms_clause_other [OF _ assms]; simp add: ANNOTATION_KEYWORDS_def)+

lemma clause_type:
  "schema_clause_shape c \<Longrightarrow> member c ''type'' = Some (js_str ''schema'')"
  "latency_clause_shape c \<Longrightarrow> member c ''type'' = Some (js_str ''latency'')"
  "price_clause_shape c \<Longrightarrow> member c ''type'' = Some (js_str ''priceRange'')"
  "semantic_clause_shape c \<Longrightarrow> member c ''type'' = Some (js_str ''semantic'')"
  by (simp_all add: schema_clause_shape_def latency_clause_shape_def price_clause_shape_def
      semantic_clause_shape_def clause_head_def)

lemma conforms_clause_items:
  assumes "wf_json v"
  shows "conforms (JObj [(js ''oneOf'', JArr [SCHEMA_CLAUSE, LATENCY_CLAUSE, PRICE_CLAUSE, SEMANTIC_CLAUSE])]) v \<longleftrightarrow> clause_shape v"
proof -
  have here: "conforms_here [(js ''oneOf'', x)] v" for x
    by (simp add: conforms_here_def member_def number_member_def)
  have "conforms (JObj [(js ''oneOf'', JArr [SCHEMA_CLAUSE, LATENCY_CLAUSE, PRICE_CLAUSE, SEMANTIC_CLAUSE])]) v \<longleftrightarrow>
     length (filter (\<lambda>b. conforms b v) [SCHEMA_CLAUSE, LATENCY_CLAUSE, PRICE_CLAUSE, SEMANTIC_CLAUSE]) = 1"
    unfolding conforms_unfold using here
    by (cases v) (simp_all add: one_of_def member_def schema_properties_def list_all_iff split_def)
  also have "\<dots> \<longleftrightarrow> clause_shape v"
  proof (cases v)
    case (JObj c)
    then have "wf_json (JObj c)" using assms by simp
    note eqs = conforms_schema_clause [OF this] conforms_latency_clause [OF this]
      conforms_price_clause [OF this] conforms_semantic_clause [OF this]
    show ?thesis
      unfolding JObj clause_shape_def json.case
      using clause_type [of c] by (auto simp: eqs)
  qed (use clause_schemas_need_objects [of v] in \<open>simp_all add: clause_shape_def\<close>)
  finally show ?thesis .
qed

lemma conforms_clauses:
  assumes "wf_json v"
  shows "conforms (JObj [(js ''description'', d), (js ''type'', js_str ''array''), (js ''minItems'', JNum (Fin 1)),
      (js ''maxItems'', JNum (Fin 32)),
      (js ''items'', JObj [(js ''oneOf'', JArr [SCHEMA_CLAUSE, LATENCY_CLAUSE, PRICE_CLAUSE, SEMANTIC_CLAUSE])])]) v \<longleftrightarrow>
    (case v of JArr cs \<Rightarrow> 1 \<le> length cs \<and> length cs \<le> 32 \<and> list_all clause_shape cs | _ \<Rightarrow> False)"
proof (cases v)
  case (JArr cs)
  have n: "1 \<le> (of_nat (length cs) :: rat) \<longleftrightarrow> 1 \<le> length cs" "(of_nat (length cs) :: rat) \<le> 32 \<longleftrightarrow> length cs \<le> 32"
    by (metis of_nat_le_iff of_nat_1, metis of_nat_le_iff of_nat_numeral)
  have "list_all (conforms (JObj [(js ''oneOf'', JArr [SCHEMA_CLAUSE, LATENCY_CLAUSE, PRICE_CLAUSE, SEMANTIC_CLAUSE])])) cs
      \<longleftrightarrow> list_all clause_shape cs"
    using assms JArr conforms_clause_items by (auto simp: list_all_iff)
  then show ?thesis
    unfolding JArr conforms_unfold [of _ "JArr cs"] json.case
    by (simp add: conforms_here_def member_def type_names_def number_member_def len_num_def not_less n Suc_le_eq)
qed (simp_all add: conforms_unfold conforms_here_def member_def type_names_def)

lemma conforms_meta_schema:
  assumes "wf_json v"
  shows "conforms META_SCHEMA v \<longleftrightarrow> sla_shape v"
proof -
  define cl where "cl d = JObj [(js ''description'', js_str d), (js ''type'', js_str ''array''), (js ''minItems'', JNum (Fin 1)),
      (js ''maxItems'', JNum (Fin 32)),
      (js ''items'', JObj [(js ''oneOf'', JArr [SCHEMA_CLAUSE, LATENCY_CLAUSE, PRICE_CLAUSE, SEMANTIC_CLAUSE])])]" for d
  obtain ns d where meta: "META_SCHEMA = clause_schema ns [''version'', ''clauses'']
      [(js ''version'', JObj [(js ''const'', JNum (Fin 1))]), (js ''clauses'', cl d)]"
    and ns: "set (map fst ns) \<subseteq> set ANNOTATION_KEYWORDS"
  proof (rule that)
    show "META_SCHEMA = clause_schema
       [(js ''$schema'', js_str ''https://json-schema.org/draft/2020-12/schema''),
        (js ''$id'', js_str ''https://verdikt.bond/schema/sla-v1.json''),
        (js ''title'', js_str ''Verdikt SLA v1''),
        (js ''description'', js_str ''The provider-authored document stored verbatim in the `sla` ENS text record on <slug>.verdikt.eth. Validated by @verdikt/sla's own JSON Schema subset, so this file is executable rather than documentation that can drift.'')]
       [''version'', ''clauses'']
       [(js ''version'', JObj [(js ''const'', JNum (Fin 1))]),
        (js ''clauses'', cl ''At least one. An empty clause list would make every call PASS, including a 5xx, which is why it is rejected rather than treated as 'promises nothing'.'')]"
      by (simp add: META_SCHEMA_def clause_schema_def cl_def)
  qed (simp add: ANNOTATION_KEYWORDS_def)
  have other: "\<not> is_plain_object v \<Longrightarrow> \<not> conforms META_SCHEMA v"
    unfolding meta by (rule conforms_clause_other [OF ns])
  show ?thesis
  proof (cases v)
    case (JObj ps)
    have wf: "wf_json x" if "member ps k = Some x" for k x
      using wf_map_of [of ps "js k" x] assms that JObj by (simp add: member_def)
    have "conforms META_SCHEMA (JObj ps) \<longleftrightarrow> has_own ps (js ''version'') \<and> has_own ps (js ''clauses'') \<and>
        list_all (\<lambda>k. k = js ''version'' \<or> k = js ''clauses'') (object_keys ps) \<and>
        (case member ps ''version'' of Some x \<Rightarrow> x = JNum (Fin 1) | None \<Rightarrow> True) \<and>
        (case member ps ''clauses'' of Some x \<Rightarrow> conforms (cl d) x | None \<Rightarrow> True)"
      using conforms_clause_object [OF ns _ assms [unfolded JObj], of "[(js ''version'', JObj [(js ''const'', JNum (Fin 1))]), (js ''clauses'', cl d)]"
          "[''version'', ''clauses'']"] unfolding meta
      by (auto simp: member_def leaf_conforms cong: option.case_cong)
    also have "\<dots> \<longleftrightarrow> sla_shape (JObj ps)"
      by (auto simp: sla_shape_def only_members_def has_own_js cl_def conforms_clauses [OF wf] split: option.splits)
    finally show ?thesis by (simp only: JObj)
  qed (use other in \<open>simp_all add: sla_shape_def\<close>)
qed

section \<open>The module's self-check at load time\<close>

lemma supported_leaves:
  "supported (string_schema lo hi)"
  "supported (JObj [(js ''type'', js_str ''string''), (js ''maxLength'', JNum (Fin 256))])"
  "supported (JObj [(js ''const'', v)])"
  "supported (JObj [(js ''type'', js_str ''object'')])"
  "supported (JObj [(js ''type'', js_str ''integer''), (js ''minimum'', JNum (Fin 0)), (js ''maximum'', JNum (Fin 600000))])"
  "supported (JObj [(js ''description'', d), (js ''type'', js_str ''string''), (js ''minLength'', JNum (Fin 1)),
     (js ''maxLength'', JNum (Fin (numeral h)))])"
  by (simp_all add: string_schema_def supported_defs)

lemma supported_clause:
  assumes ns: "set (map fst notes) \<subseteq> set ANNOTATION_KEYWORDS" and sub: "\<And>k s. (k, s) \<in> set ps \<Longrightarrow> supported s"
  shows "supported (clause_schema notes names ps)"
proof -
  have m: "member (notes @ r) k = member r k" if "js k \<notin> set ANNOTATION_KEYWORDS" for r k
    by (rule member_skip) (use ns that in auto)
  have "set (map fst notes) \<subseteq> set ANNOTATION_KEYWORDS \<union> set SUPPORTED_KEYWORDS" using ns by auto
  moreover have "supported s" if "map_of ps k = Some s" for k s
    using sub map_of_SomeD [OF that] .
  ultimately show ?thesis
    unfolding clause_schema_def supported_JObj local_ok_def object_keys_def
    by (simp add: m ANNOTATION_KEYWORDS_def NON_NEGATIVE_INTEGER_KEYWORDS_def FINITE_NUMBER_KEYWORDS_def)
      (auto simp: member_def SUPPORTED_KEYWORDS_def type_names_def type_name_ok_def TYPE_NAMES_def is_string_def)
qed

lemma supported_common: "(k, s) \<in> set (common_members t) \<Longrightarrow> supported s"
  using supported_leaves by (auto simp: common_members_def)

lemma supported_clauses: "supported SCHEMA_CLAUSE" "supported LATENCY_CLAUSE" "supported PRICE_CLAUSE" "supported SEMANTIC_CLAUSE"
  unfolding SCHEMA_CLAUSE_def LATENCY_CLAUSE_def PRICE_CLAUSE_def SEMANTIC_CLAUSE_def
  by (rule supported_clause; use supported_leaves supported_common in \<open>auto simp: ANNOTATION_KEYWORDS_def\<close>)+

lemma supported_one: "supported (JObj [(js ''oneOf'', JArr [SCHEMA_CLAUSE, LATENCY_CLAUSE, PRICE_CLAUSE, SEMANTIC_CLAUSE])])"
  using supported_clauses by (simp add: supported_defs)

lemma supported_list:
  assumes "supported it"
  shows "supported (JObj [(js ''description'', d), (js ''type'', js_str ''array''), (js ''minItems'', JNum (Fin 1)),
      (js ''maxItems'', JNum (Fin 32)), (js ''items'', it)])"
  unfolding supported_JObj local_ok_def using assms
  by (simp add: NON_NEGATIVE_INTEGER_KEYWORDS_def FINITE_NUMBER_KEYWORDS_def)
    (simp add: member_def object_keys_def ANNOTATION_KEYWORDS_def
    SUPPORTED_KEYWORDS_def TYPE_NAMES_def type_names_def type_name_ok_def non_negative_integer_def finite_number_def)

lemma supported_meta_schema: "supported META_SCHEMA"
proof -
  have "supported (clause_schema
       [(js ''$schema'', a), (js ''$id'', b), (js ''title'', c), (js ''description'', d)]
       [''version'', ''clauses'']
       [(js ''version'', JObj [(js ''const'', JNum (Fin 1))]),
        (js ''clauses'', JObj [(js ''description'', e), (js ''type'', js_str ''array''), (js ''minItems'', JNum (Fin 1)),
      (js ''maxItems'', JNum (Fin 32)), (js ''items'', JObj [(js ''oneOf'', JArr [SCHEMA_CLAUSE, LATENCY_CLAUSE, PRICE_CLAUSE, SEMANTIC_CLAUSE])])])])" for a b c d e
    by (rule supported_clause) (use supported_list [OF supported_one] supported_leaves in \<open>auto simp: ANNOTATION_KEYWORDS_def\<close>)
  then show ?thesis
    unfolding META_SCHEMA_def by (simp add: clause_schema_def)
qed

section \<open>What assertSlaDocument accepts\<close>

definition clause_ok :: "members \<Rightarrow> bool" where
  "clause_ok c \<longleftrightarrow> text_of c ''id'' \<noteq> DELIVERY_CLAUSE_ID \<and>
     (text_of c ''type'' = js ''schema'' \<longrightarrow> (case member c ''schema'' of Some s \<Rightarrow> supported s | None \<Rightarrow> False)) \<and>
     (text_of c ''type'' = js ''priceRange'' \<longrightarrow>
        decimal_integer (text_of c ''minMinorUnits'') \<and> decimal_integer (text_of c ''maxMinorUnits'') \<and>
        undec (text_of c ''minMinorUnits'') \<le> undec (text_of c ''maxMinorUnits''))"

definition clause_ids :: "json \<Rightarrow> jstring list" where
  "clause_ids sla = map (\<lambda>c. text_of c ''id'') (sla_clauses sla)"

definition well_formed_sla :: "json \<Rightarrow> bool" where
  "well_formed_sla sla \<longleftrightarrow> sla_shape sla \<and> distinct (clause_ids sla) \<and> (\<forall>c\<in>set (sla_clauses sla). clause_ok c)"

lemma assert_clause_iff: "assert_clause seen c = Inr () \<longleftrightarrow> clause_ok c \<and> text_of c ''id'' \<notin> set seen"
proof -
  have schema: "(if b then (case member c ''schema'' of Some s \<Rightarrow> assert_schema s p | None \<Rightarrow> Inl m) else Inr ()) = Inr () \<longleftrightarrow>
      (b \<longrightarrow> (case member c ''schema'' of Some s \<Rightarrow> supported s | None \<Rightarrow> False))" for b p m
    by (cases "member c ''schema''") (simp_all add: assert_schema_iff)
  have price: "(if b then seq_r (each_r (assert_price_bound c) [''minMinorUnits'', ''maxMinorUnits''])
        (bind_r (big_int (text_of c ''minMinorUnits'')) (\<lambda>lo. bind_r (big_int (text_of c ''maxMinorUnits'')) (\<lambda>hi.
         ensure_r (lo \<le> hi) m))) else Inr ()) = Inr () \<longleftrightarrow>
      (b \<longrightarrow> decimal_integer (text_of c ''minMinorUnits'') \<and> decimal_integer (text_of c ''maxMinorUnits'') \<and>
        undec (text_of c ''minMinorUnits'') \<le> undec (text_of c ''maxMinorUnits''))" for b m
    by (cases b; cases "decimal_integer (text_of c ''minMinorUnits'')"; cases "decimal_integer (text_of c ''maxMinorUnits'')")
      (simp_all add: assert_price_bound_def big_int_def ensure_r_def)
  show ?thesis
    unfolding assert_clause_def seq_r_Inr_iff schema price clause_ok_def ensure_r_iff by blast
qed

lemma fresh_Cons:
  "(P c \<and> f c \<notin> set seen) \<and> Ball (set cs) P \<and> distinct (map f cs) \<and> (\<forall>x\<in>set cs. f x \<notin> set (f c # seen)) \<longleftrightarrow>
   Ball (set (c # cs)) P \<and> distinct (map f (c # cs)) \<and> (\<forall>x\<in>set (c # cs). f x \<notin> set seen)"
  by (auto simp: image_iff)

lemma assert_clauses_iff:
  "assert_clauses seen cs = Inr () \<longleftrightarrow> (\<forall>c\<in>set cs. clause_ok c) \<and> distinct (map (\<lambda>c. text_of c ''id'') cs) \<and>
     (\<forall>c\<in>set cs. text_of c ''id'' \<notin> set seen)"
proof (induction cs arbitrary: seen)
  case (Cons c cs)
  show ?case
    unfolding assert_clauses.simps seq_r_Inr_iff assert_clause_iff Cons.IH by (rule fresh_Cons)
qed simp

lemma validate_meta_schema: "wf_json sla \<Longrightarrow> validate META_SCHEMA sla p = Inr None \<longleftrightarrow> sla_shape sla"
  by (simp add: validate_conforms [OF supported_meta_schema] conforms_meta_schema)

lemma assert_sla_document_iff:
  assumes "wf_json sla"
  shows "assert_sla_document sla = Inr () \<longleftrightarrow> well_formed_sla sla"
proof -
  have "assert_sla_document sla = Inr () \<longleftrightarrow>
      validate META_SCHEMA sla [] = Inr None \<and> assert_clauses [] (sla_clauses sla) = Inr ()"
    by (auto simp: assert_sla_document_def bind_r_Inr_iff split: option.splits)
  then show ?thesis
    by (auto simp: validate_meta_schema [OF assms] assert_clauses_iff well_formed_sla_def clause_ids_def)
qed

lemma parse_sla_iff: "parse_sla text = Inr sla \<longleftrightarrow> json_parse text = Inr sla \<and> well_formed_sla sla"
  using assert_sla_document_iff [OF json_parse_wf]
  by (auto simp: parse_sla_def bind_r_Inr_iff)

text \<open>The clauses of a document of the right shape, one case per clause type.\<close>

lemma sla_shape_cases:
  assumes "sla_shape sla"
  shows "\<exists>ps cs. sla = JObj ps \<and> member ps ''clauses'' = Some (JArr cs) \<and> 1 \<le> length cs \<and> length cs \<le> 32 \<and>
      list_all clause_shape cs"
proof -
  obtain ps where sla: "sla = JObj ps" using assms by (cases sla) (simp_all add: sla_shape_def)
  obtain v where v: "member ps ''clauses'' = Some v"
    using assms by (cases "member ps ''clauses''") (simp_all add: sla sla_shape_def)
  show ?thesis using assms by (cases v) (simp_all add: sla v sla_shape_def)
qed

lemma clause_cases:
  assumes "sla_shape sla" "c \<in> set (sla_clauses sla)"
  obtains "schema_clause_shape c" | "latency_clause_shape c" | "price_clause_shape c" | "semantic_clause_shape c"
proof -
  obtain ps cs where sla: "sla = JObj ps" "member ps ''clauses'' = Some (JArr cs)" "list_all clause_shape cs"
    using assms(1) sla_shape_cases by blast
  then obtain v where "v \<in> set cs" "c = (case v of JObj m \<Rightarrow> m | _ \<Rightarrow> [])"
    using assms(2) by (auto simp: sla_clauses_def)
  moreover have "clause_shape v" using sla(3) \<open>v \<in> set cs\<close> by (simp add: list_all_iff)
  ultimately show thesis
    using that by (auto simp: clause_shape_def split: json.splits)
qed

lemma text_of_JStr: "member c k = Some (JStr s) \<Longrightarrow> text_of c k = s"
  by (simp add: text_of_def string_of_value_def)

lemma text_of_type:
  "schema_clause_shape c \<Longrightarrow> text_of c ''type'' = js ''schema''"
  "latency_clause_shape c \<Longrightarrow> text_of c ''type'' = js ''latency''"
  "price_clause_shape c \<Longrightarrow> text_of c ''type'' = js ''priceRange''"
  "semantic_clause_shape c \<Longrightarrow> text_of c ''type'' = js ''semantic''"
  by (auto dest!: clause_type text_of_JStr)

section \<open>What a verdict means\<close>

text \<open>
  \<open>clause_promise\<close> is a clause read as a promise about an observation. The theorems below
  say that on every document \<open>parseSla\<close> returns and every observation \<open>assertObservation\<close>
  passes, \<open>evaluate\<close> returns, and decides exactly these promises.
\<close>

definition clause_promise :: "members \<Rightarrow> observation \<Rightarrow> bool" where
  "clause_promise c obs \<longleftrightarrow>
     (if text_of c ''type'' = js ''schema'' then
        (case member c ''schema'' of Some s \<Rightarrow> conforms s (o_body obs) | None \<Rightarrow> False)
      else if text_of c ''type'' = js ''latency'' then
        num_le (number_of (o_latency_ms obs)) (number_of (member c ''maxMs''))
      else if text_of c ''type'' = js ''priceRange'' then
        int (undec (text_of c ''minMinorUnits'')) \<le> amount_of (o_paid_amount obs) \<and>
        amount_of (o_paid_amount obs) \<le> int (undec (text_of c ''maxMinorUnits''))
      else True)"

definition valid_observation :: "observation \<Rightarrow> bool" where
  "valid_observation obs \<longleftrightarrow> (o_status obs = Some JNull \<or> http_status (o_status obs)) \<and> is_object (o_headers obs) \<and>
     is_latency (o_latency_ms obs) \<and> is_amount (o_paid_amount obs)"

lemma assert_observation_Some: "assert_observation (Some obs) = Inr obs' \<longleftrightarrow> valid_observation obs \<and> obs' = obs"
  unfolding assert_observation_def option.case seq_r_Inr_iff ensure_r_iff valid_observation_def by blast

lemma assert_observation_Inr:
  "assert_observation arg = Inr obs \<longleftrightarrow> arg = Some obs \<and> valid_observation obs"
proof (cases arg)
  case None
  then show ?thesis by (simp add: assert_observation_def)
next
  case (Some o')
  then show ?thesis by (auto simp: assert_observation_Some)
qed

lemma evaluate_clause_schema:
  assumes t: "text_of c ''type'' = js ''schema''" and s: "member c ''schema'' = Some s" "supported s"
    and wf: "wf_json (o_body obs)"
  shows "\<exists>r. evaluate_clause c obs = Inr r \<and> r_id r = text_of c ''id'' \<and> (r_pass r \<longleftrightarrow> conforms s (o_body obs))"
proof -
  obtain f where f: "validate s (o_body obs) [] = Inr f"
    using validate_ok [OF s(2)] by (auto simp: is_ok_iff)
  moreover have "f = None \<longleftrightarrow> conforms s (o_body obs)"
    using validate_conforms [OF s(2) wf, of "[]"] f by simp
  ultimately show ?thesis
    unfolding evaluate_clause_def t s(1) by (cases f) simp_all
qed

lemma evaluate_clause_price:
  assumes t: "text_of c ''type'' = js ''priceRange''"
    and d: "decimal_integer (text_of c ''minMinorUnits'')" "decimal_integer (text_of c ''maxMinorUnits'')"
  shows "\<exists>r. evaluate_clause c obs = Inr r \<and> r_id r = text_of c ''id'' \<and>
     (r_pass r \<longleftrightarrow> int (undec (text_of c ''minMinorUnits'')) \<le> amount_of (o_paid_amount obs) \<and>
        amount_of (o_paid_amount obs) \<le> int (undec (text_of c ''maxMinorUnits'')))"
  unfolding evaluate_clause_def t by (simp add: big_int_def d)

lemma evaluate_clause_decides:
  assumes sla: "well_formed_sla sla" "c \<in> set (sla_clauses sla)" and wf: "wf_json (o_body obs)"
  shows "\<exists>r. evaluate_clause c obs = Inr r \<and> r_id r = text_of c ''id'' \<and> (r_pass r \<longleftrightarrow> clause_promise c obs)"
proof -
  have shape: "sla_shape sla" and ok: "clause_ok c" using sla by (auto simp: well_formed_sla_def)
  show ?thesis
    using shape sla(2)
  proof (cases rule: clause_cases)
    case 1
    note t = text_of_type(1) [OF 1]
    obtain s where "member c ''schema'' = Some s" "supported s"
      using ok t by (auto simp: clause_ok_def split: option.splits)
    then show ?thesis
      using evaluate_clause_schema [OF t _ _ wf] by (simp add: clause_promise_def t)
  next
    case 2
    then show ?thesis by (simp add: evaluate_clause_def clause_promise_def text_of_type(2))
  next
    case 3
    note t = text_of_type(3) [OF 3]
    show ?thesis
      using evaluate_clause_price [OF t, of obs] ok by (simp add: clause_ok_def clause_promise_def t)
  next
    case 4
    then show ?thesis by (simp add: evaluate_clause_def clause_promise_def text_of_type(4))
  qed
qed

lemma evaluate_clauses_decide:
  assumes sla: "well_formed_sla sla" and wf: "wf_json (o_body obs)"
  shows "\<exists>rs. map_r (\<lambda>c. evaluate_clause c obs) (sla_clauses sla) = Inr rs \<and> map r_id rs = clause_ids sla \<and>
     (list_all r_pass rs \<longleftrightarrow> (\<forall>c\<in>set (sla_clauses sla). clause_promise c obs))"
proof -
  have "\<exists>rs. map_r (\<lambda>c. evaluate_clause c obs) cs = Inr rs \<and> map r_id rs = map (\<lambda>c. text_of c ''id'') cs \<and>
     (list_all r_pass rs \<longleftrightarrow> (\<forall>c\<in>set cs. clause_promise c obs))"
    if "set cs \<subseteq> set (sla_clauses sla)" for cs
    using that
  proof (induction cs)
    case (Cons c cs)
    then obtain rs where "map_r (\<lambda>c. evaluate_clause c obs) cs = Inr rs" "map r_id rs = map (\<lambda>c. text_of c ''id'') cs"
      "list_all r_pass rs \<longleftrightarrow> (\<forall>c\<in>set cs. clause_promise c obs)" by auto
    moreover obtain r where "evaluate_clause c obs = Inr r" "r_id r = text_of c ''id''" "r_pass r \<longleftrightarrow> clause_promise c obs"
      using evaluate_clause_decides [OF sla _ wf, of c] Cons.prems by auto
    ultimately show ?case by simp
  qed simp
  then show ?thesis unfolding clause_ids_def by blast
qed

lemma delivery_result [simp]:
  "r_id (evaluate_delivery obs) = DELIVERY_CLAUSE_ID"
  "r_pass (evaluate_delivery obs) \<longleftrightarrow> \<not> status_null obs \<and> num_less (status_num obs) (Fin 500)"
  by (simp_all add: evaluate_delivery_def)

lemma evaluate_decides:
  assumes wf: "wf_json sla" "wf_json (o_body obs)" and sla: "well_formed_sla sla" and obs: "valid_observation obs"
  shows "\<exists>e. evaluate sla (Some obs) = Inr e \<and>
     e_outcome e = (if status_null obs then DOWN
       else if num_less (status_num obs) (Fin 500) \<and> (\<forall>c\<in>set (sla_clauses sla). clause_promise c obs) then PASS
       else FAIL) \<and>
     map r_id (e_clauses e) = DELIVERY_CLAUSE_ID # (if status_null obs then [] else clause_ids sla)"
proof -
  have a: "assert_observation (Some obs) = Inr obs" using obs by (simp add: assert_observation_Some)
  have b: "assert_sla_document sla = Inr ()" using sla by (simp add: assert_sla_document_iff [OF wf(1)])
  show ?thesis
    using evaluate_clauses_decide [OF sla wf(2)]
    unfolding evaluate_def a b by (cases "status_null obs") auto
qed

lemma evaluate_ok_iff:
  assumes wf: "wf_json sla" "\<And>obs. arg = Some obs \<Longrightarrow> wf_json (o_body obs)"
  shows "is_ok (evaluate sla arg) \<longleftrightarrow> well_formed_sla sla \<and> (\<exists>obs. arg = Some obs \<and> valid_observation obs)"
proof
  assume "is_ok (evaluate sla arg)"
  then obtain obs where "assert_observation arg = Inr obs" "assert_sla_document sla = Inr ()"
    by (auto simp: is_ok_iff evaluate_def bind_r_Inr_iff)
  then show "well_formed_sla sla \<and> (\<exists>obs. arg = Some obs \<and> valid_observation obs)"
    by (simp add: assert_observation_Inr assert_sla_document_iff [OF wf(1)])
next
  assume "well_formed_sla sla \<and> (\<exists>obs. arg = Some obs \<and> valid_observation obs)"
  then show "is_ok (evaluate sla arg)"
    using evaluate_decides [OF wf(1) wf(2)] by (auto simp: is_ok_iff)
qed

lemma evaluate_parts:
  assumes "evaluate sla arg = Inr e"
  obtains obs where "arg = Some obs" "valid_observation obs" "assert_sla_document sla = Inr ()"
    "status_null obs \<and> e = \<lparr>e_outcome = DOWN, e_clauses = [evaluate_delivery obs]\<rparr> \<or>
     \<not> status_null obs \<and> (\<exists>rs. map_r (\<lambda>c. evaluate_clause c obs) (sla_clauses sla) = Inr rs \<and>
        e = \<lparr>e_outcome = (if list_all r_pass (evaluate_delivery obs # rs) then PASS else FAIL),
             e_clauses = evaluate_delivery obs # rs\<rparr>)"
proof -
  from assms obtain obs where a: "assert_observation arg = Inr obs" and b: "assert_sla_document sla = Inr ()"
    by (auto simp: evaluate_def bind_r_Inr_iff)
  then have "arg = Some obs" "valid_observation obs" by (simp_all add: assert_observation_Inr)
  moreover have "status_null obs \<and> e = \<lparr>e_outcome = DOWN, e_clauses = [evaluate_delivery obs]\<rparr> \<or>
     \<not> status_null obs \<and> (\<exists>rs. map_r (\<lambda>c. evaluate_clause c obs) (sla_clauses sla) = Inr rs \<and>
        e = \<lparr>e_outcome = (if list_all r_pass (evaluate_delivery obs # rs) then PASS else FAIL),
             e_clauses = evaluate_delivery obs # rs\<rparr>)"
    using assms unfolding evaluate_def a b by (auto simp: bind_r_Inr_iff Let_def split: if_splits)
  ultimately show thesis using b that by blast
qed

lemma evaluate_canon:
  assumes "wf_json (o_body obs)"
  shows "evaluate sla (Some (obs\<lparr>o_body := canon (o_body obs)\<rparr>)) = evaluate sla (Some obs)"
proof -
  let ?obs = "obs\<lparr>o_body := canon (o_body obs)\<rparr>"
  have clause: "evaluate_clause c ?obs = evaluate_clause c obs" for c
    unfolding evaluate_clause_def by (simp add: validate_canon [OF assms] cong: option.case_cong)
  have delivery: "evaluate_delivery ?obs = evaluate_delivery obs" and null: "status_null ?obs = status_null obs"
    by (simp_all add: evaluate_delivery_def status_null_def status_num_def)
  have arg: "assert_observation (Some ?obs) = map_sum id (\<lambda>_. ?obs) (assert_observation (Some obs))"
    by (simp add: assert_observation_def ensure_r_def)
  show ?thesis
  proof (cases "assert_observation (Some obs)")
    case (Inr obs')
    then have "obs' = obs" by (simp add: assert_observation_Some)
    then show ?thesis
      unfolding evaluate_def arg Inr map_sum.simps bind_r_simps clause delivery null by simp
  qed (simp add: evaluate_def arg)
qed

lemma clause_ok_code [code]: "clause_ok c \<longleftrightarrow> text_of c ''id'' \<noteq> DELIVERY_CLAUSE_ID \<and>
     (text_of c ''type'' = js ''schema'' \<longrightarrow>
        (case member c ''schema'' of Some s \<Rightarrow> assert_schema s [] = Inr () | None \<Rightarrow> False)) \<and>
     (text_of c ''type'' = js ''priceRange'' \<longrightarrow>
        decimal_integer (text_of c ''minMinorUnits'') \<and> decimal_integer (text_of c ''maxMinorUnits'') \<and>
        undec (text_of c ''minMinorUnits'') \<le> undec (text_of c ''maxMinorUnits''))"
  by (simp add: clause_ok_def assert_schema_iff cong: option.case_cong)

section \<open>A worked document\<close>

definition example_sla :: json where
  "example_sla = JObj [(js ''version'', JNum (Fin 1)), (js ''clauses'', JArr
     [JObj [(js ''id'', js_str ''shape''), (js ''type'', js_str ''schema''),
        (js ''schema'', JObj [(js ''type'', js_str ''object''), (js ''required'', JArr [js_str ''ok''])])],
      JObj [(js ''id'', js_str ''fast''), (js ''type'', js_str ''latency''), (js ''maxMs'', JNum (Fin 800))],
      JObj [(js ''id'', js_str ''cost''), (js ''type'', js_str ''priceRange''), (js ''minMinorUnits'', js_str ''0''),
        (js ''maxMinorUnits'', js_str ''10000''), (js ''asset'', js_str ''USDC'')],
      JObj [(js ''id'', js_str ''sense''), (js ''type'', js_str ''semantic''), (js ''criteria'', js_str ''answers the question'')]])]"

definition example_observation :: observation where
  "example_observation = \<lparr>o_status = Some (JNum (Fin 200)), o_headers = Some (JObj []),
     o_body = JObj [(js ''ok'', JBool True)], o_latency_ms = Some (JNum (Fin 120)),
     o_paid_amount = BigInt 10000, o_transport_error = None\<rparr>"

lemma example_wf: "wf_json example_sla" "wf_json (o_body example_observation)"
  by (simp_all add: example_sla_def example_observation_def)

lemma example_shape: "sla_shape example_sla"
  by (simp add: example_sla_def sla_shape_def only_members_def object_keys_def member_def clause_shape_def
      schema_clause_shape_def latency_clause_shape_def price_clause_shape_def semantic_clause_shape_def
      clause_head_def string_member_def)

lemma example_ids: "distinct (clause_ids example_sla)"
  by (simp add: example_sla_def clause_ids_def sla_clauses_def member_def text_of_def string_of_value_def)

lemma example_clauses: "\<forall>c\<in>set (sla_clauses example_sla). clause_ok c"
proof -
  have "assert_schema (JObj [(js ''type'', js_str ''object''), (js ''required'', JArr [js_str ''ok''])]) [] = Inr ()"
    by (simp add: assert_schema_iff supported_defs)
  moreover have "decimal_integer (js ''0'')" "decimal_integer (js ''10000'')" "undec (js ''0'') \<le> undec (js ''10000'')"
    by code_simp+
  ultimately show ?thesis
    by (simp add: example_sla_def sla_clauses_def clause_ok_code member_def text_of_def string_of_value_def DELIVERY_CLAUSE_ID_def)
qed

lemma example_well_formed: "well_formed_sla example_sla"
  by (simp add: well_formed_sla_def example_shape example_ids example_clauses)

text \<open>The same document without its semantic clause.\<close>

definition example_plain_sla :: json where
  "example_plain_sla = JObj [(js ''version'', JNum (Fin 1)), (js ''clauses'', JArr
     [JObj [(js ''id'', js_str ''shape''), (js ''type'', js_str ''schema''),
        (js ''schema'', JObj [(js ''type'', js_str ''object''), (js ''required'', JArr [js_str ''ok''])])],
      JObj [(js ''id'', js_str ''fast''), (js ''type'', js_str ''latency''), (js ''maxMs'', JNum (Fin 800))],
      JObj [(js ''id'', js_str ''cost''), (js ''type'', js_str ''priceRange''), (js ''minMinorUnits'', js_str ''0''),
        (js ''maxMinorUnits'', js_str ''10000''), (js ''asset'', js_str ''USDC'')]])]"

lemma example_plain: "wf_json example_plain_sla" "well_formed_sla example_plain_sla"
proof -
  show "wf_json example_plain_sla" by (simp add: example_plain_sla_def)
  have "sla_shape example_plain_sla"
    by (simp add: example_plain_sla_def sla_shape_def only_members_def object_keys_def member_def clause_shape_def
      schema_clause_shape_def latency_clause_shape_def price_clause_shape_def semantic_clause_shape_def
      clause_head_def string_member_def)
  moreover have "set (sla_clauses example_plain_sla) \<subseteq> set (sla_clauses example_sla)"
    by (simp add: example_sla_def example_plain_sla_def sla_clauses_def member_def)
  moreover have "distinct (clause_ids example_plain_sla)"
    by (simp add: example_plain_sla_def clause_ids_def sla_clauses_def member_def text_of_def string_of_value_def)
  ultimately show "well_formed_sla example_plain_sla"
    using example_clauses by (auto simp: well_formed_sla_def)
qed

lemma example_valid: "valid_observation example_observation"
  by (simp add: example_observation_def valid_observation_def http_status_def is_object_def is_latency_def
      non_negative_integer_def)



section \<open>Properties\<close>

text \<open>
  C23: A run of \<open>validate\<close> over schema.json accepts exactly the documents \<open>sla_shape\<close> writes
  out member by member: version 1, 1 to 32 clauses, each of exactly one of the four types
  with its own members and no other.
\<close>

theorem schema_json_meaning:
  "wf_json sla \<Longrightarrow> validate META_SCHEMA sla [] = Inr None \<longleftrightarrow> sla_shape sla"
  by (rule validate_meta_schema)

theorem schema_json_meaning_witness: "validate META_SCHEMA example_sla [] = Inr None"
  using schema_json_meaning [of example_sla] example_wf(1) example_shape by blast

text \<open>
  C24: \<open>parseSla\<close> returns a document exactly when the text is JSON of the declared shape whose
  clause ids are distinct and none is the reserved \<open>delivery\<close>, whose schema clauses carry only
  enforceable schemas, and whose price ranges are decimal integers in order.
\<close>

theorem parse_sla_accepts:
  "parse_sla text = Inr sla \<longleftrightarrow> json_parse text = Inr sla \<and> sla_shape sla \<and> distinct (clause_ids sla) \<and>
     DELIVERY_CLAUSE_ID \<notin> set (clause_ids sla) \<and> list_all clause_ok (sla_clauses sla)"
proof -
  have "DELIVERY_CLAUSE_ID \<notin> set (clause_ids sla)" if "\<forall>c\<in>set (sla_clauses sla). clause_ok c"
    using that by (auto simp: clause_ids_def clause_ok_def)
  then show ?thesis unfolding parse_sla_iff well_formed_sla_def list_all_iff by blast
qed

text \<open>
  C5: On a document \<open>parseSla\<close> accepts and a valid observation, \<open>evaluate\<close> returns (the
  unknown-clause-type and non-object-schema throws are unreachable), its outcome is DOWN
  exactly when nothing arrived, else PASS exactly when the status is below 500 and every
  declared clause's promise holds, and its results are the implicit delivery clause followed
  by one result per declared clause in the declared order.
\<close>

theorem evaluate_outcome:
  assumes "wf_json sla" "wf_json (o_body obs)" "well_formed_sla sla" "valid_observation obs"
  shows "\<exists>e. evaluate sla (Some obs) = Inr e \<and>
     e_outcome e = (if status_null obs then DOWN
       else if num_less (status_num obs) (Fin 500) \<and> (\<forall>c\<in>set (sla_clauses sla). clause_promise c obs) then PASS
       else FAIL) \<and>
     map r_id (e_clauses e) = DELIVERY_CLAUSE_ID # (if status_null obs then [] else clause_ids sla)"
  using evaluate_decides [OF assms] .

theorem evaluate_outcome_witness:
  "\<exists>e. evaluate example_sla (Some example_observation) = Inr e \<and>
     e_outcome e = (if status_null example_observation then DOWN
       else if num_less (status_num example_observation) (Fin 500) \<and>
         (\<forall>c\<in>set (sla_clauses example_sla). clause_promise c example_observation) then PASS
       else FAIL) \<and>
     map r_id (e_clauses e) = DELIVERY_CLAUSE_ID #
       (if status_null example_observation then [] else clause_ids example_sla)"
  using evaluate_outcome [OF example_wf example_well_formed example_valid] .

text \<open>
  C25: \<open>evaluate\<close> throws exactly when the observation is not an asserted one or the document is
  not one \<open>assertSlaDocument\<close> accepts, which is what sends the caller to the status-only fallback.
\<close>

theorem evaluate_throws_iff:
  assumes "wf_json sla" "wf_json (o_body obs)"
  shows "(is_ok (evaluate sla (Some obs)) \<longleftrightarrow> well_formed_sla sla \<and> valid_observation obs) \<and>
     \<not> is_ok (evaluate sla None)"
  using evaluate_ok_iff [OF assms(1), of "Some obs"] evaluate_ok_iff [OF assms(1), of None] assms(2) by auto

theorem evaluate_throws_iff_witness: "is_ok (evaluate example_sla (Some example_observation))"
  using evaluate_throws_iff [OF example_wf] example_well_formed example_valid by blast

text \<open>
  The full evaluation is never more lenient than the status-only fallback, whatever the SLA
  declares: a 5xx the fallback scores FAIL is FAIL, and DOWN is DOWN in both.
\<close>

theorem evaluate_not_more_lenient:
  assumes "evaluate sla arg = Inr e" "evaluate_status_only arg = Inr (res, cs)"
  shows "(res = Some FAIL \<longrightarrow> e_outcome e = FAIL) \<and> (res = Some DOWN \<longleftrightarrow> e_outcome e = DOWN)"
  using assms(1)
proof (cases rule: evaluate_parts)
  case (1 obs)
  then have "assert_observation arg = Inr obs" by (simp add: assert_observation_Inr)
  then show ?thesis
    using 1(4) assms(2) by (auto simp: evaluate_status_only_def split: if_splits)
qed

theorem evaluate_not_more_lenient_witness:
  "\<exists>e res cs. evaluate example_sla (Some (example_observation\<lparr>o_status := Some (JNum (Fin 503))\<rparr>)) = Inr e \<and>
     evaluate_status_only (Some (example_observation\<lparr>o_status := Some (JNum (Fin 503))\<rparr>)) = Inr (res, cs) \<and>
     res = Some FAIL \<and> e_outcome e = FAIL"
proof -
  let ?obs = "example_observation\<lparr>o_status := Some (JNum (Fin 503))\<rparr>"
  have v: "valid_observation ?obs" and wf: "wf_json (o_body ?obs)"
    using example_valid example_wf(2) by (simp_all add: valid_observation_def http_status_def)
  obtain e where e: "evaluate example_sla (Some ?obs) = Inr e"
    using evaluate_decides [OF example_wf(1) wf example_well_formed v] by blast
  moreover have s: "evaluate_status_only (Some ?obs) = Inr (Some FAIL, [])"
    using v by (simp add: evaluate_status_only_def assert_observation_Some [THEN iffD2] status_null_def status_num_def number_of_def)
  ultimately show ?thesis
    using evaluate_not_more_lenient [OF e s] by blast
qed

definition deterministic_clauses :: "json \<Rightarrow> members set" where
  "deterministic_clauses sla = {c \<in> set (sla_clauses sla). text_of c ''type'' \<noteq> js ''semantic''}"

text \<open>
  Semantic clauses never move the outcome: two accepted documents that declare the same
  deterministic clauses, in whatever order and with whatever semantic clauses beside them,
  give every observation the same outcome.
\<close>

theorem semantic_clauses_never_decide:
  assumes "wf_json sla" "wf_json sla'" "wf_json (o_body obs)"
    and "evaluate sla (Some obs) = Inr e" "evaluate sla' (Some obs) = Inr e'"
    and "deterministic_clauses sla = deterministic_clauses sla'"
  shows "e_outcome e = e_outcome e'"
proof -
  have ok: "well_formed_sla sla" "well_formed_sla sla'" "valid_observation obs"
    using assms evaluate_ok_iff [of sla "Some obs"] evaluate_ok_iff [of sla' "Some obs"] by (auto simp: is_ok_iff)
  have promise: "(\<forall>c\<in>set (sla_clauses s). clause_promise c obs) \<longleftrightarrow> (\<forall>c\<in>deterministic_clauses s. clause_promise c obs)" for s
    by (auto simp: deterministic_clauses_def clause_promise_def)
  show ?thesis
    using evaluate_decides [OF assms(1,3) ok(1,3)] evaluate_decides [OF assms(2,3) ok(2,3)] assms(4,5)
    unfolding promise assms(6) by auto
qed

theorem semantic_clauses_never_decide_witness:
  "\<exists>e e'. evaluate example_sla (Some example_observation) = Inr e \<and>
     evaluate example_plain_sla (Some example_observation) = Inr e' \<and> e_outcome e = e_outcome e'"
proof -
  have "deterministic_clauses example_sla = deterministic_clauses example_plain_sla"
    by (auto simp: deterministic_clauses_def example_sla_def example_plain_sla_def sla_clauses_def member_def
        text_of_def string_of_value_def)
  then show ?thesis
    using semantic_clauses_never_decide [OF example_wf(1) example_plain(1) example_wf(2)]
      evaluate_decides [OF example_wf example_well_formed example_valid]
      evaluate_decides [OF example_plain(1) example_wf(2) example_plain(2) example_valid] by metis
qed

text \<open>
  The evaluation does not depend on the key order of the body: reordering the members of
  any object in it changes neither the outcome nor one character of the clause results.
\<close>

theorem evaluate_ignores_body_key_order:
  assumes "wf_json body" "wf_json body'" "canon body = canon body'"
  shows "evaluate sla (Some (obs\<lparr>o_body := body\<rparr>)) = evaluate sla (Some (obs\<lparr>o_body := body'\<rparr>))"
  using evaluate_canon [of "obs\<lparr>o_body := body\<rparr>" sla] evaluate_canon [of "obs\<lparr>o_body := body'\<rparr>" sla] assms by simp

theorem evaluate_ignores_body_key_order_witness:
  "evaluate example_sla (Some (example_observation\<lparr>o_body := JObj [(js ''a'', JNull), (js ''ok'', JBool True)]\<rparr>)) =
   evaluate example_sla (Some (example_observation\<lparr>o_body := JObj [(js ''ok'', JBool True), (js ''a'', JNull)]\<rparr>))"
proof (rule evaluate_ignores_body_key_order)
  show "canon (JObj [(js ''a'', JNull), (js ''ok'', JBool True)]) = canon (JObj [(js ''ok'', JBool True), (js ''a'', JNull)])"
    by code_simp
qed simp_all

end
