(* ===== verification/Cre_Judge.thy ===== *)
theory Cre_Judge imports Sla_Engine begin

text \<open>
  \<open>cre/lib/judge.js\<close>: what the per-request workflow decides about one paid call, the fallback
  ladder around the SLA engine, and the observation it is judged on.
\<close>

datatype judgement_mode = Sla_Mode | Status_Only_Mode

record judgement =
  j_mode :: judgement_mode
  j_outcome :: "outcome option" \<comment> \<open>\<open>None\<close>: write no verdict\<close>
  j_clauses :: "clause_result list"
  j_fallback_reason :: "jstring option"

definition PAYMENT_REFUSED :: jsnum where "PAYMENT_REFUSED = Fin 402"

definition usable_sla :: "jstring option \<Rightarrow> bool" where
  "usable_sla sla_text = (case sla_text of Some s \<Rightarrow> s \<noteq> [] | None \<Rightarrow> False)"

definition status_only :: "observation \<Rightarrow> jstring \<Rightarrow> judgement result" where
  "status_only obs reason = bind_r (evaluate_status_only (Some obs)) (\<lambda>(res, clauses).
     Inr \<lparr>j_mode = Status_Only_Mode, j_outcome = res, j_clauses = clauses, j_fallback_reason = Some reason\<rparr>)"

definition judge :: "jstring option \<Rightarrow> observation \<Rightarrow> judgement result" where
  "judge sla_text obs =
     (if o_status obs = Some (JNum PAYMENT_REFUSED) then
        Inr \<lparr>j_mode = (if usable_sla sla_text then Sla_Mode else Status_Only_Mode), j_outcome = None, j_clauses = [],
             j_fallback_reason = Some (js ''provider refused the payment (402); nothing was delivered to judge'')\<rparr>
      else case sla_text of
        Some s \<Rightarrow>
          if s \<noteq> [] then
            (case bind_r (parse_sla s) (\<lambda>sla. evaluate sla (Some obs)) of
               Inr e \<Rightarrow> Inr \<lparr>j_mode = Sla_Mode, j_outcome = Some (e_outcome e), j_clauses = e_clauses e,
                             j_fallback_reason = None\<rparr>
             | Inl message \<Rightarrow> status_only obs (js ''sla unusable: '' @ message))
          else status_only obs (js ''sla record empty'')
      | None \<Rightarrow> status_only obs (js ''sla record unreadable''))"

definition should_write_verdict :: "judgement \<Rightarrow> bool" where
  "should_write_verdict j \<longleftrightarrow> j_outcome j \<noteq> None"

definition failed_clause_of :: "judgement \<Rightarrow> jstring option" where
  "failed_clause_of j = map_option r_id (find (\<lambda>c. \<not> r_pass c) (j_clauses j))"

record seen =
  s_status :: json
  s_headers :: "json option"
  s_body_text :: "jstring option"
  s_latency_ms :: json
  s_paid_amount :: paid
  s_transport_error :: "jstring option"

definition observation_from :: "seen \<Rightarrow> observation" where
  "observation_from s =
     \<lparr>o_status = Some (s_status s),
      o_headers = Some (case s_headers s of None \<Rightarrow> JObj [] | Some JNull \<Rightarrow> JObj [] | Some h \<Rightarrow> h),
      o_body = (case s_body_text s of None \<Rightarrow> JNull
                | Some t \<Rightarrow> (case json_parse t of Inr v \<Rightarrow> v | Inl _ \<Rightarrow> JStr t)),
      o_latency_ms = Some (s_latency_ms s),
      o_paid_amount = s_paid_amount s,
      o_transport_error = (case s_transport_error s of Some e \<Rightarrow> if e = [] then None else Some e | None \<Rightarrow> None)\<rparr>"

section \<open>The ladder\<close>

lemma status_only_valid:
  "valid_observation obs \<Longrightarrow> status_only obs reason = Inr
     \<lparr>j_mode = Status_Only_Mode,
      j_outcome = (if status_null obs then Some DOWN
        else if \<not> num_less (status_num obs) (Fin 200) \<and> num_less (status_num obs) (Fin 300) then Some PASS
        else if \<not> num_less (status_num obs) (Fin 500) then Some FAIL else None),
      j_clauses = [], j_fallback_reason = Some reason\<rparr>"
  by (simp add: status_only_def evaluate_status_only_def assert_observation_Some [THEN iffD2])

text \<open>The SLA path is taken exactly when the record parses: then \<open>evaluate\<close> cannot throw.\<close>

lemma judge_sla:
  assumes "o_status obs \<noteq> Some (JNum PAYMENT_REFUSED)" "s \<noteq> []" "parse_sla s = Inr sla"
    and obs: "valid_observation obs" "wf_json (o_body obs)"
  shows "\<exists>e. evaluate sla (Some obs) = Inr e \<and>
     judge (Some s) obs = Inr \<lparr>j_mode = Sla_Mode, j_outcome = Some (e_outcome e), j_clauses = e_clauses e, j_fallback_reason = None\<rparr>"
proof -
  have "wf_json sla" "well_formed_sla sla"
    using assms(3) json_parse_wf by (auto simp: parse_sla_iff)
  then obtain e where "evaluate sla (Some obs) = Inr e"
    using evaluate_decides [of sla obs] obs by blast
  then show ?thesis using assms(1-3) by (auto simp: judge_def)
qed

lemma judge_fallback:
  assumes "o_status obs \<noteq> Some (JNum PAYMENT_REFUSED)"
    and "\<And>s sla. sla_text = Some s \<Longrightarrow> s \<noteq> [] \<Longrightarrow> parse_sla s \<noteq> Inr sla"
  shows "\<exists>reason. judge sla_text obs = status_only obs reason"
proof (cases sla_text)
  case (Some s)
  show ?thesis
  proof (cases "s = []")
    case False
    then obtain m where "parse_sla s = Inl m" using assms(2) [OF Some] by (cases "parse_sla s") auto
    then show ?thesis using assms(1) Some False by (auto simp: judge_def)
  qed (use assms(1) Some in \<open>auto simp: judge_def\<close>)
qed (use assms(1) in \<open>auto simp: judge_def\<close>)

lemma judge_cases [consumes 2, case_names refused sla fallback]:
  assumes obs: "valid_observation obs" "wf_json (o_body obs)"
  obtains "o_status obs = Some (JNum PAYMENT_REFUSED)" "\<exists>j. judge t obs = Inr j \<and> j_outcome j = None \<and> j_clauses j = []"
  | s sla e where "o_status obs \<noteq> Some (JNum PAYMENT_REFUSED)" "t = Some s" "parse_sla s = Inr sla"
      "evaluate sla (Some obs) = Inr e"
      "judge t obs = Inr \<lparr>j_mode = Sla_Mode, j_outcome = Some (e_outcome e), j_clauses = e_clauses e, j_fallback_reason = None\<rparr>"
  | reason where "o_status obs \<noteq> Some (JNum PAYMENT_REFUSED)"
      "\<And>s sla. t = Some s \<Longrightarrow> s \<noteq> [] \<Longrightarrow> parse_sla s \<noteq> Inr sla" "judge t obs = status_only obs reason"
proof (cases "o_status obs = Some (JNum PAYMENT_REFUSED)")
  case True
  then show ?thesis using that(1) by (simp add: judge_def)
next
  case False
  show ?thesis
  proof (cases "\<exists>s sla. t = Some s \<and> s \<noteq> [] \<and> parse_sla s = Inr sla")
    case True
    then show ?thesis using judge_sla [OF False _ _ obs] that(2) [OF False] by blast
  next
    case nosla: False
    then have "\<exists>reason. judge t obs = status_only obs reason"
      by (intro judge_fallback [OF False]) blast
    then show ?thesis using nosla that(3) [OF False] by blast
  qed
qed

lemma find_None_list_all: "find (\<lambda>c. \<not> P c) cs = None \<longleftrightarrow> list_all P cs"
  by (auto simp: find_None_iff list_all_iff)

lemma named_not_delivery:
  "set_option x \<subseteq> S \<Longrightarrow> d \<notin> S \<Longrightarrow> set_option x \<subseteq> insert d S \<and> x \<noteq> Some d"
  by auto

lemma status_402:
  assumes "o_status obs = Some (JNum PAYMENT_REFUSED)"
  shows "\<not> status_null obs" "status_num obs = Fin 402"
  using assms by (simp_all add: status_null_def status_num_def number_of_def PAYMENT_REFUSED_def)

section \<open>Properties\<close>

definition example_refused :: observation where
  "example_refused = example_observation\<lparr>o_status := Some (JNum (Fin 402))\<rparr>"

text \<open>
  C3: A FAIL never comes out of anything but the call itself: on a valid observation \<open>judge\<close>
  returns, and when it records FAIL a response arrived that was not a payment refusal, and
  either its status is 5xx or the provider's own record parsed as an SLA and one of its declared
  promises is broken. In particular an SLA that cannot be read or parsed, and a 402, never
  cost the provider.
\<close>

theorem judge_fails_only_for_cause:
  assumes "valid_observation obs" "wf_json (o_body obs)"
  shows "\<exists>j. judge t obs = Inr j \<and>
     (j_outcome j = Some FAIL \<longrightarrow> \<not> status_null obs \<and> o_status obs \<noteq> Some (JNum PAYMENT_REFUSED) \<and>
        (\<not> num_less (status_num obs) (Fin 500) \<or>
         (\<exists>s sla. t = Some s \<and> parse_sla s = Inr sla \<and> (\<exists>c\<in>set (sla_clauses sla). \<not> clause_promise c obs))))"
  using assms
proof (cases rule: judge_cases [where t = t])
  case (sla s sla e)
  have "wf_json sla" "well_formed_sla sla"
    using sla(3) json_parse_wf by (auto simp: parse_sla_iff)
  then show ?thesis
    using evaluate_decides [of sla obs] assms sla by (auto split: if_splits)
next
  case (fallback reason)
  then show ?thesis using assms(1) by (auto simp: status_only_valid)
qed auto

theorem judge_fails_only_for_cause_witness:
  "\<exists>j. judge None (example_observation\<lparr>o_status := Some (JNum (Fin 503))\<rparr>) = Inr j \<and> j_outcome j = Some FAIL"
proof -
  let ?obs = "example_observation\<lparr>o_status := Some (JNum (Fin 503))\<rparr>"
  have v: "valid_observation ?obs" "wf_json (o_body ?obs)"
    using example_valid example_wf(2) by (simp_all add: valid_observation_def http_status_def)
  from judge_fails_only_for_cause [OF v, of None] obtain j where "judge None ?obs = Inr j" by blast
  then show ?thesis
    using v by (auto simp: judge_def status_only_valid status_null_def status_num_def number_of_def PAYMENT_REFUSED_def)
qed

text \<open>
  When no usable SLA is at hand (no record, an empty one, or one \<open>parseSla\<close> rejects) the
  verdict is the status alone and no clause is named: DOWN when nothing arrived, PASS for
  2xx, FAIL for 5xx, and no verdict at all for anything else.
\<close>

theorem judge_without_sla:
  assumes "valid_observation obs" "o_status obs \<noteq> Some (JNum PAYMENT_REFUSED)"
    and "\<And>s sla. t = Some s \<Longrightarrow> s \<noteq> [] \<Longrightarrow> parse_sla s \<noteq> Inr sla"
  shows "\<exists>j. judge t obs = Inr j \<and> j_mode j = Status_Only_Mode \<and> j_clauses j = [] \<and> failed_clause_of j = None \<and>
     j_outcome j = (if status_null obs then Some DOWN
        else if \<not> num_less (status_num obs) (Fin 200) \<and> num_less (status_num obs) (Fin 300) then Some PASS
        else if \<not> num_less (status_num obs) (Fin 500) then Some FAIL else None)"
proof -
  obtain reason where "judge t obs = status_only obs reason"
    using judge_fallback [OF assms(2,3), of t] by blast
  then show ?thesis
    by (simp add: status_only_valid [OF assms(1)] failed_clause_of_def)
qed

theorem judge_without_sla_witness:
  "\<exists>j. judge (Some (js ''{'')) (example_observation\<lparr>o_status := Some (JNum (Fin 404))\<rparr>) = Inr j \<and> \<not> should_write_verdict j"
proof -
  let ?obs = "example_observation\<lparr>o_status := Some (JNum (Fin 404))\<rparr>"
  have v: "valid_observation ?obs"
    using example_valid by (simp add: valid_observation_def http_status_def)
  have p: "parse_sla s \<noteq> Inr sla" if "Some (js ''{'') = Some s" for s sla
  proof -
    have "json_parse (js ''{'') = Inl syntax_error" by code_simp
    then show ?thesis using that by (auto simp: parse_sla_iff)
  qed
  have n: "o_status ?obs \<noteq> Some (JNum PAYMENT_REFUSED)" by (simp add: PAYMENT_REFUSED_def)
  from judge_without_sla [OF v n p] show ?thesis
    by (auto simp: should_write_verdict_def status_null_def status_num_def number_of_def)
qed

text \<open>
  A refused payment earns no verdict, whatever the SLA and the rest of the observation say,
  and writes nothing: neither a refund nor a clean call can be farmed from a 402.
\<close>

theorem refused_payment_writes_nothing:
  "o_status obs = Some (JNum (Fin 402)) \<Longrightarrow>
     \<exists>j. judge t obs = Inr j \<and> \<not> should_write_verdict j \<and> j_clauses j = [] \<and> failed_clause_of j = None"
  by (simp add: judge_def PAYMENT_REFUSED_def should_write_verdict_def failed_clause_of_def)

theorem refused_payment_writes_nothing_witness:
  "\<exists>j. judge (Some (js ''{}'')) example_refused = Inr j \<and> \<not> should_write_verdict j"
  using refused_payment_writes_nothing [of example_refused "Some (js ''{}'')"]
  by (auto simp: example_refused_def)

text \<open>
  The clause named on chain is the first failing one in the SLA's declared order: under an
  SLA no clause is named exactly when the verdict is PASS, otherwise the name is \<open>delivery\<close>
  (exactly when nothing arrived or the status is 5xx) or the id of a declared clause.
\<close>

theorem failed_clause_names_the_cause:
  assumes "valid_observation obs" "wf_json (o_body obs)" "judge t obs = Inr j" "j_mode j = Sla_Mode" "should_write_verdict j"
  shows "\<exists>s sla. t = Some s \<and> parse_sla s = Inr sla \<and>
     (failed_clause_of j = None \<longleftrightarrow> j_outcome j = Some PASS) \<and>
     set_option (failed_clause_of j) \<subseteq> insert DELIVERY_CLAUSE_ID (set (clause_ids sla)) \<and>
     (failed_clause_of j = Some DELIVERY_CLAUSE_ID \<longleftrightarrow> status_null obs \<or> \<not> num_less (status_num obs) (Fin 500))"
  using assms(1,2)
proof (cases rule: judge_cases [where t = t])
  case (sla s sla e)
  have wf: "wf_json sla" "well_formed_sla sla"
    using sla(3) json_parse_wf by (auto simp: parse_sla_iff)
  have ids: "DELIVERY_CLAUSE_ID \<notin> set (clause_ids sla)"
    using wf(2) by (auto simp: well_formed_sla_def clause_ids_def clause_ok_def)
  have j: "j_outcome j = Some (e_outcome e)" "j_clauses j = e_clauses e" using assms(3) sla(5) by auto
  show ?thesis
    using sla(4)
  proof (cases rule: evaluate_parts)
    case (1 obs')
    have [simp]: "obs' = obs" using 1(1) by simp
    have ids': "map r_id (e_clauses e) = DELIVERY_CLAUSE_ID # (if status_null obs then [] else clause_ids sla)"
      using evaluate_decides [OF wf(1) assms(2) wf(2) assms(1)] sla(4) by auto
    show ?thesis
    proof (cases "status_null obs \<or> \<not> num_less (status_num obs) (Fin 500)")
      case True
      obtain rest where "e_clauses e = evaluate_delivery obs # rest" "e_outcome e \<noteq> PASS"
        using 1(4) True by (elim disjE conjE exE) (simp_all only: \<open>obs' = obs\<close>, auto)
      then have "failed_clause_of j = Some DELIVERY_CLAUSE_ID" "j_outcome j \<noteq> Some PASS"
        using True by (auto simp: failed_clause_of_def j)
      then show ?thesis using sla(2,3) True by auto
    next
      case False
      then obtain rs where rs: "e_clauses e = evaluate_delivery obs # rs"
          "e_outcome e = (if list_all r_pass rs then PASS else FAIL)" "map r_id rs = clause_ids sla"
        using 1(4) ids' by (elim disjE conjE exE) (simp_all only: \<open>obs' = obs\<close>, auto)
      have f: "failed_clause_of j = map_option r_id (find (\<lambda>c. \<not> r_pass c) rs)"
        using False by (simp add: failed_clause_of_def j rs(1))
      then have pass: "failed_clause_of j = None \<longleftrightarrow> j_outcome j = Some PASS"
        by (simp add: j rs(2) find_None_list_all)
      have "set_option (failed_clause_of j) \<subseteq> set (clause_ids sla)"
        unfolding f rs(3) [symmetric] by (auto dest: find_SomeD)
      note named = named_not_delivery [OF this ids]
      show ?thesis
        by (rule exI [of _ s], rule exI [of _ sla], intro conjI sla pass named [THEN conjunct1])
          (use False named in simp)
    qed
  qed
next
  case (fallback reason)
  then show ?thesis using assms status_only_valid [OF assms(1), of reason] by auto
qed (use assms(3,5) in \<open>auto simp: should_write_verdict_def\<close>)

definition tiny_text :: jstring where
  "tiny_text = js ''{\"version\":1,\"clauses\":[{\"id\":\"fast\",\"type\":\"latency\",\"maxMs\":10}]}''"

definition tiny_sla :: json where
  "tiny_sla = JObj [(js ''version'', JNum (Fin 1)), (js ''clauses'', JArr
     [JObj [(js ''id'', js_str ''fast''), (js ''type'', js_str ''latency''), (js ''maxMs'', JNum (Fin 10))]])]"

lemma tiny_parses: "parse_sla tiny_text = Inr tiny_sla"
proof -
  have "json_parse tiny_text = Inr tiny_sla" by code_simp
  moreover have "well_formed_sla tiny_sla"
    by (simp add: tiny_sla_def well_formed_sla_def sla_shape_def only_members_def object_keys_def member_def
      clause_shape_def latency_clause_shape_def clause_head_def string_member_def clause_ids_def sla_clauses_def
      clause_ok_def text_of_def string_of_value_def DELIVERY_CLAUSE_ID_def)
  ultimately show ?thesis by (simp add: parse_sla_iff)
qed

lemma tiny_ids: "clause_ids tiny_sla = [js ''fast'']"
  by (simp add: tiny_sla_def clause_ids_def sla_clauses_def member_def text_of_def string_of_value_def)

theorem failed_clause_names_the_cause_witness:
  "\<exists>j. judge (Some tiny_text) (example_observation\<lparr>o_status := Some (JNum (Fin 503))\<rparr>) = Inr j \<and>
     failed_clause_of j = Some DELIVERY_CLAUSE_ID"
proof -
  let ?obs = "example_observation\<lparr>o_status := Some (JNum (Fin 503))\<rparr>"
  have v: "valid_observation ?obs" "wf_json (o_body ?obs)"
    using example_valid example_wf(2) by (simp_all add: valid_observation_def http_status_def)
  have "o_status ?obs \<noteq> Some (JNum PAYMENT_REFUSED)" "tiny_text \<noteq> []"
    by (simp_all add: PAYMENT_REFUSED_def tiny_text_def)
  from judge_sla [OF this tiny_parses v] obtain e :: evaluation where
    j: "judge (Some tiny_text) ?obs =
      Inr \<lparr>j_mode = Sla_Mode, j_outcome = Some (e_outcome e), j_clauses = e_clauses e, j_fallback_reason = None\<rparr>"
    by blast
  have n: "status_null ?obs \<or> \<not> num_less (status_num ?obs) (Fin 500)"
    by (simp add: status_num_def number_of_def)
  show ?thesis
    using failed_clause_names_the_cause [OF v j] n j by (auto simp: should_write_verdict_def)
qed

text \<open>
  Whatever the enclave saw becomes an observation the engine can judge: a status that is null
  or an HTTP code, a whole non-negative latency and a non-negative amount are enough, and a
  body that is not JSON is handed over as the string it was, so a plain-text response is not
  turned into a DOWN.
\<close>

theorem observations_are_judgeable:
  assumes "s_status s = JNull \<or> http_status (Some (s_status s))" "is_latency (Some (s_latency_ms s))"
    and "is_amount (s_paid_amount s)" "s_headers s = None \<or> (\<exists>h. s_headers s = Some (JObj h))"
  shows "valid_observation (observation_from s) \<and> wf_json (o_body (observation_from s)) \<and>
     (status_null (observation_from s) \<longleftrightarrow> s_status s = JNull) \<and>
     (\<forall>t. s_body_text s = Some t \<longrightarrow> \<not> is_ok (json_parse t) \<longrightarrow> o_body (observation_from s) = JStr t)"
proof -
  have "valid_observation (observation_from s)"
    using assms by (auto simp: valid_observation_def observation_from_def is_object_def split: json.splits option.splits)
  moreover have "wf_json (o_body (observation_from s))"
    by (auto simp: observation_from_def split: option.splits sum.splits dest: json_parse_wf)
  ultimately show ?thesis
    by (auto simp: observation_from_def status_null_def split: sum.splits)
qed

definition example_seen :: seen where
  "example_seen = \<lparr>s_status = JNum (Fin 200), s_headers = None, s_body_text = Some (js ''hello''),
     s_latency_ms = JNum (Fin 12), s_paid_amount = BigInt 5, s_transport_error = None\<rparr>"

theorem observations_are_judgeable_witness:
  "valid_observation (observation_from example_seen) \<and> o_body (observation_from example_seen) = js_str ''hello''"
proof -
  have "\<not> is_ok (json_parse (js ''hello''))" by code_simp
  moreover have "http_status (Some (s_status example_seen))" "is_latency (Some (s_latency_ms example_seen))"
    "is_amount (s_paid_amount example_seen)" "s_headers example_seen = None"
    "s_body_text example_seen = Some (js ''hello'')"
    by (simp_all add: example_seen_def http_status_def is_latency_def non_negative_integer_def)
  ultimately show ?thesis using observations_are_judgeable [of example_seen] by blast
qed

end
