(* ===== verification/Registry_Sdk.thy ===== *)
theory Registry_Sdk imports JS_Text Cre_Judge begin

text \<open>
  \<open>packages/sdk/registry.js\<close> and \<open>env.js\<close>: the enum ordinals shared with the Arc registry, the
  slug and the ids derived from it, and the way back from a verdict's \<open>failedClause\<close> word to a
  clause of the SLA. \<open>keccak256\<close> and \<open>toBytes\<close> are viem's: parameters here.
\<close>

section \<open>Ordinals\<close>

datatype service_status = NONE | ACTIVE | SUSPENDED | DEREGISTERED

definition OUTCOME_ORDINAL :: "(jstring \<times> nat) list" where
  "OUTCOME_ORDINAL = [(js ''PASS'', 0), (js ''FAIL'', 1), (js ''DOWN'', 2)]"

definition STATUS_ORDINAL :: "service_status \<Rightarrow> nat" where
  "STATUS_ORDINAL s = (case s of NONE \<Rightarrow> 0 | ACTIVE \<Rightarrow> 1 | SUSPENDED \<Rightarrow> 2 | DEREGISTERED \<Rightarrow> 3)"

definition OUTCOME_BY_ORDINAL :: "outcome list" where
  "OUTCOME_BY_ORDINAL = [PASS, FAIL, DOWN]"

definition STATUS_BY_ORDINAL :: "service_status list" where
  "STATUS_BY_ORDINAL = [NONE, ACTIVE, SUSPENDED, DEREGISTERED]"

definition outcome_name :: "outcome \<Rightarrow> jstring" where
  "outcome_name r = (case r of PASS \<Rightarrow> js ''PASS'' | FAIL \<Rightarrow> js ''FAIL'' | DOWN \<Rightarrow> js ''DOWN'')"

definition outcome_to_ordinal :: "jstring \<Rightarrow> nat result" where
  "outcome_to_ordinal name = (case map_of OUTCOME_ORDINAL name of
     None \<Rightarrow> Inl (js ''unknown outcome: '' @ name) | Some n \<Rightarrow> Inr n)"

definition from_ordinal :: "'a list \<Rightarrow> jstring \<Rightarrow> jsnum \<Rightarrow> 'a result" where
  "from_ordinal table message ordinal = (case ordinal of
     Fin q \<Rightarrow> if is_whole q \<and> 0 \<le> q \<and> q < of_nat (length table) then Inr (table ! nat \<lfloor>q\<rfloor>)
              else Inl (message @ num_str ordinal)
   | _ \<Rightarrow> Inl (message @ num_str ordinal))"

definition outcome_from_ordinal :: "jsnum \<Rightarrow> outcome result" where
  "outcome_from_ordinal = from_ordinal OUTCOME_BY_ORDINAL (js ''unknown outcome ordinal: '')"

definition status_from_ordinal :: "jsnum \<Rightarrow> service_status result" where
  "status_from_ordinal = from_ordinal STATUS_BY_ORDINAL (js ''unknown status ordinal: '')"

section \<open>Slugs and ids\<close>

definition slug_unit :: "code_unit \<Rightarrow> bool" where
  "slug_unit c \<longleftrightarrow> 97 \<le> c \<and> c \<le> 122 \<or> is_digit c"

text \<open>\<open>/^[a-z0-9](?:[a-z0-9-]{0,61}[a-z0-9])?$/\<close>\<close>

definition slug_matches :: "jstring \<Rightarrow> bool" where
  "slug_matches s = (case s of
     [] \<Rightarrow> False
   | c # r \<Rightarrow> slug_unit c \<and>
       (r = [] \<or> length (butlast r) \<le> 61 \<and> list_all (\<lambda>x. slug_unit x \<or> x = 45) (butlast r) \<and> slug_unit (last r)))"

definition service_id_of :: "(8 word list \<Rightarrow> jstring) \<Rightarrow> (jstring \<Rightarrow> 8 word list) \<Rightarrow> jstring \<Rightarrow> jstring result" where
  "service_id_of keccak to_bytes slug =
     (if slug_matches slug then Inr (keccak (to_bytes slug))
      else Inl (js ''serviceIdOf: \"'' @ slug @ js ''\" is not a valid slug (lowercase a-z, 0-9 and -, 1..63 chars)''))"

definition NO_CLAUSE :: jstring where
  "NO_CLAUSE = js ''0x'' @ replicate 64 48"

definition clause_hash :: "(8 word list \<Rightarrow> jstring) \<Rightarrow> (jstring \<Rightarrow> 8 word list) \<Rightarrow> jstring \<Rightarrow> jstring" where
  "clause_hash keccak to_bytes clause_id = keccak (to_bytes clause_id)"

definition DELIVERY_CLAUSE :: jstring where
  "DELIVERY_CLAUSE = js ''delivery''"

text \<open>\<open>sla?.clauses ?? []\<close>: no document is the empty list.\<close>

definition match_failed_clause ::
  "(8 word list \<Rightarrow> jstring) \<Rightarrow> (jstring \<Rightarrow> 8 word list) \<Rightarrow> jstring \<Rightarrow> json option \<Rightarrow> jstring option" where
  "match_failed_clause keccak to_bytes failed_clause sla =
     (if failed_clause = [] \<or> lower failed_clause = NO_CLAUSE then None
      else if lower (clause_hash keccak to_bytes DELIVERY_CLAUSE) = lower failed_clause then Some DELIVERY_CLAUSE
      else (case find (\<lambda>c. lower (clause_hash keccak to_bytes (text_of c ''id'')) = lower failed_clause)
                   (case sla of None \<Rightarrow> [] | Some d \<Rightarrow> sla_clauses d) of
              Some c \<Rightarrow> Some (text_of c ''id'')
            | None \<Rightarrow> Some (js ''unknown'')))"

text \<open>\<open>env.js\<close>: an empty variable is an absent one. The environment is a map.\<close>

definition env :: "(jstring \<Rightarrow> jstring option) \<Rightarrow> jstring \<Rightarrow> jstring option" where
  "env process_env name = (case process_env name of
     Some v \<Rightarrow> if trim v \<noteq> [] then Some (trim v) else None
   | None \<Rightarrow> None)"

section \<open>Facts\<close>

lemma from_ordinal_of_nat:
  "from_ordinal table m (Fin (of_nat n)) = (if n < length table then Inr (table ! n) else Inl (m @ num_str (Fin (of_nat n))))"
  by (simp add: from_ordinal_def)

lemma from_ordinal_Inr:
  assumes "from_ordinal table m x = Inr v"
  shows "\<exists>n < length table. x = Fin (of_nat n) \<and> v = table ! n"
proof -
  obtain q where x: "x = Fin q" and q: "is_whole q" "0 \<le> q" "q < of_nat (length table)" and v: "v = table ! nat \<lfloor>q\<rfloor>"
    using assms by (auto simp: from_ordinal_def split: jsnum.splits if_splits)
  obtain i where "q = of_int i" using q(1) is_wholeE by blast
  then have "q = of_nat (nat i)" "nat \<lfloor>q\<rfloor> = nat i" using q(2) by auto
  then show ?thesis using x v q(3) by (metis of_nat_less_iff)
qed

lemma slug_matches_iff:
  "slug_matches s \<longleftrightarrow> 1 \<le> length s \<and> length s \<le> 63 \<and> list_all (\<lambda>c. slug_unit c \<or> c = 45) s \<and> hd s \<noteq> 45 \<and> last s \<noteq> 45"
proof (cases s)
  case (Cons c r)
  have hyphen: "\<not> slug_unit 45" by (simp add: slug_unit_def is_digit_def)
  show ?thesis
  proof (cases "r = []")
    case False
    then obtain m d where r: "r = m @ [d]" by (metis rev_exhaust)
    show ?thesis
      using hyphen unfolding slug_matches_def Cons r by auto
  qed (use hyphen Cons in \<open>auto simp: slug_matches_def\<close>)
qed (simp add: slug_matches_def)

lemma match_failed_clause_found:
  assumes word: "clause_hash k b i \<noteq> []" "lower (clause_hash k b i) \<noteq> NO_CLAUSE"
    and i: "i = DELIVERY_CLAUSE \<or> (\<exists>d. sla = Some d \<and> i \<in> set (clause_ids d))"
    and inj: "\<And>j. j = DELIVERY_CLAUSE \<or> (\<exists>d. sla = Some d \<and> j \<in> set (clause_ids d)) \<Longrightarrow>
      lower (clause_hash k b j) = lower (clause_hash k b i) \<Longrightarrow> j = i"
  shows "match_failed_clause k b (clause_hash k b i) sla = Some i"
proof (cases "i = DELIVERY_CLAUSE")
  case True
  then show ?thesis using word by (simp add: match_failed_clause_def)
next
  case False
  then obtain d where d: "sla = Some d" "i \<in> set (clause_ids d)" using i by blast
  let ?P = "\<lambda>c. lower (clause_hash k b (text_of c ''id'')) = lower (clause_hash k b i)"
  have "lower (clause_hash k b DELIVERY_CLAUSE) \<noteq> lower (clause_hash k b i)"
    using inj [of DELIVERY_CLAUSE] False by blast
  moreover obtain c where "find ?P (sla_clauses d) = Some c"
  proof (cases "find ?P (sla_clauses d)")
    case None
    obtain c where "c \<in> set (sla_clauses d)" "text_of c ''id'' = i"
      using d(2) by (auto simp: clause_ids_def)
    then show ?thesis using None unfolding find_None_iff by auto
  qed
  moreover have "text_of c ''id'' = i" if "find ?P (sla_clauses d) = Some c" for c
    using find_SomeD [OF that] inj [of "text_of c ''id''"] d(1) by (auto simp: clause_ids_def)
  ultimately show ?thesis using word d(1) by (simp add: match_failed_clause_def)
qed

lemma match_failed_clause_named:
  assumes "match_failed_clause k b w sla = Some i"
  shows "i = js ''unknown'' \<or> lower (clause_hash k b i) = lower w \<and>
     (i = DELIVERY_CLAUSE \<or> (\<exists>d. sla = Some d \<and> i \<in> set (clause_ids d)))"
  using assms find_SomeD
  by (fastforce simp: match_failed_clause_def clause_ids_def split: if_splits option.splits)

section \<open>Properties\<close>

text \<open>
  The outcome codec is the registry's: encoding then decoding is the identity, a decoded
  ordinal is one of 0, 1, 2 and encodes back, and everything else throws in both directions,
  so a FAIL is never read back as a PASS.
\<close>

theorem outcome_ordinal_roundtrip:
  "(\<exists>n. outcome_to_ordinal (outcome_name r) = Inr n \<and> outcome_from_ordinal (Fin (of_nat n)) = Inr r) \<and>
   (outcome_from_ordinal x = Inr r' \<longleftrightarrow> (\<exists>n. x = Fin (of_nat n) \<and> outcome_to_ordinal (outcome_name r') = Inr n)) \<and>
   (is_ok (outcome_to_ordinal name) \<longleftrightarrow> name \<in> range outcome_name)"
proof -
  have enc: "outcome_to_ordinal (outcome_name r) = Inr (case r of PASS \<Rightarrow> 0 | FAIL \<Rightarrow> 1 | DOWN \<Rightarrow> 2)" for r
    by (cases r) (simp_all add: outcome_to_ordinal_def OUTCOME_ORDINAL_def outcome_name_def)
  have dec: "outcome_from_ordinal (Fin (of_nat n)) = Inr r \<longleftrightarrow> n = (case r of PASS \<Rightarrow> 0 | FAIL \<Rightarrow> 1 | DOWN \<Rightarrow> 2)" for n r
    by (cases r) (auto simp: outcome_from_ordinal_def from_ordinal_of_nat OUTCOME_BY_ORDINAL_def nth_Cons split: nat.splits)
  have "range outcome_name = {js ''PASS'', js ''FAIL'', js ''DOWN''}"
  proof -
    have all: "(UNIV :: outcome set) = {PASS, FAIL, DOWN}" using outcome.exhaust by auto
    show ?thesis unfolding all by (simp add: outcome_name_def)
  qed
  then have "is_ok (outcome_to_ordinal name) \<longleftrightarrow> name \<in> range outcome_name"
    by (auto simp: outcome_to_ordinal_def OUTCOME_ORDINAL_def)
  moreover have "\<exists>n. x = Fin (of_nat n)" if "outcome_from_ordinal x = Inr r'"
    using from_ordinal_Inr [OF that [unfolded outcome_from_ordinal_def]] by auto
  ultimately show ?thesis using enc dec by auto
qed

text \<open>
  \<open>serviceIdOf\<close> accepts exactly the labels of 1 to 63 characters a-z, 0-9 and hyphen that
  neither start nor end with a hyphen, and throws on everything else.
\<close>

theorem service_id_slugs:
  "is_ok (service_id_of keccak to_bytes s) \<longleftrightarrow>
     1 \<le> length s \<and> length s \<le> 63 \<and> list_all (\<lambda>c. slug_unit c \<or> c = 45) s \<and> hd s \<noteq> 45 \<and> last s \<noteq> 45"
  unfolding slug_matches_iff [symmetric] by (simp add: service_id_of_def)

text \<open>
  C37: The clause a judgement names can be read back from the chain: for a verdict judged under
  the SLA in force, \<open>matchFailedClause\<close> of the hash of \<open>failedClauseOf\<close> is that clause id, as
  long as the hash tells the document's ids and \<open>delivery\<close> apart and is never the zero word.
\<close>

theorem failed_clause_read_back:
  assumes "valid_observation obs" "wf_json (o_body obs)" "parse_sla s = Inr sla" "judge (Some s) obs = Inr j"
    and "failed_clause_of j = Some i"
    and word: "\<forall>x\<in>insert DELIVERY_CLAUSE (set (clause_ids sla)). clause_hash k b x \<noteq> [] \<and> lower (clause_hash k b x) \<noteq> NO_CLAUSE"
    and inj: "inj_on (\<lambda>x. lower (clause_hash k b x)) (insert DELIVERY_CLAUSE (set (clause_ids sla)))"
  shows "match_failed_clause k b (clause_hash k b i) (Some sla) = Some i"
proof -
  have "\<not> is_ok (json_parse [])" by code_simp
  then have "s \<noteq> []" using assms(3) by (auto simp: parse_sla_iff)
  have i: "i = DELIVERY_CLAUSE \<or> i \<in> set (clause_ids sla)"
    using assms(1,2)
  proof (cases rule: judge_cases [where t = "Some s"])
    case refused
    then show ?thesis using assms(4,5) by (auto simp: failed_clause_of_def)
  next
    case (sla s' sla' e)
    have [simp]: "s' = s" "sla' = sla" using sla(2,3) assms(3) by auto
    have wf: "wf_json sla" "well_formed_sla sla"
      using assms(3) json_parse_wf by (auto simp: parse_sla_iff)
    have "map r_id (e_clauses e) = DELIVERY_CLAUSE_ID # (if status_null obs then [] else clause_ids sla)"
      using evaluate_decides [OF wf(1) assms(2) wf(2) assms(1)] sla(4) by auto
    then have "set (map r_id (e_clauses e)) \<subseteq> insert DELIVERY_CLAUSE_ID (set (clause_ids sla))"
      by (auto simp del: set_map split: if_splits)
    moreover have "i \<in> set (map r_id (e_clauses e))"
      using sla(5) assms(4,5) by (auto simp: failed_clause_of_def dest: find_SomeD)
    ultimately show ?thesis by (auto simp: DELIVERY_CLAUSE_def DELIVERY_CLAUSE_ID_def)
  next
    case (fallback reason)
    then show ?thesis using assms(3) \<open>s \<noteq> []\<close> by blast
  qed
  show ?thesis
  proof (rule match_failed_clause_found)
    fix x assume x: "x = DELIVERY_CLAUSE \<or> (\<exists>d. Some sla = Some d \<and> x \<in> set (clause_ids d))"
      and eq: "lower (clause_hash k b x) = lower (clause_hash k b i)"
    have "x \<in> insert DELIVERY_CLAUSE (set (clause_ids sla))" "i \<in> insert DELIVERY_CLAUSE (set (clause_ids sla))"
      using x i by auto
    with inj eq show "x = i" by (meson inj_onD)
  qed (use word i in auto)
qed

text \<open>A hash that keeps the bytes, so that it is injective on the ids at hand.\<close>

definition example_hash :: "8 word list \<Rightarrow> jstring" where
  "example_hash bs = 49 # map ucast bs"

theorem failed_clause_read_back_witness:
  "\<exists>j. judge (Some tiny_text) example_observation = Inr j \<and> failed_clause_of j = Some (js ''fast'') \<and>
     match_failed_clause example_hash utf8 (clause_hash example_hash utf8 (js ''fast'')) (Some tiny_sla) = Some (js ''fast'')"
proof -
  have "o_status example_observation \<noteq> Some (JNum PAYMENT_REFUSED)" "tiny_text \<noteq> []"
    by (simp_all add: example_observation_def PAYMENT_REFUSED_def tiny_text_def)
  from judge_sla [OF this tiny_parses example_valid example_wf(2)]
  obtain e where e: "evaluate tiny_sla (Some example_observation) = Inr e"
    and j: "judge (Some tiny_text) example_observation =
      Inr \<lparr>j_mode = Sla_Mode, j_outcome = Some (e_outcome e), j_clauses = e_clauses e, j_fallback_reason = None\<rparr>"
    by blast
  have "assert_sla_document tiny_sla = Inr ()"
    using tiny_parses by (auto simp: parse_sla_def bind_r_Inr_iff)
  then have "find (\<lambda>c. \<not> r_pass c) (e_clauses e) \<noteq> None \<and>
      r_id (the (find (\<lambda>c. \<not> r_pass c) (e_clauses e))) = js ''fast''"
    using e example_valid
    by (auto simp: evaluate_def assert_observation_Some [THEN iffD2] status_null_def status_num_def number_of_def
      example_observation_def tiny_sla_def sla_clauses_def member_def evaluate_clause_def text_of_def
      string_of_value_def evaluate_delivery_def num_le_def num_eq_def)
  then have f: "failed_clause_of \<lparr>j_mode = Sla_Mode, j_outcome = Some (e_outcome e), j_clauses = e_clauses e,
      j_fallback_reason = None\<rparr> = Some (js ''fast'')"
    by (auto simp: failed_clause_of_def)
  have word: "\<forall>x\<in>insert DELIVERY_CLAUSE (set (clause_ids tiny_sla)).
      clause_hash example_hash utf8 x \<noteq> [] \<and> lower (clause_hash example_hash utf8 x) \<noteq> NO_CLAUSE"
    by (simp add: clause_hash_def example_hash_def NO_CLAUSE_def js_def lower_def lower_unit_def)
  have "lower (clause_hash example_hash utf8 DELIVERY_CLAUSE) \<noteq> lower (clause_hash example_hash utf8 (js ''fast''))"
    by code_simp
  then have inj: "inj_on (\<lambda>x. lower (clause_hash example_hash utf8 x)) (insert DELIVERY_CLAUSE (set (clause_ids tiny_sla)))"
    unfolding tiny_ids by (auto simp: inj_on_def)
  show ?thesis
    using failed_clause_read_back [OF example_valid example_wf(2) tiny_parses j f word inj] j f by blast
qed

end
