(* ===== verification/Cre_Reputation.thy ===== *)
theory Cre_Reputation imports Registry_Sdk Sla_Aggregate begin

text \<open>
  \<open>cre/lib/reputation.js\<close>: which services are scored, over which verdicts, and when a score is
  worth a transaction. The map \<open>byService\<close> is a map from service ids to the outcomes pushed so
  far.
\<close>

definition WINDOW_SECONDS :: rat where "WINDOW_SECONDS = 24 * 60 * 60"

record service_entry =
  v_service_id :: jstring
  v_slug :: jstring
  v_status :: service_status

record verdict_entry =
  w_service_id :: jstring
  w_outcome :: json
  w_timestamp :: rat

record service_scores =
  p_service_id :: jstring
  p_slug :: jstring
  p_scores :: reputation_scores

type_synonym buckets = "jstring \<Rightarrow> json list option"

fun open_buckets :: "buckets \<Rightarrow> service_entry list \<Rightarrow> buckets" where
  "open_buckets m [] = m"
| "open_buckets m (s # ss) =
     open_buckets (if v_status s = ACTIVE \<or> v_status s = SUSPENDED then m(v_service_id s \<mapsto> []) else m) ss"

fun fill_buckets :: "rat \<Rightarrow> rat \<Rightarrow> buckets \<Rightarrow> verdict_entry list \<Rightarrow> buckets" where
  "fill_buckets since now m [] = m"
| "fill_buckets since now m (v # vs) =
     fill_buckets since now
       (if w_timestamp v \<le> since \<or> w_timestamp v > now then m
        else case m (w_service_id v) of None \<Rightarrow> m
             | Some bucket \<Rightarrow> m(w_service_id v \<mapsto> bucket @ [w_outcome v])) vs"

definition reputation_for_window ::
  "service_entry list \<Rightarrow> verdict_entry list \<Rightarrow> jsnum \<Rightarrow> rat \<Rightarrow> service_scores list result" where
  "reputation_for_window services verdicts now window_seconds = (case now of
     Fin t \<Rightarrow>
       (let by_service = fill_buckets (t - window_seconds) t (open_buckets Map.empty services) verdicts in
        map_r (\<lambda>s. bind_r (aggregate_window (the (by_service (v_service_id s)))) (\<lambda>scores.
                 Inr \<lparr>p_service_id = v_service_id s, p_slug = v_slug s, p_scores = scores\<rparr>))
          (filter (\<lambda>s. by_service (v_service_id s) \<noteq> None) services))
   | _ \<Rightarrow> Inl (js ''reputationForWindow: `now` must be a Unix timestamp in seconds''))"

text \<open>A published score of \<open>null\<close> is \<open>None\<close>.\<close>

definition scores_changed :: "reputation_scores \<Rightarrow> nat option \<Rightarrow> nat option \<Rightarrow> bool" where
  "scores_changed computed pub_conformance pub_availability \<longleftrightarrow>
     Some (conformance computed) \<noteq> pub_conformance \<or> Some (availability computed) \<noteq> pub_availability"

section \<open>What the buckets hold\<close>

definition listed :: "service_entry list \<Rightarrow> jstring \<Rightarrow> bool" where
  "listed services i \<longleftrightarrow> (\<exists>s\<in>set services. v_service_id s = i \<and> (v_status s = ACTIVE \<or> v_status s = SUSPENDED))"

definition in_window :: "rat \<Rightarrow> rat \<Rightarrow> verdict_entry \<Rightarrow> bool" where
  "in_window since now v \<longleftrightarrow> since < w_timestamp v \<and> w_timestamp v \<le> now"

definition window_outcomes :: "rat \<Rightarrow> rat \<Rightarrow> jstring \<Rightarrow> verdict_entry list \<Rightarrow> json list" where
  "window_outcomes since now i vs = map w_outcome (filter (\<lambda>v. w_service_id v = i \<and> in_window since now v) vs)"

lemma open_buckets_eq:
  "open_buckets m ss i = (if listed ss i then Some [] else m i)"
  by (induction ss arbitrary: m) (auto simp: listed_def)

lemma fill_buckets_eq:
  "fill_buckets since now m vs i = map_option (\<lambda>b. b @ window_outcomes since now i vs) (m i)"
  by (induction vs arbitrary: m)
    (auto simp: window_outcomes_def in_window_def option.map_comp comp_def option.map_ident split: option.splits)

lemma buckets_eq:
  "fill_buckets since now (open_buckets Map.empty ss) vs i =
     (if listed ss i then Some (window_outcomes since now i vs) else None)"
  by (simp add: fill_buckets_eq open_buckets_eq)

lemma reputation_for_window_eq:
  "reputation_for_window services verdicts (Fin t) w =
     map_r (\<lambda>s. bind_r (aggregate_window (window_outcomes (t - w) t (v_service_id s) verdicts)) (\<lambda>scores.
                 Inr \<lparr>p_service_id = v_service_id s, p_slug = v_slug s, p_scores = scores\<rparr>))
       (filter (\<lambda>s. listed services (v_service_id s)) services)"
proof -
  have eq: "map_r f (filter P xs) = map_r g (filter P xs)"
    if "\<And>x. P x \<Longrightarrow> f x = g x" for f g and P :: "service_entry \<Rightarrow> bool" and xs
    using that by (induction xs) auto
  have live: "(\<lambda>s. fill_buckets (t - w) t (open_buckets Map.empty services) verdicts (v_service_id s) \<noteq> None) =
      (\<lambda>s. listed services (v_service_id s))"
    by (auto simp: buckets_eq)
  show ?thesis
    unfolding reputation_for_window_def jsnum.case Let_def live by (rule eq) (simp add: buckets_eq)
qed

lemma live_listing_scores:
  assumes "\<forall>v\<in>set verdicts. w_outcome v \<in> {js_str ''PASS'', js_str ''FAIL'', js_str ''DOWN''}"
  shows "\<exists>out. reputation_for_window services verdicts (Fin now) w = Inr out \<and>
     map p_service_id out = filter (listed services) (map v_service_id services) \<and>
     map p_slug out = map v_slug (filter (\<lambda>s. listed services (v_service_id s)) services) \<and>
     (\<forall>p\<in>set out. aggregate_window (window_outcomes (now - w) now (p_service_id p) verdicts) = Inr (p_scores p) \<and>
        (window_outcomes (now - w) now (p_service_id p) verdicts = [] \<longrightarrow>
           conformance (p_scores p) = 1000 \<and> availability (p_scores p) = 1000))"
proof -
  have known: "\<exists>r. aggregate_window (window_outcomes s e i verdicts) = Inr r" for s e i
  proof -
    have "known_outcomes [''PASS'', ''FAIL'', ''DOWN''] (window_outcomes s e i verdicts)"
      using assms by (auto simp: known_outcomes_def window_outcomes_def entry_outcome_def)
    then show ?thesis by (simp add: aggregate_window_iff Let_def)
  qed
  define sc where "sc i = (SOME r. aggregate_window (window_outcomes (now - w) now i verdicts) = Inr r)" for i
  have sc: "aggregate_window (window_outcomes (now - w) now i verdicts) = Inr (sc i)" for i
    unfolding sc_def using someI_ex [OF known] .
  have out: "reputation_for_window services verdicts (Fin now) w =
      Inr (map (\<lambda>s. \<lparr>p_service_id = v_service_id s, p_slug = v_slug s, p_scores = sc (v_service_id s)\<rparr>)
        (filter (\<lambda>s. listed services (v_service_id s)) services))"
    unfolding reputation_for_window_eq by (rule map_r_pure) (simp add: sc)
  have empty: "conformance r = 1000 \<and> availability r = 1000" if "aggregate_window [] = Inr r" for r
    using that by (auto simp: aggregate_window_iff ratio_def NO_DATA_SCORE_def SCORE_SCALE_def)
  have quiet: "conformance (sc i) = 1000 \<and> availability (sc i) = 1000"
    if "window_outcomes (now - w) now i verdicts = []" for i
    using sc [of i] empty [of "sc i"] that by simp
  have ids: "map v_service_id (filter (\<lambda>s. listed services (v_service_id s)) services) =
      filter (listed services) (map v_service_id services)"
    by (simp add: filter_map comp_def)
  show ?thesis
  proof (intro exI conjI ballI)
    show "reputation_for_window services verdicts (Fin now) w =
      Inr (map (\<lambda>s. \<lparr>p_service_id = v_service_id s, p_slug = v_slug s, p_scores = sc (v_service_id s)\<rparr>)
        (filter (\<lambda>s. listed services (v_service_id s)) services))" by (rule out)
  next
    show "map p_service_id (map (\<lambda>s. \<lparr>p_service_id = v_service_id s, p_slug = v_slug s, p_scores = sc (v_service_id s)\<rparr>)
        (filter (\<lambda>s. listed services (v_service_id s)) services)) = filter (listed services) (map v_service_id services)"
      using ids by (simp add: comp_def)
  qed (use sc quiet in auto)
qed

section \<open>Properties\<close>

text \<open>
  The run succeeds as soon as the outcomes are known ones, and then publishes one entry per
  live listing, in registry order, DEREGISTERED and never-registered services left out; each
  entry is \<open>aggregateWindow\<close> of exactly that service's verdicts inside the half-open window,
  so a listing nobody called is published at 1000 and 1000.
\<close>

theorem every_live_listing_is_scored:
  assumes "\<forall>v\<in>set verdicts. w_outcome v \<in> {js_str ''PASS'', js_str ''FAIL'', js_str ''DOWN''}"
  shows "\<exists>out. reputation_for_window services verdicts (Fin now) w = Inr out \<and>
     map p_service_id out = filter (listed services) (map v_service_id services) \<and>
     (\<forall>p\<in>set out. aggregate_window (window_outcomes (now - w) now (p_service_id p) verdicts) = Inr (p_scores p) \<and>
        (window_outcomes (now - w) now (p_service_id p) verdicts = [] \<longrightarrow>
           conformance (p_scores p) = 1000 \<and> availability (p_scores p) = 1000))"
  using live_listing_scores [OF assms, of services now w] by blast

definition example_services :: "service_entry list" where
  "example_services = [\<lparr>v_service_id = js ''a'', v_slug = js ''a'', v_status = ACTIVE\<rparr>,
     \<lparr>v_service_id = js ''b'', v_slug = js ''b'', v_status = DEREGISTERED\<rparr>]"

theorem every_live_listing_is_scored_witness:
  "\<exists>out. reputation_for_window example_services [\<lparr>w_service_id = js ''b'', w_outcome = js_str ''FAIL'', w_timestamp = 7\<rparr>]
     (Fin 10) 5 = Inr out \<and> map p_service_id out = [js ''a'']"
  using every_live_listing_is_scored
    [of "[\<lparr>w_service_id = js ''b'', w_outcome = js_str ''FAIL'', w_timestamp = 7\<rparr>]" example_services 10 5]
  by (auto simp: example_services_def listed_def)

text \<open>
  Two runs one window apart share no boundary event and lose none: of a verdict dated in the two
  windows together, exactly one of the two runs counts it.
\<close>

theorem adjacent_windows_partition:
  assumes "0 \<le> w" "now - w < w_timestamp v" "w_timestamp v \<le> now + w" "listed services (w_service_id v)"
  shows "(w_outcome v \<in> set (the (fill_buckets (now - w) now (open_buckets Map.empty services) [v] (w_service_id v)))) \<longleftrightarrow>
     \<not> (w_outcome v \<in> set (the (fill_buckets now (now + w) (open_buckets Map.empty services) [v] (w_service_id v))))"
  unfolding buckets_eq using assms by (auto simp: window_outcomes_def in_window_def)

theorem adjacent_windows_partition_witness:
  "w_outcome \<lparr>w_service_id = js ''a'', w_outcome = JNull, w_timestamp = 10\<rparr> \<in>
     set (the (fill_buckets 5 10 (open_buckets Map.empty example_services)
       [\<lparr>w_service_id = js ''a'', w_outcome = JNull, w_timestamp = 10\<rparr>] (js ''a'')))"
  using adjacent_windows_partition [of 5 10 "\<lparr>w_service_id = js ''a'', w_outcome = JNull, w_timestamp = 10\<rparr>" example_services]
  by (simp add: listed_def example_services_def)

end
