(* ===== verification/Log_Scan.thy ===== *)
theory Log_Scan imports JS_Text begin

text \<open>
  \<open>cre/lib/log-range.js\<close>, \<open>cre/lib/config.js\<close> and the \<open>scan\<close> of \<open>packages/sdk/arc.js\<close>: splitting
  a log scan into block ranges an RPC will answer, and reading the ranges back in batches.
  The JSON-RPC \<open>getLogs\<close> is a parameter.
\<close>

section \<open>blockRangeChunks\<close>

type_synonym block_range = "int \<times> int"

text \<open>The loop, for a positive step; the guard of the function rules out every other.\<close>

function chunk_loop :: "int \<Rightarrow> int \<Rightarrow> int \<Rightarrow> block_range list" where
  "chunk_loop from_b to_b step =
     (if from_b \<le> to_b \<and> 0 < step
      then (from_b, let e = from_b + step - 1 in if e > to_b then to_b else e) # chunk_loop (from_b + step) to_b step
      else [])"
  by pat_completeness auto
termination
  by (relation "measure (\<lambda>(f, t, s). nat (t - f + 1))") auto

declare chunk_loop.simps [simp del]

definition block_range_chunks :: "int \<Rightarrow> int \<Rightarrow> int \<Rightarrow> block_range list result" where
  "block_range_chunks from_b to_b max_range =
     (if max_range \<le> 0 then Inl (js ''blockRangeChunks: maxRange must be positive, got '' @ dec_int max_range)
      else Inr (chunk_loop from_b to_b max_range))"

lemma chunk_loop_covers: "0 < step \<Longrightarrow> concat (map (\<lambda>(a, b). [a..b]) (chunk_loop f t step)) = [f..t]"
proof (induction f t step rule: chunk_loop.induct)
  case (1 f t step)
  show ?case
  proof (cases "f \<le> t")
    case True
    define e where "e = (if f + step - 1 > t then t else f + step - 1)"
    have "concat (map (\<lambda>(a, b). [a..b]) (chunk_loop f t step)) =
        [f..e] @ concat (map (\<lambda>(a, b). [a..b]) (chunk_loop (f + step) t step))"
      using True 1(2) by (subst chunk_loop.simps) (simp add: e_def Let_def)
    also have "\<dots> = [f..e] @ [f + step..t]" using 1 True by simp
    also have "\<dots> = [f..t]"
    proof (cases "f + step - 1 > t")
      case True
      then show ?thesis by (simp add: e_def)
    next
      case False
      have "[f..t] = [f..f + step - 1] @ [f + step..t]"
      proof (cases "f + step = t + 1")
        case True
        then have "f + step - 1 = t" "[f + step..t] = []" by simp_all
        then show ?thesis by simp
      qed (use False 1(2) in \<open>simp add: upto_split1 [of f "f + step" t]\<close>)
      then show ?thesis using False by (simp add: e_def)
    qed
    finally show ?thesis .
  qed (simp add: chunk_loop.simps [of f])
qed

lemma chunk_loop_width:
  "0 < step \<Longrightarrow> (a, b) \<in> set (chunk_loop f t step) \<Longrightarrow> f \<le> a \<and> a \<le> b \<and> b \<le> t \<and> b - a + 1 \<le> step"
proof (induction f t step rule: chunk_loop.induct)
  case (1 f t step)
  show ?case
  proof (cases "f \<le> t \<and> 0 < step")
    case True
    have "(a, b) = (f, let e = f + step - 1 in if e > t then t else e) \<or> (a, b) \<in> set (chunk_loop (f + step) t step)"
      using 1(3) True by (subst (asm) chunk_loop.simps) simp
    then show ?thesis
    proof
      assume "(a, b) \<in> set (chunk_loop (f + step) t step)"
      then show ?thesis using 1(1) [OF True] True by auto
    qed (use True in \<open>auto simp: Let_def split: if_splits\<close>)
  next
    case False
    then show ?thesis using 1(3) by (subst (asm) chunk_loop.simps) auto
  qed
qed

section \<open>The scan of the SDK\<close>

text \<open>
  \<open>scan\<close> builds its chunks with the same loop and no guard on \<open>maxBlockRange\<close>: \<open>None\<close> is a
  loop that never ends.
\<close>

partial_function (option) scan_chunks :: "int \<Rightarrow> int \<Rightarrow> int \<Rightarrow> block_range list option" where
  "scan_chunks from_b latest max_range =
     (if from_b \<le> latest then
        Option.bind (scan_chunks (from_b + max_range) latest max_range) (\<lambda>rest.
        Some ((from_b, if from_b + max_range - 1 > latest then latest else from_b + max_range - 1) # rest))
      else Some [])"

text \<open>\<open>results.forEach((page, offset) => pages[i + offset] = page)\<close>\<close>

fun write_pages :: "'a list \<Rightarrow> nat \<Rightarrow> 'a list \<Rightarrow> 'a list" where
  "write_pages pages i [] = pages"
| "write_pages pages i (r # rs) = write_pages (pages[i := r]) (i + 1) rs"

text \<open>
  One pass per batch of \<open>scanConcurrency\<close> requests; \<open>Promise.all\<close> rejects with the first
  failure. A width of 0 never advances.
\<close>

partial_function (option) scan_batches ::
  "(block_range \<Rightarrow> 'log list result) \<Rightarrow> block_range list \<Rightarrow> nat \<Rightarrow> nat \<Rightarrow> 'log list list \<Rightarrow> 'log list result option" where
  "scan_batches get_logs chunks width i pages =
     (if i < length chunks then
        (case map_r get_logs (take width (drop i chunks)) of
           Inl e \<Rightarrow> Some (Inl e)
         | Inr results \<Rightarrow> scan_batches get_logs chunks width (i + width) (write_pages pages i results))
      else Some (Inr (concat pages)))"

definition arc_scan ::
  "(block_range \<Rightarrow> 'log list result) \<Rightarrow> int \<Rightarrow> int \<Rightarrow> int \<Rightarrow> nat \<Rightarrow> 'log list result option" where
  "arc_scan get_logs start latest max_range width =
     Option.bind (scan_chunks start latest max_range) (\<lambda>chunks.
     scan_batches get_logs chunks width 0 (replicate (length chunks) []))"

section \<open>config.js\<close>

definition stringify_value :: "json option \<Rightarrow> jstring" where
  "stringify_value v = (case v of None \<Rightarrow> js ''undefined'' | Some w \<Rightarrow> stringify w)"

definition assert_block_time_seconds :: "json option \<Rightarrow> rat result" where
  "assert_block_time_seconds v =
     (case (case v of Some (JStr s) \<Rightarrow> number_of_string s | Some (JNum n) \<Rightarrow> n | _ \<Rightarrow> NotNum) of
        Fin q \<Rightarrow> if 0 < q then Inr q
                 else Inl (js ''aggregate config: blockTimeSeconds must be a positive number of seconds, got '' @ stringify_value v)
      | _ \<Rightarrow> Inl (js ''aggregate config: blockTimeSeconds must be a positive number of seconds, got '' @ stringify_value v))"

text \<open>\<open>BigInt(value)\<close>: a whole number, a boolean, or a string of one.\<close>

definition bigint_of_value :: "json \<Rightarrow> int option" where
  "bigint_of_value v = (case v of
     JNum (Fin q) \<Rightarrow> if is_whole q then Some \<lfloor>q\<rfloor> else None
   | JBool b \<Rightarrow> Some (if b then 1 else 0)
   | JStr s \<Rightarrow> bigint_of_string s
   | JArr vs \<Rightarrow> bigint_of_string (to_str (JArr vs))
   | _ \<Rightarrow> None)"

definition assert_log_chunk_blocks :: "json option \<Rightarrow> int result" where
  "assert_log_chunk_blocks v =
     (case v of
        None \<Rightarrow> Inr 10000
      | Some w \<Rightarrow>
          if w = JNull \<or> w = JStr [] then Inr 10000
          else case bigint_of_value w of
            None \<Rightarrow> Inl (js ''aggregate config: logChunkBlocks must be a whole number of blocks, got '' @ stringify w)
          | Some blocks \<Rightarrow>
              if blocks \<le> 0 then Inl (js ''aggregate config: logChunkBlocks must be positive, got '' @ stringify w)
              else Inr blocks)"

section \<open>The scan reads every log once, in block order\<close>

lemma scan_chunks_eq: "0 < m \<Longrightarrow> scan_chunks f t m = Some (chunk_loop f t m)"
proof (induction f t m rule: chunk_loop.induct)
  case (1 f t m)
  then show ?case by (subst scan_chunks.simps, subst chunk_loop.simps) (simp add: Let_def)
qed

lemma scan_chunks_returns: "scan_chunks f t m = Some r \<Longrightarrow> \<not> (m \<le> 0 \<and> f \<le> t)"
proof (rule scan_chunks.raw_induct [where P = "\<lambda>f t m r. \<not> (m \<le> 0 \<and> f \<le> t)"])
  fix scan :: "int \<Rightarrow> int \<Rightarrow> int \<Rightarrow> block_range list option" and f t m r
  assume IH: "\<And>f t m r. scan f t m = Some r \<Longrightarrow> \<not> (m \<le> 0 \<and> f \<le> t)"
    and step: "(if f \<le> t then Option.bind (scan (f + m) t m) (\<lambda>rest.
        Some ((f, if t < f + m - 1 then t else f + m - 1) # rest)) else Some []) = Some r"
  show "\<not> (m \<le> 0 \<and> f \<le> t)"
  proof
    assume a: "m \<le> 0 \<and> f \<le> t"
    then obtain r' where "scan (f + m) t m = Some r'" using step by (auto simp: bind_eq_Some_conv)
    then show False using IH [of "f + m" t m r'] a by simp
  qed
qed

lemma scan_chunks_diverges: "m \<le> 0 \<Longrightarrow> f \<le> t \<Longrightarrow> scan_chunks f t m = None"
  using scan_chunks_returns by (cases "scan_chunks f t m") blast+

lemma map_r_append:
  "map_r f (xs @ ys) = bind_r (map_r f xs) (\<lambda>a. bind_r (map_r f ys) (\<lambda>b. Inr (a @ b)))"
  by (induction xs) (auto simp: bind_r_def split: sum.splits)

lemma map_r_length: "map_r f xs = Inr ys \<Longrightarrow> length ys = length xs"
  by (auto simp: map_r_Inr_iff dest: list_all2_lengthD)

lemma write_pages_append:
  "length rs \<le> n \<Longrightarrow> write_pages (ps @ replicate n x) (length ps) rs = (ps @ rs) @ replicate (n - length rs) x"
proof (induction rs arbitrary: ps n)
  case (Cons r rs)
  then obtain m where n: "n = Suc m" by (cases n) auto
  have "write_pages (ps @ replicate n x) (length ps) (r # rs) = write_pages ((ps @ [r]) @ replicate m x) (length (ps @ [r])) rs"
    by (simp add: n)
  also have "\<dots> = ((ps @ [r]) @ rs) @ replicate (m - length rs) x"
    using Cons.prems n by (intro Cons.IH) simp
  finally show ?case by (simp add: n)
qed simp

lemma scan_batches_eq:
  assumes "0 < width"
  shows "map_r get (take i chunks) = Inr ps \<Longrightarrow>
     scan_batches get chunks width i (ps @ replicate (length chunks - i) []) =
     Some (bind_r (map_r get chunks) (\<lambda>pages. Inr (concat pages)))"
proof (induction "length chunks - i" arbitrary: i ps rule: less_induct)
  case less
  show ?case
  proof (cases "i < length chunks")
    case False
    then show ?thesis using less.prems by (subst scan_batches.simps) simp
  next
    case True
    have len: "length ps = i" using map_r_length [OF less.prems] True by simp
    let ?b = "take width (drop i chunks)"
    have split: "map_r get (take (i + width) chunks) = bind_r (map_r get ?b) (\<lambda>b. Inr (ps @ b))"
      using less.prems by (simp add: take_add map_r_append)
    show ?thesis
    proof (cases "map_r get ?b")
      case (Inl e)
      have "map_r get chunks = bind_r (map_r get (take (i + width) chunks)) (\<lambda>a.
          bind_r (map_r get (drop (i + width) chunks)) (\<lambda>b. Inr (a @ b)))"
        by (metis append_take_drop_id map_r_append)
      then show ?thesis using Inl True split by (subst scan_batches.simps) simp
    next
      case (Inr rs)
      have "length rs \<le> length chunks - i" using map_r_length [OF Inr] by simp
      then have w: "write_pages (ps @ replicate (length chunks - i) []) i rs =
          (ps @ rs) @ replicate (length chunks - i - length rs) []"
        using write_pages_append [of rs "length chunks - i" ps "[]"] len by simp
      have "replicate (length chunks - i - length rs) ([] :: 'a list) = replicate (length chunks - (i + width)) []"
        using map_r_length [OF Inr] by simp
      moreover have "scan_batches get chunks width (i + width) ((ps @ rs) @ replicate (length chunks - (i + width)) []) =
          Some (bind_r (map_r get chunks) (\<lambda>pages. Inr (concat pages)))"
        using True assms Inr split by (intro less.hyps) auto
      ultimately show ?thesis using True Inr w by (subst scan_batches.simps) simp
    qed
  qed
qed

lemma arc_scan_eq:
  assumes "0 < m" "0 < width"
  shows "arc_scan get f t m width = Some (bind_r (map_r get (chunk_loop f t m)) (\<lambda>pages. Inr (concat pages)))"
  using scan_batches_eq [OF assms(2), of get 0 "chunk_loop f t m" "[]"]
  by (simp add: arc_scan_def scan_chunks_eq [OF assms(1)])

lemma filter_split:
  fixes block :: "'l \<Rightarrow> int"
  assumes "sorted (map block chain)"
  shows "e \<le> t \<Longrightarrow> f \<le> e + 1 \<Longrightarrow> filter (\<lambda>l. f \<le> block l \<and> block l \<le> e) chain @ filter (\<lambda>l. e + 1 \<le> block l \<and> block l \<le> t) chain =
     filter (\<lambda>l. f \<le> block l \<and> block l \<le> t) chain"
  using assms
proof (induction chain)
  case (Cons l chain)
  show ?case
  proof (cases "block l \<le> e")
    case False
    then have "filter (\<lambda>l. f \<le> block l \<and> block l \<le> e) chain = []"
      using Cons.prems by (auto simp: filter_empty_conv)
    then show ?thesis using Cons False by auto
  qed (use Cons in auto)
qed simp

lemma chunks_filter:
  fixes block :: "'l \<Rightarrow> int"
  assumes "sorted (map block chain)"
  shows "0 < m \<Longrightarrow> concat (map (\<lambda>(a, b). filter (\<lambda>l. a \<le> block l \<and> block l \<le> b) chain) (chunk_loop f t m)) =
     filter (\<lambda>l. f \<le> block l \<and> block l \<le> t) chain"
proof (induction f t m rule: chunk_loop.induct)
  case (1 f t m)
  show ?case
  proof (cases "f \<le> t")
    case True
    have IH: "concat (map (\<lambda>(a, b). filter (\<lambda>l. a \<le> block l \<and> block l \<le> b) chain) (chunk_loop (f + m) t m)) =
        filter (\<lambda>l. f + m \<le> block l \<and> block l \<le> t) chain" using 1 True by simp
    show ?thesis
    proof (cases "f + m - 1 > t")
      case True
      then have "filter (\<lambda>l. f + m \<le> block l \<and> block l \<le> t) chain = []" by (auto simp: filter_empty_conv)
      then show ?thesis using IH True \<open>f \<le> t\<close> 1(2) by (subst chunk_loop.simps) simp
    next
      case False
      then show ?thesis using IH True 1(2) filter_split [OF assms, of "f + m - 1" t f]
        by (subst chunk_loop.simps) simp
    qed
  next
    case False
    then show ?thesis by (simp add: chunk_loop.simps [of f] filter_empty_conv)
  qed
qed

section \<open>Properties\<close>

text \<open>
  \<open>blockRangeChunks\<close> throws exactly on a width that is not positive; otherwise it ends, and
  its inclusive ranges, none wider than the width and none empty, laid end to end are the
  blocks of the scan: each once, in ascending order, none skipped.
\<close>

theorem chunks_cover_exactly:
  "(is_ok (block_range_chunks f t m) \<longleftrightarrow> 0 < m) \<and>
   (\<forall>chunks. block_range_chunks f t m = Inr chunks \<longrightarrow>
      concat (map (\<lambda>(a, b). [a..b]) chunks) = [f..t] \<and>
      (\<forall>(a, b)\<in>set chunks. f \<le> a \<and> a \<le> b \<and> b \<le> t \<and> b - a + 1 \<le> m))"
  using chunk_loop_covers [of m f t] chunk_loop_width [of m _ _ f t]
  by (auto simp: block_range_chunks_def)

theorem chunks_cover_exactly_witness:
  "\<exists>chunks. block_range_chunks 5 27 10 = Inr chunks \<and> concat (map (\<lambda>(a, b). [a..b]) chunks) = [5..27]"
  using chunks_cover_exactly [of 5 27 10] by (auto simp: is_ok_iff)

text \<open>
  C36: The SDK's batched scan, with a positive chunk width and a positive concurrency, returns
  every log of the range exactly once and in chain order, whatever the width and the
  concurrency: it is one unchunked read of the same range.
\<close>

theorem scan_is_one_read:
  fixes block :: "'l \<Rightarrow> int"
  assumes "sorted (map block chain)" "0 < max_range" "0 < width"
    and "\<And>a b. get (a, b) = Inr (filter (\<lambda>l. a \<le> block l \<and> block l \<le> b) chain)"
  shows "arc_scan get start latest max_range width =
     Some (Inr (filter (\<lambda>l. start \<le> block l \<and> block l \<le> latest) chain))"
proof -
  have "get = (\<lambda>r. Inr (case r of (a, b) \<Rightarrow> filter (\<lambda>l. a \<le> block l \<and> block l \<le> b) chain))"
    using assms(4) by (auto simp: fun_eq_iff)
  then have "map_r get (chunk_loop start latest max_range) =
      Inr (map (\<lambda>(a, b). filter (\<lambda>l. a \<le> block l \<and> block l \<le> b) chain) (chunk_loop start latest max_range))"
    by (simp add: map_r_pure [where g = "\<lambda>(a, b). filter (\<lambda>l. a \<le> block l \<and> block l \<le> b) chain"])
  then show ?thesis
    using chunks_filter [OF assms(1,2), of start latest] by (simp add: arc_scan_eq [OF assms(2,3)])
qed

theorem scan_is_one_read_witness:
  "arc_scan (\<lambda>(a, b). Inr (filter (\<lambda>l. a \<le> l \<and> l \<le> b) [1, 4, 4, 9 :: int])) 2 9 3 8 = Some (Inr [4, 4, 9])"
  using scan_is_one_read [of id "[1, 4, 4, 9 :: int]" 3 8 "\<lambda>(a, b). Inr (filter (\<lambda>l. a \<le> l \<and> l \<le> b) [1, 4, 4, 9])" 2 9]
  by simp

text \<open>
  The two chunkings agree on every positive width, and there the SDK's ends; a width the
  workflow's version rejects sends the SDK's loop round for ever as soon as the range is not
  empty.
\<close>

theorem sdk_chunking_matches_workflow:
  "scan_chunks f t m = (case block_range_chunks f t m of
     Inr chunks \<Rightarrow> Some chunks | Inl _ \<Rightarrow> if f \<le> t then None else Some [])"
proof (cases "0 < m")
  case True
  then show ?thesis by (simp add: block_range_chunks_def scan_chunks_eq)
next
  case False
  then show ?thesis
    using scan_chunks_diverges [of m f t] by (simp add: block_range_chunks_def scan_chunks.simps [of f])
qed

text \<open>
  A chunk width that passes \<open>assertLogChunkBlocks\<close> is one \<open>blockRangeChunks\<close> accepts, an absent
  one is the 10,000 default, and a block time that passes is a positive number.
\<close>

theorem config_is_safe:
  assumes "assert_log_chunk_blocks v = Inr w" "assert_block_time_seconds u = Inr q"
  shows "is_ok (block_range_chunks f t w) \<and> (v = None \<longrightarrow> w = 10000) \<and> 0 < q"
  using assms by (auto simp: assert_log_chunk_blocks_def assert_block_time_seconds_def block_range_chunks_def
      split: option.splits if_splits jsnum.splits)

theorem config_is_safe_witness: "is_ok (block_range_chunks 0 100 2500)"
proof -
  have "assert_log_chunk_blocks (Some (js_str ''2500'')) = Inr 2500" "assert_block_time_seconds (Some (JNum (Fin (1/2)))) = Inr (1/2)"
    by code_simp+
  from config_is_safe [OF this] show ?thesis by blast
qed

end
