(* ===== verification/Proxy_Http.thy ===== *)
theory Proxy_Http imports JS_Text begin

text \<open>
  \<open>proxy/src/http.js\<close> and \<open>cre/lib/http-request.js\<close>: the headers that cross the proxy, the
  request body as hex and back, which hosts an upstream may name, and joining the agent's
  path onto the provider's base. The platform's URL parser is a parameter.
\<close>

section \<open>Headers\<close>

definition DROP_FROM_REQUEST :: "jstring list" where
  "DROP_FROM_REQUEST = map js
     [''host'', ''connection'', ''keep-alive'', ''proxy-authenticate'', ''proxy-authorization'', ''te'', ''trailer'',
      ''transfer-encoding'', ''upgrade'', ''content-length'', ''accept-encoding'']"

definition DROP_FROM_RESPONSE :: "jstring list" where
  "DROP_FROM_RESPONSE = map js
     [''connection'', ''keep-alive'', ''proxy-authenticate'', ''transfer-encoding'', ''upgrade'', ''content-encoding'',
      ''content-length'']"

datatype header_value = One jstring | Many "jstring list" | Undefined

text \<open>\<open>out[name] = value\<close> on a plain object.\<close>

fun assoc_put :: "'k \<Rightarrow> 'v \<Rightarrow> ('k \<times> 'v) list \<Rightarrow> ('k \<times> 'v) list" where
  "assoc_put k v [] = [(k, v)]"
| "assoc_put k v (p # ps) = (if fst p = k then (k, v) # ps else p # assoc_put k v ps)"

fun forward_request :: "(jstring \<times> jstring) list \<Rightarrow> (jstring \<times> header_value) list \<Rightarrow> (jstring \<times> jstring) list" where
  "forward_request out [] = out"
| "forward_request out ((name, value) # rest) =
     forward_request
       (if value = Undefined \<or> lower name \<in> set DROP_FROM_REQUEST then out
        else assoc_put name (case value of One v \<Rightarrow> v | Many vs \<Rightarrow> join_with (js '', '') vs | Undefined \<Rightarrow> []) out) rest"

definition forward_request_headers :: "(jstring \<times> header_value) list \<Rightarrow> (jstring \<times> jstring) list" where
  "forward_request_headers headers = forward_request [] headers"

fun forward_response :: "(jstring \<times> jstring) list \<Rightarrow> (jstring \<times> jstring) list \<Rightarrow> (jstring \<times> jstring) list" where
  "forward_response out [] = out"
| "forward_response out ((name, value) # rest) =
     forward_response (if lower name \<in> set DROP_FROM_RESPONSE then out else assoc_put name value out) rest"

definition forward_response_headers :: "(jstring \<times> jstring) list \<Rightarrow> (jstring \<times> jstring) list" where
  "forward_response_headers headers = forward_response [] headers"

section \<open>The body as hex\<close>

definition hex_byte :: "8 word \<Rightarrow> jstring" where
  \<comment> \<open>\<open>byte.toString(16).padStart(2, '0')\<close>\<close>
  "hex_byte b = [hex_digit (unat b div 16), hex_digit (unat b mod 16)]"

definition body_to_hex :: "8 word list option \<Rightarrow> jstring option" where
  "body_to_hex body = (case body of
     None \<Rightarrow> None
   | Some bytes \<Rightarrow> if bytes = [] then None else Some (js ''0x'' @ concat (map hex_byte bytes)))"

fun hex_pairs :: "nat \<Rightarrow> jstring \<Rightarrow> 8 word list result" where
  "hex_pairs i (a # b # rest) =
     (if is_hex a \<and> is_hex b then bind_r (hex_pairs (i + 1) rest) (\<lambda>bytes. Inr (of_nat (un_radix 16 [a, b]) # bytes))
      else Inl (js ''request body is not valid hex: '' @ quote [a, b] @ js '' at byte '' @ dec i))"
| "hex_pairs i _ = Inr []"

text \<open>The \<open>body\<close> field spread into the request: \<open>Inr None\<close> is the empty object.\<close>

definition request_body_field :: "jstring option \<Rightarrow> 8 word list option result" where
  "request_body_field body_hex = (case body_hex of
     None \<Rightarrow> Inr None
   | Some h \<Rightarrow>
       (let digits = (if starts_with h (js ''0x'') \<or> starts_with h (js ''0X'') then drop 2 h else h) in
        if odd (length digits) then
          Inl (js ''request body is not valid hex: odd number of digits ('' @ dec (length digits) @ js '')'')
        else bind_r (hex_pairs 0 digits) (\<lambda>bytes. Inr (Some bytes))))"

section \<open>Private hosts\<close>

fun is_private_ipv4 :: "nat list \<Rightarrow> bool" where
  "is_private_ipv4 [a, b, c, d] \<longleftrightarrow>
     a = 0 \<or> a = 10 \<or> a = 127 \<or> a = 169 \<and> b = 254 \<or> a = 172 \<and> 16 \<le> b \<and> b \<le> 31 \<or> a = 192 \<and> b = 168 \<or>
     a = 100 \<and> 64 \<le> b \<and> b \<le> 127 \<or> a = 255 \<and> b = 255 \<and> c = 255 \<and> d = 255"
| "is_private_ipv4 _ \<longleftrightarrow> False"

definition octet :: "jstring \<Rightarrow> nat option" where
  "octet p = (if 1 \<le> length p \<and> length p \<le> 3 \<and> list_all is_digit p \<and> undec p \<le> 255 then Some (undec p) else None)"

definition parse_ipv4 :: "jstring \<Rightarrow> nat list option" where
  "parse_ipv4 host =
     (let parts = split_on 46 host in
      if length parts \<noteq> 4 then None
      else if list_all (\<lambda>p. octet p \<noteq> None) parts then Some (map (\<lambda>p. the (octet p)) parts) else None)"

text \<open>\<open>host.split('::')\<close>: the pieces between the leftmost non-overlapping separators.\<close>

fun split_double :: "jstring \<Rightarrow> jstring list" where
  "split_double (a # b # rest) =
     (if a = 58 \<and> b = 58 then [] # split_double rest
      else (case split_double (b # rest) of [] \<Rightarrow> [[a]] | w # ws \<Rightarrow> (a # w) # ws))"
| "split_double s = [s]"

fun group_bytes :: "jstring list \<Rightarrow> nat list option" where
  "group_bytes [] = Some []"
| "group_bytes (g # gs) =
     (if 46 \<in> set g then
        (if gs \<noteq> [] then None else parse_ipv4 g)
      else if 1 \<le> length g \<and> length g \<le> 4 \<and> list_all is_hex g then
        map_option (\<lambda>rest. un_radix 16 g div 256 # un_radix 16 g mod 256 # rest) (group_bytes gs)
      else None)"

definition half_bytes :: "jstring \<Rightarrow> nat list option" where
  "half_bytes part = (if part = [] then Some [] else group_bytes (split_on 58 part))"

definition parse_ipv6 :: "jstring \<Rightarrow> nat list option" where
  "parse_ipv6 host = (case split_double host of
     [h] \<Rightarrow> (case half_bytes h of Some b \<Rightarrow> if length b = 16 then Some b else None | None \<Rightarrow> None)
   | [h, t] \<Rightarrow>
       (case (half_bytes h, half_bytes t) of
          (Some b, Some e) \<Rightarrow>
            if length b + length e \<le> 16 then Some (b @ replicate (16 - length b - length e) 0 @ e) else None
        | _ \<Rightarrow> None)
   | _ \<Rightarrow> None)"

definition is_private_ipv6 :: "nat list \<Rightarrow> bool" where
  "is_private_ipv6 b =
     (if list_all (\<lambda>x. x = 0) (take 10 b) \<and> b ! 10 = 255 \<and> b ! 11 = 255 then is_private_ipv4 (drop 12 b)
      else if list_all (\<lambda>x. x = 0) (take 12 b) then is_private_ipv4 (drop 12 b)
      else b ! 0 div 2 * 2 = 252 \<or> b ! 0 = 254 \<and> b ! 1 div 64 * 64 = 128)"

definition is_private_host :: "jstring \<Rightarrow> bool" where
  "is_private_host hostname =
     (if starts_with hostname (js ''['') \<and> ends_with hostname (js '']'') then
        (case parse_ipv6 (butlast (tl hostname)) of Some bytes \<Rightarrow> is_private_ipv6 bytes | None \<Rightarrow> True)
      else case parse_ipv4 hostname of
        Some v4 \<Rightarrow> is_private_ipv4 v4
      | None \<Rightarrow> lower hostname = js ''localhost'' \<or> ends_with (lower hostname) (js ''.localhost''))"

section \<open>Upstream URLs\<close>

text \<open>
  A parsed URL: the components the proxy reads, the rest (credentials, port, fragment) in one
  field. \<open>parse\<close> is \<open>new URL(s)\<close> and \<open>resolve\<close> is \<open>new URL(s, base)\<close>; \<open>None\<close> is their TypeError.
\<close>

record url =
  u_protocol :: jstring
  u_hostname :: jstring
  u_pathname :: jstring
  u_search :: jstring
  u_rest :: jstring

definition assert_relayable_url :: "(jstring \<Rightarrow> url option) \<Rightarrow> jstring \<Rightarrow> bool \<Rightarrow> url result" where
  "assert_relayable_url parse raw allow_private = (case parse raw of
     None \<Rightarrow> Inl (js ''upstream url is not a URL: '' @ raw)
   | Some u \<Rightarrow>
       if u_protocol u \<noteq> js ''https:'' \<and> u_protocol u \<noteq> js ''http:'' then
         Inl (js ''upstream url must be http(s), got '' @ u_protocol u)
       else if \<not> allow_private \<and> is_private_host (u_hostname u) then
         Inl (js ''upstream url resolves to a private host: '' @ u_hostname u)
       else Inr u)"

definition base_path :: "url \<Rightarrow> jstring" where
  "base_path base = (if ends_with (u_pathname base) (js ''/'') then u_pathname base else u_pathname base @ js ''/'')"

definition join_upstream :: "(jstring \<Rightarrow> url \<Rightarrow> url option) \<Rightarrow> url \<Rightarrow> jstring \<Rightarrow> jstring \<Rightarrow> url result" where
  "join_upstream resolve base rest search =
     (if rest = [] then Inr (base\<lparr>u_search := search\<rparr>)
      else case resolve (base_path base @ rest) base of
        None \<Rightarrow> Inl (js ''Invalid URL'')
      | Some target \<Rightarrow>
          if \<not> starts_with (u_pathname target) (base_path base) \<and> u_pathname target \<noteq> u_pathname base then
            Inl (js ''request path escapes the provider base path'')
          else Inr (target\<lparr>u_search := search\<rparr>))"

section \<open>Header facts\<close>

lemma assoc_put_lookup: "map_of (assoc_put k v ps) = (map_of ps)(k \<mapsto> v)"
  by (induction ps) (auto simp: fun_eq_iff)

lemma assoc_put_keys: "fst ` set (assoc_put k v ps) = insert k (fst ` set ps)"
  by (induction ps) auto

text \<open>What one header contributes: \<open>None\<close> when it is dropped.\<close>

definition kept :: "jstring \<Rightarrow> header_value \<Rightarrow> jstring option" where
  "kept name value =
     (if value = Undefined \<or> lower name \<in> set DROP_FROM_REQUEST then None
      else Some (case value of One v \<Rightarrow> v | Many vs \<Rightarrow> join_with (js '', '') vs | Undefined \<Rightarrow> []))"

lemma forward_request_step:
  "forward_request out ((name, value) # rest) =
     forward_request (case kept name value of None \<Rightarrow> out | Some v \<Rightarrow> assoc_put name v out) rest"
  by (simp add: kept_def)

lemma forward_request_lookup:
  "distinct (map fst hs) \<Longrightarrow>
   map_of (forward_request out hs) n =
     (case Option.bind (map_of hs n) (kept n) of None \<Rightarrow> map_of out n | Some x \<Rightarrow> Some x)"
proof (induction hs arbitrary: out)
  case (Cons h hs)
  obtain m v where h: "h = (m, v)" by (cases h)
  have "map_of hs m = None" using Cons.prems h by (simp add: map_of_eq_None_iff)
  then show ?case
    using Cons.IH [of out] Cons.IH [of "assoc_put m (the (kept m v)) out"] Cons.prems
    unfolding h forward_request_step
    by (cases "n = m"; cases "kept m v") (simp_all add: assoc_put_lookup cong: option.case_cong)
qed simp

lemma forward_request_headers_lookup:
  "distinct (map fst hs) \<Longrightarrow> map_of (forward_request_headers hs) n = Option.bind (map_of hs n) (kept n)"
  by (simp add: forward_request_headers_def forward_request_lookup split: option.splits)

lemma forward_response_lookup:
  "distinct (map fst hs) \<Longrightarrow>
   map_of (forward_response out hs) n =
     (case map_of hs n of Some v \<Rightarrow> (if lower n \<in> set DROP_FROM_RESPONSE then map_of out n else Some v) | None \<Rightarrow> map_of out n)"
proof (induction hs arbitrary: out)
  case (Cons h hs)
  obtain m v where h: "h = (m, v)" by (cases h)
  have "map_of hs m = None" using Cons.prems h by (simp add: map_of_eq_None_iff)
  then show ?case
    using Cons.IH [of out] Cons.IH [of "assoc_put m v out"] Cons.prems
    unfolding h by (cases "n = m") (auto simp: assoc_put_lookup split: option.splits)
qed simp

section \<open>Hex facts\<close>

lemma hex_digit_props:
  assumes "d < 16"
  shows "is_hex (hex_digit d)" "hex_num (hex_digit d) = d"
proof -
  have "d = 0 \<or> d = 1 \<or> d = 2 \<or> d = 3 \<or> d = 4 \<or> d = 5 \<or> d = 6 \<or> d = 7 \<or> d = 8 \<or> d = 9 \<or> d = 10 \<or>
      d = 11 \<or> d = 12 \<or> d = 13 \<or> d = 14 \<or> d = 15"
    using assms by presburger
  then show "is_hex (hex_digit d)" "hex_num (hex_digit d) = d"
    by (auto simp: is_hex_def hex_num_def hex_digit_def is_digit_def digit_val_def)
qed

lemma hex_pairs_bytes: "hex_pairs i (concat (map hex_byte bs)) = Inr bs"
proof (induction bs arbitrary: i)
  case (Cons b bs)
  have "unat b < 2 ^ LENGTH(8)" by (rule unsigned_less)
  then have lt: "unat b div 16 < 16" by simp
  have "un_radix 16 (hex_byte b) = unat b"
    by (simp add: hex_byte_def un_radix_def hex_digit_props lt)
  then show ?case using Cons by (simp add: hex_byte_def hex_digit_props lt)
qed simp

lemma hex_pairs_length: "hex_pairs i ds = Inr bs \<Longrightarrow> length bs = length ds div 2"
  by (induction i ds arbitrary: bs rule: hex_pairs.induct) (auto simp: bind_r_Inr_iff split: if_splits)

lemma hex_pairs_ok: "even (length ds) \<Longrightarrow> is_ok (hex_pairs i ds) \<longleftrightarrow> list_all is_hex ds"
proof (induction i ds rule: hex_pairs.induct)
  case (1 i a b rest)
  then show ?case by (auto simp: is_ok_iff bind_r_Inr_iff)
qed auto

section \<open>Which addresses are refused\<close>

text \<open>The blocked IPv4 blocks as intervals of 32-bit addresses.\<close>

definition ipv4_address :: "nat list \<Rightarrow> nat" where
  "ipv4_address os = foldl (\<lambda>n x. n * 256 + x) 0 os"

definition blocked_ipv4_blocks :: "(nat \<times> nat) list" where
  "blocked_ipv4_blocks =
     [(0, 2 ^ 24 - 1),                                              \<comment> \<open>0.0.0.0/8\<close>
      (10 * 2 ^ 24, 11 * 2 ^ 24 - 1),                               \<comment> \<open>10.0.0.0/8\<close>
      (127 * 2 ^ 24, 128 * 2 ^ 24 - 1),                             \<comment> \<open>127.0.0.0/8\<close>
      (169 * 2 ^ 24 + 254 * 2 ^ 16, 169 * 2 ^ 24 + 255 * 2 ^ 16 - 1), \<comment> \<open>169.254.0.0/16\<close>
      (172 * 2 ^ 24 + 16 * 2 ^ 16, 172 * 2 ^ 24 + 32 * 2 ^ 16 - 1),   \<comment> \<open>172.16.0.0/12\<close>
      (192 * 2 ^ 24 + 168 * 2 ^ 16, 192 * 2 ^ 24 + 169 * 2 ^ 16 - 1), \<comment> \<open>192.168.0.0/16\<close>
      (100 * 2 ^ 24 + 64 * 2 ^ 16, 100 * 2 ^ 24 + 128 * 2 ^ 16 - 1),  \<comment> \<open>100.64.0.0/10\<close>
      (2 ^ 32 - 1, 2 ^ 32 - 1)]                                     \<comment> \<open>255.255.255.255\<close>"

definition blocked_ipv4 :: "nat \<Rightarrow> bool" where
  "blocked_ipv4 n \<longleftrightarrow> list_ex (\<lambda>(lo, hi). lo \<le> n \<and> n \<le> hi) blocked_ipv4_blocks"

lemma is_private_ipv4_iff:
  assumes "a \<le> 255" "b \<le> 255" "c \<le> 255" "d \<le> 255"
  shows "is_private_ipv4 [a, b, c, d] \<longleftrightarrow> blocked_ipv4 (ipv4_address [a, b, c, d])"
proof -
  define n where "n = a * 16777216 + b * 65536 + c * 256 + d"
  have n: "ipv4_address [a, b, c, d] = n" by (simp add: ipv4_address_def n_def algebra_simps)
  have top: "n \<le> x * 16777216 + 16777215 \<longleftrightarrow> a \<le> x" "x * 16777216 \<le> n \<longleftrightarrow> x \<le> a" for x
    unfolding n_def by (rule iffI; use assms in linarith)+
  have wide: "x * 16777216 \<le> n \<and> n \<le> x * 16777216 + 16777215 \<longleftrightarrow> a = x" for x
    unfolding top by auto
  have narrow: "x * 16777216 + l * 65536 \<le> n \<and> n \<le> x * 16777216 + h * 65536 + 65535 \<longleftrightarrow> a = x \<and> l \<le> b \<and> b \<le> h"
    if h: "h \<le> 255" for x l h
  proof
    assume i: "x * 16777216 + l * 65536 \<le> n \<and> n \<le> x * 16777216 + h * 65536 + 65535"
    then have x: "a = x" using wide [of x] h by linarith
    have "l \<le> b" "b \<le> h" using i assms unfolding n_def x by linarith+
    with x show "a = x \<and> l \<le> b \<and> b \<le> h" by simp
  next
    assume "a = x \<and> l \<le> b \<and> b \<le> h"
    then show "x * 16777216 + l * 65536 \<le> n \<and> n \<le> x * 16777216 + h * 65536 + 65535"
      using assms unfolding n_def by linarith
  qed
  have last: "4294967295 \<le> n \<and> n \<le> 4294967295 \<longleftrightarrow> a = 255 \<and> b = 255 \<and> c = 255 \<and> d = 255"
    unfolding n_def by (rule iffI, (intro conjI; use assms in linarith), linarith)
  have b0: "n \<le> 16777215 \<longleftrightarrow> a = 0" using wide [of 0] by simp
  have b10: "167772160 \<le> n \<and> n \<le> 184549375 \<longleftrightarrow> a = 10" using wide [of 10] by simp
  have b127: "2130706432 \<le> n \<and> n \<le> 2147483647 \<longleftrightarrow> a = 127" using wide [of 127] by simp
  have b169: "2851995648 \<le> n \<and> n \<le> 2852061183 \<longleftrightarrow> a = 169 \<and> b = 254"
    using narrow [of 254 169 254] by (simp add: eq_iff [of b] conj_commute)
  have b172: "2886729728 \<le> n \<and> n \<le> 2887778303 \<longleftrightarrow> a = 172 \<and> 16 \<le> b \<and> b \<le> 31"
    using narrow [of 31 172 16] by simp
  have b192: "3232235520 \<le> n \<and> n \<le> 3232301055 \<longleftrightarrow> a = 192 \<and> b = 168"
    using narrow [of 168 192 168] by (simp add: eq_iff [of b] conj_commute)
  have b100: "1681915904 \<le> n \<and> n \<le> 1686110207 \<longleftrightarrow> a = 100 \<and> 64 \<le> b \<and> b \<le> 127"
    using narrow [of 127 100 64] by simp
  show ?thesis
    unfolding n blocked_ipv4_def blocked_ipv4_blocks_def by (simp add: b0 b10 b127 b169 b172 b192 b100 last)
qed

lemma parse_ipv4_octets:
  assumes "parse_ipv4 host = Some os"
  shows "length os = 4 \<and> (\<forall>x\<in>set os. x \<le> 255)"
proof -
  have os: "os = map (\<lambda>p. the (octet p)) (split_on 46 host)" and l: "length (split_on 46 host) = 4"
    and all: "list_all (\<lambda>p. octet p \<noteq> None) (split_on 46 host)"
    using assms by (auto simp: parse_ipv4_def Let_def split: if_splits)
  have "the (octet p) \<le> 255" if "octet p \<noteq> None" for p
    using that by (auto simp: octet_def split: if_splits)
  then show ?thesis using os l all by (auto simp: list_all_iff)
qed

lemma parse_ipv4_private:
  assumes "parse_ipv4 host = Some os"
  shows "is_private_ipv4 os \<longleftrightarrow> blocked_ipv4 (ipv4_address os)"
proof -
  obtain a b c d where "os = [a, b, c, d]"
    using parse_ipv4_octets [OF assms] by (auto simp: numeral_eq_Suc length_Suc_conv)
  then show ?thesis using parse_ipv4_octets [OF assms] is_private_ipv4_iff [of a b c d] by simp
qed

section \<open>Properties\<close>

text \<open>
  The request body survives the trip through the enclave trigger byte for byte: what
  \<open>requestBodyField\<close> decodes of \<open>bodyToHex\<close> is the body, and no body (or an empty one) stays no
  body rather than becoming an explicit undefined or empty field.
\<close>

theorem request_body_roundtrip:
  "request_body_field (body_to_hex body) = Inr (case body of None \<Rightarrow> None | Some bs \<Rightarrow> if bs = [] then None else Some bs)"
proof (cases body)
  case (Some bs)
  have "even (length (concat (map hex_byte bs)))"
    by (induction bs) (auto simp: hex_byte_def)
  moreover have "starts_with (js ''0x'' @ t) (js ''0x'')" "drop 2 (js ''0x'' @ t) = t" for t
    by (simp_all add: starts_with_def)
  ultimately show ?thesis
    using Some by (simp add: body_to_hex_def request_body_field_def Let_def hex_pairs_bytes)
qed (simp add: body_to_hex_def request_body_field_def)

text \<open>
  \<open>requestBodyField\<close> is strict: it returns exactly when the digits after an optional \<open>0x\<close> are an
  even number of hexadecimal digits, and then gives one byte per pair; anything else throws
  instead of reaching the provider as other bytes.
\<close>

theorem request_body_strict:
  "is_ok (request_body_field (Some h)) \<longleftrightarrow>
     (let digits = (if starts_with h (js ''0x'') \<or> starts_with h (js ''0X'') then drop 2 h else h) in
      even (length digits) \<and> list_all is_hex digits)"
proof -
  define digits where "digits = (if starts_with h (js ''0x'') \<or> starts_with h (js ''0X'') then drop 2 h else h)"
  have "is_ok (bind_r (hex_pairs 0 digits) (\<lambda>bytes. Inr (Some bytes))) \<longleftrightarrow> is_ok (hex_pairs 0 digits)"
    by (cases "hex_pairs 0 digits") simp_all
  then show ?thesis
    using hex_pairs_ok [of digits 0] unfolding request_body_field_def option.case digits_def [symmetric] Let_def by simp
qed


definition example_url :: url where
  "example_url = \<lparr>u_protocol = js ''https:'', u_hostname = js ''8.8.8.8'', u_pathname = js ''/'', u_search = [], u_rest = []\<rparr>"




text \<open>
  Request headers are relayed name by name: one in the drop list, in any letter case, never
  reaches the upstream, and every other one does with its own value.
\<close>

theorem request_headers_forwarded:
  assumes "distinct (map fst hs)"
  shows "map_of (forward_request_headers hs) n =
     (if lower n \<in> set DROP_FROM_REQUEST then None
      else case map_of hs n of Some (One v) \<Rightarrow> Some v | Some (Many vs) \<Rightarrow> Some (join_with (js '', '') vs) | _ \<Rightarrow> None)"
  using forward_request_headers_lookup [OF assms, of n]
  by (auto simp: kept_def split: option.splits header_value.splits)

theorem request_headers_forwarded_witness:
  "map_of (forward_request_headers [(js ''Host'', One (js ''a'')), (js ''accept'', One (js ''b''))]) (js ''Host'') = None"
  using request_headers_forwarded [of "[(js ''Host'', One (js ''a'')), (js ''accept'', One (js ''b''))]" "js ''Host''"]
  by (simp add: DROP_FROM_REQUEST_def lower_def js_def lower_unit_def)

section \<open>What the guards leave open\<close>

text \<open>
  The path check compares pathnames only. A \<open>rest\<close> that itself starts with a slash makes the
  reference \<open>//host/path\<close>, which a URL parser resolves against the scheme alone: the join
  succeeds with a host of the agent's choosing, after the host check has been passed.
\<close>

lemma join_can_change_the_host:
  assumes "u_pathname base = js ''/''"
    and "resolve (js ''//169.254.169.254/latest'') base =
      Some (base\<lparr>u_hostname := js ''169.254.169.254'', u_pathname := js ''/latest''\<rparr>)"
  shows "\<exists>t. join_upstream resolve base (js ''/169.254.169.254/latest'') search = Inr t \<and>
     u_hostname t = js ''169.254.169.254'' \<and> is_private_host (u_hostname t)"
proof -
  have "base_path base = js ''/''" using assms(1) by (simp add: base_path_def ends_with_def)
  moreover have "js ''/'' @ js ''/169.254.169.254/latest'' = js ''//169.254.169.254/latest''"
    "starts_with (js ''/latest'') (js ''/'')" "is_private_host (js ''169.254.169.254'')" by code_simp+
  ultimately show ?thesis
    using assms(2) by (simp add: join_upstream_def)
qed

text \<open>A rooted name is the same host to a resolver, and is not one of the reserved spellings.\<close>

lemma rooted_localhost_is_not_refused: "\<not> is_private_host (js ''localhost.'')"
  by code_simp

end
