(* ===== verification/Verification.thy ===== *)
theory Verification imports JS_Json begin

text \<open>
  \<open>proxy/src/verification.js\<close> and \<open>pending-do.js\<close>: the registry of calls waiting for their
  callback, in its in-memory and its Durable Object form, the workflow client on top of it,
  and the normalisation of what the workflow sent back.
\<close>

section \<open>Failures and results\<close>

datatype failure = TIMEOUT | TRIGGER_REJECTED | RUN_FAILED

text \<open>A thrown \<open>VerificationError\<close>, or any other \<open>Error\<close>.\<close>

datatype thrown = Verification_Error failure jstring | Other_Error jstring

fun thrown_message :: "thrown \<Rightarrow> jstring" where
  "thrown_message (Verification_Error f m) = m"
| "thrown_message (Other_Error m) = m"

record verification_result =
  vr_outcome :: json
  vr_mode :: "json option"
  vr_reason :: json
  vr_clauses :: json
  vr_tx :: json
  vr_status :: "jsnum option"
  vr_headers :: json
  vr_body :: jstring
  vr_body_truncated :: bool

definition nullish :: "json option \<Rightarrow> json \<Rightarrow> json" where
  \<comment> \<open>\<open>v ?? d\<close>\<close>
  "nullish v d = (case v of None \<Rightarrow> d | Some JNull \<Rightarrow> d | Some w \<Rightarrow> w)"

definition parse_workflow_result :: "json \<Rightarrow> thrown + verification_result" where
  "parse_workflow_result raw =
     bind_r (case raw of
               JStr s \<Rightarrow> (case json_parse s of Inl m \<Rightarrow> Inl (Other_Error m) | Inr v \<Rightarrow> Inr v)
             | _ \<Rightarrow> Inr raw) (\<lambda>parsed.
     bind_r (case parsed of
               JObj ps \<Rightarrow> Inr ps
             | JArr _ \<Rightarrow> Inr []
             | _ \<Rightarrow> Inl (Verification_Error RUN_FAILED (js ''the workflow returned no result''))) (\<lambda>result.
     Inr \<lparr>vr_outcome = nullish (member result ''outcome'') JNull,
          vr_mode = member result ''mode'',
          vr_reason = nullish (member result ''reason'') JNull,
          vr_clauses = nullish (member result ''clauses'') (JArr []),
          vr_tx = nullish (member result ''tx'') JNull,
          vr_status = (case member result ''status'' of Some (JNum n) \<Rightarrow> Some n | _ \<Rightarrow> None),
          vr_headers = nullish (member result ''headers'') (JObj []),
          vr_body = (case member result ''body'' of Some (JStr b) \<Rightarrow> b | _ \<Rightarrow> []),
          vr_body_truncated = (member result ''bodyTruncated'' = Some (JBool True))\<rparr>))"

section \<open>The interface of a pending registry\<close>

text \<open>
  For one request id: nobody has waited, somebody waits, or the wait was answered. The four
  calls are \<open>await\<close>, \<open>settle\<close>, \<open>cancel\<close> and the expiry of the wait's timer; \<open>settle\<close> and \<open>cancel\<close> say
  whether anyone was there.
\<close>

datatype 'r answer = Result 'r | Failed failure jstring | Timed_Out \<comment> \<open>a TIMEOUT failure; only its wording differs\<close>

datatype 'r phase = Idle | Waiting | Answered "'r answer"

datatype ('i, 'r) pending_call =
    Await 'i
  | Settle 'i 'r
  | Cancel 'i failure jstring
  | Expire 'i

definition timeout_answer :: "'r answer" where
  "timeout_answer = Timed_Out"

fun spec_call :: "('i, 'r) pending_call \<Rightarrow> ('i \<Rightarrow> 'r phase) \<Rightarrow> bool \<times> ('i \<Rightarrow> 'r phase)" where
  "spec_call (Await i) m = (True, m(i := Waiting))"
| "spec_call (Settle i r) m = (m i = Waiting, if m i = Waiting then m(i := Answered (Result r)) else m)"
| "spec_call (Cancel i f e) m = (m i = Waiting, if m i = Waiting then m(i := Answered (Failed f e)) else m)"
| "spec_call (Expire i) m = (m i = Waiting, if m i = Waiting then m(i := Answered timeout_answer) else m)"

fun spec_calls :: "('i, 'r) pending_call list \<Rightarrow> ('i \<Rightarrow> 'r phase) \<Rightarrow> bool list \<times> ('i \<Rightarrow> 'r phase)" where
  "spec_calls [] m = ([], m)"
| "spec_calls (c # cs) m = (case spec_call c m of (b, m') \<Rightarrow> case spec_calls cs m' of (bs, m'') \<Rightarrow> (b # bs, m''))"

fun run_calls ::
  "(('i, 'r) pending_call \<Rightarrow> 's \<Rightarrow> bool \<times> 's) \<Rightarrow> ('i, 'r) pending_call list \<Rightarrow> 's \<Rightarrow> bool list \<times> 's" where
  "run_calls call [] s = ([], s)"
| "run_calls call (c # cs) s = (case call c s of (b, s') \<Rightarrow> case run_calls call cs s' of (bs, s'') \<Rightarrow> (b # bs, s''))"

text \<open>Request ids are 32 fresh random bytes: no id is awaited twice.\<close>

fun awaited :: "('i, 'r) pending_call list \<Rightarrow> 'i list" where
  "awaited [] = []"
| "awaited (Await i # cs) = i # awaited cs"
| "awaited (_ # cs) = awaited cs"

locale pending_registry =
  fixes ok :: "'s \<Rightarrow> bool"
    and phase :: "'s \<Rightarrow> 'i \<Rightarrow> 'r phase"
    and call :: "('i, 'r) pending_call \<Rightarrow> 's \<Rightarrow> bool \<times> 's"
    and start :: 's
  assumes ok_start: "ok start"
    and phase_start: "phase start i = Idle"
    and ok_call: "ok s \<Longrightarrow> (\<And>i. c = Await i \<Longrightarrow> phase s i = Idle) \<Longrightarrow> ok (snd (call c s))"
    and phase_call: "ok s \<Longrightarrow> (\<And>i. c = Await i \<Longrightarrow> phase s i = Idle) \<Longrightarrow>
        phase (snd (call c s)) = snd (spec_call c (phase s))"
    and call_result: "ok s \<Longrightarrow> (\<And>i. c = Await i \<Longrightarrow> phase s i = Idle) \<Longrightarrow> fst (call c s) = fst (spec_call c (phase s))"
begin

lemma run_calls_spec:
  "ok s \<Longrightarrow> distinct (awaited cs) \<Longrightarrow> (\<forall>i\<in>set (awaited cs). phase s i = Idle) \<Longrightarrow>
   fst (run_calls call cs s) = fst (spec_calls cs (phase s)) \<and>
   phase (snd (run_calls call cs s)) = snd (spec_calls cs (phase s))"
proof (induction cs arbitrary: s)
  case (Cons c cs)
  have idle: "phase s i = Idle" if "c = Await i" for i using Cons.prems(3) that by simp
  have c: "ok (snd (call c s))" "phase (snd (call c s)) = snd (spec_call c (phase s))"
    "fst (call c s) = fst (spec_call c (phase s))"
    by (rule ok_call phase_call call_result, rule Cons.prems(1), erule idle)+
  have d: "distinct (awaited cs)" using Cons.prems(2) by (cases c) simp_all
  have idle': "\<forall>i\<in>set (awaited cs). phase (snd (call c s)) i = Idle"
    unfolding c(2) using Cons.prems(2,3) by (cases c) auto
  show ?case
    using Cons.IH [OF c(1) d idle'] unfolding run_calls.simps spec_calls.simps split_def c(2,3) by simp
qed simp

lemma runs_from_start:
  "distinct (awaited cs) \<Longrightarrow>
   fst (run_calls call cs start) = fst (spec_calls cs (\<lambda>_. Idle)) \<and>
   phase (snd (run_calls call cs start)) = snd (spec_calls cs (\<lambda>_. Idle))"
proof -
  assume d: "distinct (awaited cs)"
  have "phase start = (\<lambda>_. Idle)" by (rule ext) (rule phase_start)
  then show ?thesis using run_calls_spec [OF ok_start d] phase_start by simp
qed

end

section \<open>createPendingRegistry\<close>

text \<open>
  The map from request ids to waiters; a waiter is a promise, numbered in order of creation, with
  its own timer. \<open>m_held\<close> is which promise the caller of \<open>await\<close> was handed, \<open>m_answers\<close> what the
  promises settled with.
\<close>

record ('i, 'r) memory_registry =
  m_pending :: "'i \<Rightarrow> nat option"
  m_timers :: "nat \<Rightarrow> 'i option"
  m_answers :: "nat \<Rightarrow> 'r answer option"
  m_held :: "'i \<Rightarrow> nat option"
  m_next :: nat

definition memory_await :: "'i \<Rightarrow> ('i, 'r) memory_registry \<Rightarrow> ('i, 'r) memory_registry" where
  "memory_await i s = s\<lparr>m_timers := (m_timers s)(m_next s \<mapsto> i), m_pending := (m_pending s)(i \<mapsto> m_next s),
     m_held := (m_held s)(i \<mapsto> m_next s), m_next := m_next s + 1\<rparr>"

text \<open>The waiter's \<open>resolve\<close> and \<open>reject\<close>: clear the timer, forget the id, settle the promise.\<close>

definition memory_answer :: "'i \<Rightarrow> 'r answer \<Rightarrow> ('i, 'r) memory_registry \<Rightarrow> bool \<times> ('i, 'r) memory_registry" where
  "memory_answer i a s = (case m_pending s i of
     None \<Rightarrow> (False, s)
   | Some p \<Rightarrow> (True, s\<lparr>m_timers := (m_timers s)(p := None), m_pending := (m_pending s)(i := None),
                    m_answers := (m_answers s)(p \<mapsto> a)\<rparr>))"

text \<open>The timer of promise \<open>p\<close> fires: it deletes whatever is registered under its id.\<close>

definition memory_timer :: "nat \<Rightarrow> ('i, 'r) memory_registry \<Rightarrow> bool \<times> ('i, 'r) memory_registry" where
  "memory_timer p s = (case m_timers s p of
     None \<Rightarrow> (False, s)
   | Some i \<Rightarrow> (True, s\<lparr>m_timers := (m_timers s)(p := None), m_pending := (m_pending s)(i := None),
                    m_answers := (m_answers s)(p \<mapsto> timeout_answer)\<rparr>))"

fun memory_call :: "('i, 'r) pending_call \<Rightarrow> ('i, 'r) memory_registry \<Rightarrow> bool \<times> ('i, 'r) memory_registry" where
  "memory_call (Await i) s = (True, memory_await i s)"
| "memory_call (Settle i r) s = memory_answer i (Result r) s"
| "memory_call (Cancel i f e) s = memory_answer i (Failed f e) s"
| "memory_call (Expire i) s = (case m_held s i of None \<Rightarrow> (False, s) | Some p \<Rightarrow> memory_timer p s)"

definition memory_start :: "('i, 'r) memory_registry" where
  "memory_start = \<lparr>m_pending = Map.empty, m_timers = Map.empty, m_answers = Map.empty, m_held = Map.empty, m_next = 0\<rparr>"

definition memory_phase :: "('i, 'r) memory_registry \<Rightarrow> 'i \<Rightarrow> 'r phase" where
  "memory_phase s i = (case m_held s i of
     None \<Rightarrow> Idle
   | Some p \<Rightarrow> (case m_answers s p of None \<Rightarrow> Waiting | Some a \<Rightarrow> Answered a))"

definition memory_ok :: "('i, 'r) memory_registry \<Rightarrow> bool" where
  "memory_ok s \<longleftrightarrow>
     (\<forall>i p. m_pending s i = Some p \<longleftrightarrow> m_held s i = Some p \<and> m_answers s p = None) \<and>
     (\<forall>i p. m_timers s p = Some i \<longleftrightarrow> m_held s i = Some p \<and> m_answers s p = None) \<and>
     (\<forall>i p. m_held s i = Some p \<longrightarrow> p < m_next s) \<and>
     (\<forall>i j p. m_held s i = Some p \<longrightarrow> m_held s j = Some p \<longrightarrow> i = j) \<and>
     (\<forall>p. m_next s \<le> p \<longrightarrow> m_answers s p = None)"

lemma memory_await_ok:
  assumes "memory_ok s" "memory_phase s i = Idle"
  shows "memory_ok (memory_await i s) \<and> memory_phase (memory_await i s) = (memory_phase s)(i := Waiting)"
proof
  have h: "m_held s i = None" using assms(2) by (auto simp: memory_phase_def split: option.splits)
  have n: "m_held s j \<noteq> Some (m_next s)" for j using assms(1) by (auto simp: memory_ok_def)
  show "memory_ok (memory_await i s)"
    using assms(1) h n by (auto simp: memory_ok_def memory_await_def less_Suc_eq)
  show "memory_phase (memory_await i s) = (memory_phase s)(i := Waiting)"
    using assms(1) by (auto simp: memory_phase_def memory_await_def memory_ok_def fun_eq_iff split: option.splits)
qed

lemma memory_answer_ok:
  assumes ok: "memory_ok s" and p: "m_pending s i = Some p"
  shows "memory_ok (s\<lparr>m_timers := (m_timers s)(p := None), m_pending := (m_pending s)(i := None),
                    m_answers := (m_answers s)(p \<mapsto> a)\<rparr>) \<and>
     memory_phase (s\<lparr>m_timers := (m_timers s)(p := None), m_pending := (m_pending s)(i := None),
                    m_answers := (m_answers s)(p \<mapsto> a)\<rparr>) = (memory_phase s)(i := Answered a)"
proof -
  have i: "m_held s i = Some p" "m_answers s p = None" "p < m_next s" and u: "\<And>j. m_held s j = Some p \<Longrightarrow> j = i"
    using ok p unfolding memory_ok_def by blast+
  have fresh: "((m_answers s)(p \<mapsto> a)) q = None" if "m_next s \<le> q" for q
  proof (cases "q = p")
    case True
    then show ?thesis using that i(3) by simp
  next
    case False
    then show ?thesis using ok that by (simp add: memory_ok_def)
  qed
  show ?thesis
    using ok i(1,2) u fresh by (auto simp: memory_ok_def memory_phase_def fun_eq_iff split: option.splits)
qed

lemma memory_phase_pending: "memory_ok s \<Longrightarrow> m_pending s i = None \<longleftrightarrow> memory_phase s i \<noteq> Waiting"
proof -
  assume "memory_ok s"
  then have p: "\<forall>q. m_pending s i = Some q \<longleftrightarrow> m_held s i = Some q \<and> m_answers s q = None"
    unfolding memory_ok_def by blast
  show ?thesis
    by (cases "m_pending s i") (use p in \<open>auto simp: memory_phase_def split: option.splits\<close>)
qed

lemma memory_settles:
  "memory_ok s \<Longrightarrow>
   memory_ok (snd (memory_answer i a s)) \<and> fst (memory_answer i a s) = (memory_phase s i = Waiting) \<and>
   memory_phase (snd (memory_answer i a s)) =
     (if memory_phase s i = Waiting then (memory_phase s)(i := Answered a) else memory_phase s)"
  using memory_answer_ok [of s i _ a] memory_phase_pending [of s i]
  by (cases "m_pending s i") (simp_all add: memory_answer_def)

text \<open>With no id awaited twice, a promise's timer and the answer of its id are the same transition.\<close>

lemma memory_timer_is_answer:
  assumes "memory_ok s" "m_held s i = Some p"
  shows "memory_timer p s = memory_answer i timeout_answer s"
proof (cases "m_answers s p")
  case None
  then have "m_pending s i = Some p" "m_timers s p = Some i" using assms unfolding memory_ok_def by blast+
  then show ?thesis by (simp add: memory_timer_def memory_answer_def)
next
  case (Some a)
  have "m_timers s p \<noteq> Some j" for j using assms(1) Some unfolding memory_ok_def by fastforce
  moreover have "m_pending s i \<noteq> Some q" for q using assms Some unfolding memory_ok_def by fastforce
  ultimately show ?thesis by (cases "m_timers s p"; cases "m_pending s i") (auto simp: memory_timer_def memory_answer_def)
qed

lemma memory_call_ok:
  assumes ok: "memory_ok s" and idle: "\<And>i. c = Await i \<Longrightarrow> memory_phase s i = Idle"
  shows "memory_ok (snd (memory_call c s)) \<and> memory_phase (snd (memory_call c s)) = snd (spec_call c (memory_phase s)) \<and>
     fst (memory_call c s) = fst (spec_call c (memory_phase s))"
proof (cases c)
  case (Await i)
  then show ?thesis using memory_await_ok [OF ok idle] by simp
next
  case (Expire i)
  show ?thesis
  proof (cases "m_held s i")
    case None
    then have "memory_phase s i = Idle" by (simp add: memory_phase_def)
    then show ?thesis using Expire None ok by simp
  next
    case (Some p)
    then show ?thesis
      using Expire memory_timer_is_answer [OF ok Some] memory_settles [OF ok, of i timeout_answer] by simp
  qed
qed (use memory_settles [OF ok] in simp_all)

interpretation memory_registry: pending_registry memory_ok memory_phase memory_call memory_start
proof
  show "memory_ok memory_start" by (simp add: memory_ok_def memory_start_def)
  show "memory_phase memory_start i = Idle" for i by (simp add: memory_phase_def memory_start_def)
qed (use memory_call_ok in blast)+

section \<open>PendingVerification and its client\<close>

text \<open>
  One object per request id. \<open>d_wait\<close> is the promise held by \<open>notify\<close>, \<open>d_timer\<close> whether its timer
  is armed, \<open>d_response\<close> what the waiter's \<open>fetch\<close> was answered with.
\<close>

record 'r pending_object =
  d_registered :: bool
  d_outcome :: "'r answer option"
  d_notify :: bool
  d_timer :: bool
  d_response :: "'r answer option"

definition new_object :: "'r pending_object" where
  "new_object = \<lparr>d_registered = False, d_outcome = None, d_notify = False, d_timer = False, d_response = None\<rparr>"

definition object_wait :: "'r pending_object \<Rightarrow> 'r pending_object" where
  "object_wait ob =
     (let ob' = ob\<lparr>d_registered := True\<rparr> in
      case d_outcome ob' of
        Some a \<Rightarrow> ob'\<lparr>d_response := Some a\<rparr>
      | None \<Rightarrow> ob'\<lparr>d_notify := True, d_timer := True\<rparr>)"

definition object_finish :: "'r answer \<Rightarrow> 'r pending_object \<Rightarrow> bool \<times> 'r pending_object" where
  "object_finish a ob =
     (if \<not> d_registered ob \<or> d_outcome ob \<noteq> None then (False, ob)
      else (True, let ob' = ob\<lparr>d_outcome := Some a, d_timer := False\<rparr> in
                  if d_notify ob' then ob'\<lparr>d_notify := False, d_response := Some a\<rparr> else ob'))"

definition object_timer :: "'r pending_object \<Rightarrow> bool \<times> 'r pending_object" where
  "object_timer ob = (if d_timer ob then object_finish timeout_answer ob else (False, ob))"

type_synonym ('i, 'r) object_namespace = "'i \<Rightarrow> 'r pending_object"

fun on_object :: "'i \<Rightarrow> ('r pending_object \<Rightarrow> bool \<times> 'r pending_object) \<Rightarrow>
    ('i, 'r) object_namespace \<Rightarrow> bool \<times> ('i, 'r) object_namespace" where
  "on_object i f ns = (case f (ns i) of (b, ob) \<Rightarrow> (b, ns(i := ob)))"

fun object_call :: "('i, 'r) pending_call \<Rightarrow> ('i, 'r) object_namespace \<Rightarrow> bool \<times> ('i, 'r) object_namespace" where
  "object_call (Await i) ns = on_object i (\<lambda>ob. (True, object_wait ob)) ns"
| "object_call (Settle i r) ns = on_object i (object_finish (Result r)) ns"
| "object_call (Cancel i f e) ns = on_object i (object_finish (Failed f e)) ns"
| "object_call (Expire i) ns = on_object i object_timer ns"

definition object_phase :: "('i, 'r) object_namespace \<Rightarrow> 'i \<Rightarrow> 'r phase" where
  "object_phase ns i =
     (case d_response (ns i) of
        Some a \<Rightarrow> Answered a
      | None \<Rightarrow> if d_registered (ns i) then Waiting else Idle)"

definition object_ok :: "('i, 'r) object_namespace \<Rightarrow> bool" where
  "object_ok ns \<longleftrightarrow> (\<forall>i. let ob = ns i in
     d_response ob = d_outcome ob \<and> (d_outcome ob \<noteq> None \<longrightarrow> d_registered ob) \<and>
     d_notify ob = (d_registered ob \<and> d_outcome ob = None) \<and> d_timer ob = d_notify ob)"

lemma object_call_ok:
  assumes ok: "object_ok ns" and idle: "\<And>i. c = Await i \<Longrightarrow> object_phase ns i = Idle"
  shows "object_ok (snd (object_call c ns)) \<and> object_phase (snd (object_call c ns)) = snd (spec_call c (object_phase ns)) \<and>
     fst (object_call c ns) = fst (spec_call c (object_phase ns))"
proof -
  have inv: "d_response (ns i) = d_outcome (ns i)" "d_outcome (ns i) \<noteq> None \<longrightarrow> d_registered (ns i)"
    "d_notify (ns i) = (d_registered (ns i) \<and> d_outcome (ns i) = None)" "d_timer (ns i) = d_notify (ns i)" for i
    using ok unfolding object_ok_def Let_def by blast+
  have waiting: "object_phase ns i = Waiting \<longleftrightarrow> d_registered (ns i) \<and> d_outcome (ns i) = None" for i
    using inv [of i] by (auto simp: object_phase_def split: option.splits)
  have finish: "object_ok (snd (on_object i (object_finish a) ns)) \<and> fst (on_object i (object_finish a) ns) = (object_phase ns i = Waiting) \<and>
      object_phase (snd (on_object i (object_finish a) ns)) =
        (if object_phase ns i = Waiting then (object_phase ns)(i := Answered a) else object_phase ns)" for i a
  proof (cases "object_phase ns i = Waiting")
    case True
    then have "d_registered (ns i)" "d_outcome (ns i) = None" "d_notify (ns i)" using waiting inv by auto
    then show ?thesis
      using ok True by (auto simp: object_finish_def object_ok_def object_phase_def Let_def fun_eq_iff)
  next
    case False
    then have "object_finish a (ns i) = (False, ns i)" using waiting by (auto simp: object_finish_def)
    then show ?thesis using ok False by simp
  qed
  show ?thesis
  proof (cases c)
    case (Await i)
    then have "object_phase ns i = Idle" by (rule idle)
    then have "\<not> d_registered (ns i)" "d_outcome (ns i) = None" "d_response (ns i) = None"
      using inv [of i] by (auto simp: object_phase_def split: option.splits if_splits)
    then show ?thesis
      using ok Await by (auto simp: object_wait_def object_ok_def object_phase_def Let_def fun_eq_iff)
  next
    case (Expire i)
    have "object_timer (ns i) = object_finish timeout_answer (ns i)"
      using inv [of i] by (auto simp: object_timer_def object_finish_def)
    then have "on_object i object_timer ns = on_object i (object_finish timeout_answer) ns" by simp
    then show ?thesis using finish [of i timeout_answer] Expire by (simp del: on_object.simps)
  qed (use finish in \<open>simp_all del: on_object.simps\<close>)
qed

interpretation object_registry: pending_registry object_ok object_phase object_call "\<lambda>_. new_object"
proof
  show "object_ok (\<lambda>_. new_object)" by (simp add: object_ok_def new_object_def)
  show "object_phase (\<lambda>_. new_object) i = Idle" for i by (simp add: object_phase_def new_object_def)
qed (use object_call_ok in blast)+

section \<open>createWorkflowClient\<close>

text \<open>What the gateway's reply to the trigger was, as far as \<open>verify\<close> reads it.\<close>

datatype gateway_reply =
    Unreachable jstring \<comment> \<open>the mint or the fetch threw, with its message\<close>
  | Http_Error jsnum \<comment> \<open>\<open>!response.ok\<close>, with the status\<close>
  | Replied json \<comment> \<open>the parsed body, an empty object when it is not JSON\<close>

definition json_member :: "json \<Rightarrow> string \<Rightarrow> json option" where
  \<comment> \<open>\<open>v?.k\<close>\<close>
  "json_member v k = (case v of JObj ps \<Rightarrow> member ps k | _ \<Rightarrow> None)"

definition truthy :: "json option \<Rightarrow> bool" where
  "truthy v = (case v of
     None \<Rightarrow> False | Some JNull \<Rightarrow> False | Some (JBool b) \<Rightarrow> b
   | Some (JNum n) \<Rightarrow> n \<noteq> Fin 0 \<and> n \<noteq> NotNum | Some (JStr s) \<Rightarrow> s \<noteq> [] | Some _ \<Rightarrow> True)"

definition value_text :: "json option \<Rightarrow> jstring" where
  "value_text v = (case v of None \<Rightarrow> js ''undefined'' | Some w \<Rightarrow> to_str w)"

definition trigger_failure :: "gateway_reply \<Rightarrow> (failure \<times> jstring) option" where
  "trigger_failure reply = (case reply of
     Unreachable m \<Rightarrow> Some (TRIGGER_REJECTED, js ''could not reach the workflow gateway: '' @ m)
   | Http_Error status \<Rightarrow> Some (TRIGGER_REJECTED, js ''workflow trigger returned '' @ num_str status)
   | Replied answer \<Rightarrow>
       if truthy (json_member answer ''error'') then
         Some (TRIGGER_REJECTED, js ''gateway refused the trigger: '' @
           (case json_member (the (json_member answer ''error'')) ''message'' of
              Some m \<Rightarrow> if m = JNull then stringify (the (json_member answer ''error'')) else to_str m
            | None \<Rightarrow> stringify (the (json_member answer ''error''))))
       else
         (let status = Option.bind (json_member answer ''result'') (\<lambda>r. json_member r ''status'') in
          if truthy status \<and> status \<noteq> Some (js_str ''ACCEPTED'') then
            Some (TRIGGER_REJECTED, js ''gateway answered '' @ value_text status)
          else None))"

text \<open>
  One \<open>verify\<close>: the wait is registered before the trigger goes out, a refusal cancels it. Between
  and after, callbacks, other requests and timers interleave as any list of calls.
\<close>

definition verify_calls ::
  "'i \<Rightarrow> gateway_reply \<Rightarrow> ('i, 'r) pending_call list \<Rightarrow> ('i, 'r) pending_call list \<Rightarrow> ('i, 'r) pending_call list" where
  "verify_calls i reply before after =
     Await i # before @ (case trigger_failure reply of None \<Rightarrow> [] | Some (f, m) \<Rightarrow> [Cancel i f m]) @ after"

text \<open>What \<open>verify\<close> then gives its caller: the refusal, or what the wait was answered with.\<close>

definition verify_outcome :: "gateway_reply \<Rightarrow> 'r phase \<Rightarrow> 'r answer option" where
  "verify_outcome reply ph = (case trigger_failure reply of
     Some (f, m) \<Rightarrow> Some (Failed f m)
   | None \<Rightarrow> (case ph of Answered a \<Rightarrow> Some a | _ \<Rightarrow> None))"

section \<open>What the registries promise\<close>

fun answers_id :: "'i \<Rightarrow> ('i, 'r) pending_call \<Rightarrow> 'r answer option" where
  "answers_id i (Await _) = None"
| "answers_id i (Settle j r) = (if j = i then Some (Result r) else None)"
| "answers_id i (Cancel j f m) = (if j = i then Some (Failed f m) else None)"
| "answers_id i (Expire j) = (if j = i then Some timeout_answer else None)"

lemma spec_call_other: "answers_id i c = None \<Longrightarrow> c \<noteq> Await i \<Longrightarrow> snd (spec_call c m) i = m i"
  by (cases c) (auto split: if_splits)

lemma spec_call_accepts: "answers_id i c = Some a \<Longrightarrow> fst (spec_call c m) = (m i = Waiting) \<and>
   snd (spec_call c m) i = (if m i = Waiting then Answered a else m i)"
  by (cases c) (auto split: if_splits)

lemma spec_calls_Cons: "spec_calls (c # cs) m =
   (fst (spec_call c m) # fst (spec_calls cs (snd (spec_call c m))), snd (spec_calls cs (snd (spec_call c m))))"
  by (simp add: split_def)

lemma spec_calls_append: "spec_calls (cs @ ds) m =
   (fst (spec_calls cs m) @ fst (spec_calls ds (snd (spec_calls cs m))), snd (spec_calls ds (snd (spec_calls cs m))))"
  by (induction cs arbitrary: m) (simp_all add: split_def)

lemma awaited_append [simp]: "awaited (cs @ ds) = awaited cs @ awaited ds"
  by (induction cs rule: awaited.induct) auto

lemma answered_stays: "i \<notin> set (awaited cs) \<Longrightarrow> m i = Answered a \<Longrightarrow> snd (spec_calls cs m) i = Answered a"
proof (induction cs arbitrary: m)
  case (Cons c cs)
  have "c \<noteq> Await i" using Cons.prems(1) by auto
  then have "snd (spec_call c m) i = Answered a"
    using Cons.prems(2) spec_call_other [of i c m] spec_call_accepts [of i c _ m]
    by (cases "answers_id i c") auto
  moreover have "i \<notin> set (awaited cs)" using Cons.prems(1) by (cases c) auto
  ultimately show ?case using Cons.IH by (simp add: spec_calls_Cons del: spec_calls.simps)
qed simp

text \<open>A wait ends with the first call that answers its id, and with nothing else.\<close>

lemma first_answer_wins:
  "i \<notin> set (awaited cs) \<Longrightarrow> m i = Waiting \<Longrightarrow>
   snd (spec_calls cs m) i = (case map_option (answers_id i) (find (\<lambda>c. answers_id i c \<noteq> None) cs) of
     Some (Some a) \<Rightarrow> Answered a | _ \<Rightarrow> Waiting)"
proof (induction cs arbitrary: m)
  case (Cons c cs)
  have c: "c \<noteq> Await i" and cs: "i \<notin> set (awaited cs)" using Cons.prems(1) by (cases c; auto)+
  show ?case
  proof (cases "answers_id i c")
    case None
    then show ?thesis
      using Cons.IH [OF cs, of "snd (spec_call c m)"] spec_call_other [OF None c, of m] Cons.prems(2)
      by (simp add: spec_calls_Cons del: spec_calls.simps)
  next
    case (Some a)
    then show ?thesis
      using answered_stays [OF cs, of "snd (spec_call c m)" a] spec_call_accepts [OF Some, of m] Cons.prems(2)
      by (simp add: spec_calls_Cons del: spec_calls.simps)
  qed
qed simp

text \<open>How many calls for an id are told that somebody was there.\<close>

definition accepted :: "'i \<Rightarrow> ('i, 'r) pending_call list \<Rightarrow> bool list \<Rightarrow> nat" where
  "accepted i cs bs = length (filter (\<lambda>(c, b). b \<and> answers_id i c \<noteq> None) (zip cs bs))"

lemma accepted_none:
  "i \<notin> set (awaited cs) \<Longrightarrow> m i \<noteq> Waiting \<Longrightarrow> accepted i cs (fst (spec_calls cs m)) = 0"
proof (induction cs arbitrary: m)
  case (Cons c cs)
  have c: "c \<noteq> Await i" and cs: "i \<notin> set (awaited cs)" using Cons.prems(1) by (cases c; auto)+
  have "snd (spec_call c m) i \<noteq> Waiting" "\<not> (fst (spec_call c m) \<and> answers_id i c \<noteq> None)"
    using spec_call_other [of i c m] spec_call_accepts [of i c _ m] c Cons.prems(2)
    by (cases "answers_id i c"; auto)+
  then show ?case
    using Cons.IH [OF cs, of "snd (spec_call c m)"] by (auto simp: accepted_def spec_calls_Cons simp del: spec_calls.simps)
qed (simp add: accepted_def)

lemma accepted_at_most_once:
  "distinct (awaited cs) \<Longrightarrow> (i \<in> set (awaited cs) \<longrightarrow> m i = Idle) \<Longrightarrow> accepted i cs (fst (spec_calls cs m)) \<le> 1"
proof (induction cs arbitrary: m)
  case (Cons c cs)
  have d: "distinct (awaited cs)" using Cons.prems(1) by (cases c) auto
  show ?case
  proof (cases "answers_id i c")
    case None
    have "i \<in> set (awaited cs) \<longrightarrow> snd (spec_call c m) i = Idle"
    proof (cases "c = Await i")
      case True
      then show ?thesis using Cons.prems(1) by simp
    next
      case False
      then have "set (awaited cs) \<subseteq> set (awaited (c # cs))" by (cases c) auto
      then show ?thesis using Cons.prems(2) spec_call_other [OF None False, of m] by auto
    qed
    then show ?thesis
      using Cons.IH [OF d, of "snd (spec_call c m)"] None by (simp add: accepted_def spec_calls_Cons del: spec_calls.simps)
  next
    case (Some a)
    then have c: "c \<noteq> Await i" by auto
    show ?thesis
    proof (cases "m i = Waiting")
      case True
      then have cs: "i \<notin> set (awaited cs)" using Cons.prems(2) c by (cases c) auto
      have "snd (spec_call c m) i \<noteq> Waiting" using spec_call_accepts [OF Some, of m] True by simp
      then show ?thesis
        using accepted_none [OF cs, of "snd (spec_call c m)"]
        by (simp add: accepted_def spec_calls_Cons del: spec_calls.simps)
    next
      case False
      then have "\<not> fst (spec_call c m)" "snd (spec_call c m) i = m i" using spec_call_accepts [OF Some, of m] by simp_all
      moreover have "i \<in> set (awaited cs) \<longrightarrow> m i = Idle" using Cons.prems(2) by (cases c) auto
      ultimately show ?thesis
        using Cons.IH [OF d, of "snd (spec_call c m)"] by (simp add: accepted_def spec_calls_Cons del: spec_calls.simps)
    qed
  qed
qed (simp add: accepted_def)

section \<open>Properties\<close>

text \<open>
  C22: The Durable Object registry and the in-memory one are indistinguishable: on every sequence of
  waits, callbacks, cancellations and timer expiries that awaits no request id twice, every
  call is told the same and every caller of \<open>await\<close> gets the same answer.
\<close>

theorem registries_agree:
  assumes "distinct (awaited cs)"
  shows "fst (run_calls memory_call cs memory_start) = fst (run_calls object_call cs (\<lambda>_. new_object)) \<and>
     memory_phase (snd (run_calls memory_call cs memory_start)) =
     object_phase (snd (run_calls object_call cs (\<lambda>_. new_object)))"
  using memory_registry.runs_from_start [OF assms] object_registry.runs_from_start [OF assms] by metis

definition example_calls :: "(nat, nat) pending_call list" where
  "example_calls = [Settle 1 5, Await 1, Await 2, Settle 1 6, Settle 1 7, Expire 2, Cancel 2 RUN_FAILED []]"

theorem registries_agree_witness:
  "fst (run_calls object_call example_calls (\<lambda>_. new_object)) = [False, True, True, True, False, True, False]"
proof -
  have "distinct (awaited example_calls)" by (simp add: example_calls_def)
  moreover have "fst (run_calls memory_call example_calls memory_start) = [False, True, True, True, False, True, False]"
    by (simp add: example_calls_def memory_start_def memory_answer_def memory_await_def memory_timer_def)
  ultimately show ?thesis using registries_agree [of example_calls] by simp
qed

text \<open>
  C10: A request id is answered at most once: of all the callbacks, cancellations and expiries that
  name it, at most one is accepted, and one that arrives before anybody waits, or for an id
  never issued, is refused.
\<close>

theorem at_most_one_answer:
  assumes "distinct (awaited cs)"
  shows "accepted i cs (fst (run_calls object_call cs (\<lambda>_. new_object))) \<le> 1 \<and>
     (i \<notin> set (awaited cs) \<longrightarrow> accepted i cs (fst (run_calls object_call cs (\<lambda>_. new_object))) = 0)"
  using object_registry.runs_from_start [OF assms] accepted_at_most_once [OF assms, of i "\<lambda>_. Idle"]
    accepted_none [of i cs "\<lambda>_. Idle"] by simp

theorem at_most_one_answer_witness:
  "accepted 1 example_calls (fst (run_calls object_call example_calls (\<lambda>_. new_object))) \<le> 1"
  using at_most_one_answer [of example_calls 1] by (simp add: example_calls_def)



text \<open>
  The callback can settle the wait before the trigger's own reply is read. If that reply is then
  an error, the cancellation finds nobody, and \<open>verify\<close> still throws the refusal: a response
  that was delivered and accepted does not reach the agent.
\<close>

lemma settled_result_lost_on_trigger_error:
  "fst (run_calls memory_call (verify_calls (1 :: nat) (Http_Error (Fin 502)) [Settle 1 (7 :: nat)] []) memory_start) =
     [True, True, False] \<and>
   verify_outcome (Http_Error (Fin 502)) (memory_phase (snd (run_calls memory_call
     (verify_calls (1 :: nat) (Http_Error (Fin 502)) [Settle 1 (7 :: nat)] []) memory_start)) 1) =
     Some (Failed TRIGGER_REJECTED (js ''workflow trigger returned 502''))"
proof -
  have "num_str (Fin 502) = js ''502''" by code_simp
  then have "trigger_failure (Http_Error (Fin 502)) = Some (TRIGGER_REJECTED, js ''workflow trigger returned 502'')"
    by (simp add: trigger_failure_def js_append [symmetric])
  then show ?thesis
    by (simp add: verify_calls_def verify_outcome_def memory_start_def memory_answer_def memory_await_def)
qed

end
