(* ===== verification/Evidence.thy ===== *)
theory Evidence imports Verification Registry_Sdk begin

text \<open>
  \<open>proxy/src/evidence.js\<close> and \<open>evidence-do.js\<close>: the two evidence stores behind one interface, the
  envelope, and who may read it. Time is \<open>Date.now()\<close>, handed to every operation; a Durable
  Object's storage and alarm are its record.
\<close>

section \<open>The interface\<close>

text \<open>
  What an entry is to the callers: the envelope, the deadline, and whether it has been
  disclosed. An entry at or past its deadline is no entry.
\<close>

record 'e entry =
  en_envelope :: 'e
  en_expires_at :: int
  en_disclosed :: bool

definition unexpired :: "int \<Rightarrow> 'e entry option \<Rightarrow> 'e entry option" where
  "unexpired now e = (case e of Some x \<Rightarrow> if en_expires_at x \<le> now then None else Some x | None \<Rightarrow> None)"

definition stored_entry :: "int \<Rightarrow> 'e \<Rightarrow> int \<Rightarrow> 'e entry" where
  "stored_entry now envelope ttl = \<lparr>en_envelope = envelope, en_expires_at = now + ttl, en_disclosed = False\<rparr>"

definition disclosed_entry :: "int \<Rightarrow> int \<Rightarrow> 'e entry \<Rightarrow> 'e entry" where
  "disclosed_entry now adjudication_ttl x =
     (if en_disclosed x then x
      else x\<lparr>en_disclosed := True, en_expires_at := max (en_expires_at x) (now + adjudication_ttl)\<rparr>)"

datatype ('k, 'e) store_call =
    Store int 'k 'e int
  | Read int 'k int
  | Sweep int 'k

fun call_time :: "('k, 'e) store_call \<Rightarrow> int" where
  "call_time (Store t k e ttl) = t"
| "call_time (Read t k adj) = t"
| "call_time (Sweep t k) = t"

fun spec_step :: "('k, 'e) store_call \<Rightarrow> ('k \<Rightarrow> 'e entry option) \<Rightarrow> 'e option list \<times> ('k \<Rightarrow> 'e entry option)" where
  "spec_step (Store t k e ttl) m = ([], m(k \<mapsto> stored_entry t e ttl))"
| "spec_step (Read t k adj) m =
     (case unexpired t (m k) of
        None \<Rightarrow> ([None], m)
      | Some x \<Rightarrow> ([Some (en_envelope x)], m(k \<mapsto> disclosed_entry t adj x)))"
| "spec_step (Sweep t k) m = ([], m)"

fun spec_run :: "('k, 'e) store_call list \<Rightarrow> ('k \<Rightarrow> 'e entry option) \<Rightarrow> 'e option list" where
  "spec_run [] m = []"
| "spec_run (c # cs) m = (case spec_step c m of (out, m') \<Rightarrow> out @ spec_run cs m')"

fun step_with ::
  "(int \<Rightarrow> 'k \<Rightarrow> 'e \<Rightarrow> int \<Rightarrow> 's \<Rightarrow> 's) \<Rightarrow> (int \<Rightarrow> 'k \<Rightarrow> int \<Rightarrow> 's \<Rightarrow> 'e option \<times> 's) \<Rightarrow> (int \<Rightarrow> 'k \<Rightarrow> 's \<Rightarrow> 's) \<Rightarrow>
   ('k, 'e) store_call \<Rightarrow> 's \<Rightarrow> 'e option list \<times> 's" where
  "step_with put get sweep (Store t k e ttl) s = ([], put t k e ttl s)"
| "step_with put get sweep (Read t k adj) s = (case get t k adj s of (r, s') \<Rightarrow> ([r], s'))"
| "step_with put get sweep (Sweep t k) s = ([], sweep t k s)"

fun run_with ::
  "(int \<Rightarrow> 'k \<Rightarrow> 'e \<Rightarrow> int \<Rightarrow> 's \<Rightarrow> 's) \<Rightarrow> (int \<Rightarrow> 'k \<Rightarrow> int \<Rightarrow> 's \<Rightarrow> 'e option \<times> 's) \<Rightarrow> (int \<Rightarrow> 'k \<Rightarrow> 's \<Rightarrow> 's) \<Rightarrow>
   ('k, 'e) store_call list \<Rightarrow> 's \<Rightarrow> 'e option list" where
  "run_with put get sweep [] s = []"
| "run_with put get sweep (c # cs) s =
     (case step_with put get sweep c s of (out, s') \<Rightarrow> out @ run_with put get sweep cs s')"

definition in_time_order :: "('k, 'e) store_call list \<Rightarrow> bool" where
  "in_time_order cs \<longleftrightarrow> sorted (map call_time cs)"

lemma unexpired_unexpired: "t \<le> now \<Longrightarrow> unexpired now (unexpired t e) = unexpired now e"
  by (auto simp: unexpired_def split: option.splits)

lemma unexpired_None [simp]: "unexpired now None = None"
  by (simp add: unexpired_def)

text \<open>
  The laws both stores promise. \<open>live s now k\<close> is the entry a read of \<open>k\<close> at \<open>now\<close> would find; \<open>sweep\<close>
  is the store's own housekeeping at some moment.
\<close>

locale evidence_store =
  fixes ok :: "'s \<Rightarrow> bool"
    and live :: "'s \<Rightarrow> int \<Rightarrow> 'k \<Rightarrow> 'e entry option"
    and put :: "int \<Rightarrow> 'k \<Rightarrow> 'e \<Rightarrow> int \<Rightarrow> 's \<Rightarrow> 's"
    and get :: "int \<Rightarrow> 'k \<Rightarrow> int \<Rightarrow> 's \<Rightarrow> 'e option \<times> 's"
    and sweep :: "int \<Rightarrow> 'k \<Rightarrow> 's \<Rightarrow> 's"
    and empty_store :: 's
  assumes ok_empty: "ok empty_store"
    and ok_put: "ok s \<Longrightarrow> ok (put t k e ttl s)"
    and ok_get: "ok s \<Longrightarrow> ok (snd (get t k adj s))"
    and ok_sweep: "ok s \<Longrightarrow> ok (sweep t k s)"
    and live_empty: "live empty_store now k = None"
    and live_put: "ok s \<Longrightarrow> t \<le> now \<Longrightarrow> live (put t k e ttl s) now k' =
        (if k' = k then unexpired now (Some (stored_entry t e ttl)) else live s now k')"
    and get_live: "ok s \<Longrightarrow> fst (get t k adj s) = map_option en_envelope (live s t k)"
    and live_get: "ok s \<Longrightarrow> t \<le> now \<Longrightarrow> live (snd (get t k adj s)) now k' =
        (if k' = k then unexpired now (map_option (disclosed_entry t adj) (live s t k)) else live s now k')"
    and live_sweep: "ok s \<Longrightarrow> t \<le> now \<Longrightarrow> live (sweep t k s) now k' = live s now k'"
    and live_later: "ok s \<Longrightarrow> t \<le> now \<Longrightarrow> live s now k = unexpired now (live s t k)"
begin

text \<open>A store follows a map from time \<open>t\<close> on when it shows exactly the map's unexpired entries.\<close>

definition follows :: "int \<Rightarrow> 's \<Rightarrow> ('k \<Rightarrow> 'e entry option) \<Rightarrow> bool" where
  "follows t s m \<longleftrightarrow> ok s \<and> (\<forall>now k. t \<le> now \<longrightarrow> live s now k = unexpired now (m k))"

lemma follows_step:
  assumes "follows t0 s m" "t0 \<le> call_time c"
  shows "fst (step_with put get sweep c s) = fst (spec_step c m) \<and>
     follows (call_time c) (snd (step_with put get sweep c s)) (snd (spec_step c m))"
proof (cases c)
  case (Store t k e ttl)
  then show ?thesis
    using assms by (auto simp: follows_def ok_put live_put)
next
  case (Read t k adj)
  have ok: "ok s" and l: "\<And>now k. t \<le> now \<Longrightarrow> live s now k = unexpired now (m k)"
    using assms Read by (auto simp: follows_def)
  obtain r s' where g: "get t k adj s = (r, s')" by (cases "get t k adj s")
  have r: "r = map_option en_envelope (unexpired t (m k))"
    using get_live [OF ok, of t k adj] g l [of t k] by simp
  have l': "live s' now k' = (if k' = k then unexpired now (map_option (disclosed_entry t adj) (unexpired t (m k)))
      else unexpired now (m k'))" if "t \<le> now" for now k'
    using live_get [OF ok that, of k adj k'] g l [of t k] l [OF that, of k'] by simp
  have "ok s'" using ok_get [OF ok, of t k adj] g by simp
  then show ?thesis
    using r l' unexpired_unexpired [of t _ "m k"]
    by (auto simp: Read g follows_def split: option.splits)
next
  case (Sweep t k)
  then show ?thesis
    using assms by (auto simp: follows_def ok_sweep live_sweep)
qed

lemma run_follows:
  "follows t0 s m \<Longrightarrow> sorted (t0 # map call_time cs) \<Longrightarrow> run_with put get sweep cs s = spec_run cs m"
proof (induction cs arbitrary: t0 s m)
  case (Cons c cs)
  have step: "fst (step_with put get sweep c s) = fst (spec_step c m)"
    "follows (call_time c) (snd (step_with put get sweep c s)) (snd (spec_step c m))"
    using follows_step [OF Cons.prems(1), of c] Cons.prems(2) by auto
  have "run_with put get sweep cs (snd (step_with put get sweep c s)) = spec_run cs (snd (spec_step c m))"
    using Cons.IH [OF step(2)] Cons.prems(2) by simp
  then show ?case using step(1) by (simp add: split_def)
qed simp

text \<open>From the empty store, every time-ordered sequence of calls returns what the map says.\<close>

lemma refines_map: "in_time_order cs \<Longrightarrow> run_with put get sweep cs empty_store = spec_run cs Map.empty"
proof (cases cs)
  case (Cons c cs')
  assume "in_time_order cs"
  moreover have "follows (call_time c) empty_store Map.empty"
    by (simp add: follows_def ok_empty live_empty)
  ultimately show ?thesis
    using run_follows [of "call_time c" empty_store Map.empty cs] Cons by (auto simp: in_time_order_def)
qed simp

end

section \<open>createMemoryEvidenceStore\<close>

type_synonym ('k, 'e) memory_store = "'k \<Rightarrow> 'e entry option"

definition memory_live :: "int \<Rightarrow> 'k \<Rightarrow> ('k, 'e) memory_store \<Rightarrow> 'e entry option \<times> ('k, 'e) memory_store" where
  "memory_live now request_id entries = (case entries request_id of
     None \<Rightarrow> (None, entries)
   | Some entry \<Rightarrow> if en_expires_at entry \<le> now then (None, entries(request_id := None)) else (Some entry, entries))"

definition memory_put :: "int \<Rightarrow> 'k \<Rightarrow> 'e \<Rightarrow> int \<Rightarrow> ('k, 'e) memory_store \<Rightarrow> ('k, 'e) memory_store" where
  "memory_put now request_id envelope ttl entries =
     entries(request_id \<mapsto> \<lparr>en_envelope = envelope, en_expires_at = now + ttl, en_disclosed = False\<rparr>)"

definition memory_get :: "int \<Rightarrow> 'k \<Rightarrow> int \<Rightarrow> ('k, 'e) memory_store \<Rightarrow> 'e option \<times> ('k, 'e) memory_store" where
  "memory_get now request_id adjudication_ttl entries = (case memory_live now request_id entries of
     (None, entries') \<Rightarrow> (None, entries')
   | (Some entry, entries') \<Rightarrow>
       if en_disclosed entry then (Some (en_envelope entry), entries')
       else (Some (en_envelope entry),
             entries'(request_id \<mapsto> entry\<lparr>en_disclosed := True,
               en_expires_at := max (en_expires_at entry) (now + adjudication_ttl)\<rparr>)))"

lemma memory_get_unfold:
  "memory_get t k adj s = (case unexpired t (s k) of
     None \<Rightarrow> (None, if s k = None then s else s(k := None))
   | Some x \<Rightarrow> (Some (en_envelope x), if en_disclosed x then s else s(k \<mapsto> disclosed_entry t adj x)))"
  by (auto simp: memory_get_def memory_live_def unexpired_def disclosed_entry_def split: option.splits)

interpretation memory: evidence_store "\<lambda>_. True" "\<lambda>s now k. unexpired now (s k)"
    memory_put memory_get "\<lambda>_ _ s. s" "Map.empty"
proof
  fix s :: "('k, 'e) memory_store" and t now :: int and k k' :: 'k and e :: 'e and ttl adj :: int
  show "t \<le> now \<Longrightarrow> unexpired now (memory_put t k e ttl s k') =
      (if k' = k then unexpired now (Some (stored_entry t e ttl)) else unexpired now (s k'))"
    by (simp add: memory_put_def stored_entry_def)
  show "fst (memory_get t k adj s) = map_option en_envelope (unexpired t (s k))"
    by (simp add: memory_get_unfold split: option.splits)
  show "unexpired now (snd (memory_get t k adj s) k') =
      (if k' = k then unexpired now (map_option (disclosed_entry t adj) (unexpired t (s k))) else unexpired now (s k'))"
    if "t \<le> now"
    using that by (auto simp: memory_get_unfold unexpired_def disclosed_entry_def split: option.splits)
  show "t \<le> now \<Longrightarrow> unexpired now (s k) = unexpired now (unexpired t (s k))"
    by (simp add: unexpired_unexpired)
qed simp_all

section \<open>The Durable Object\<close>

text \<open>
  The three storage keys and the alarm of one object. The client sends the envelope and the
  window as JSON and reads the envelope back the same way.
\<close>

record 'e cache_object =
  k_envelope :: "'e option"
  k_expires_at :: "int option"
  k_disclosed :: "bool option"
  k_alarm :: "int option"

type_synonym ('k, 'e) object_store = "'k \<Rightarrow> 'e cache_object"

definition empty_object :: "'e cache_object" where
  "empty_object = \<lparr>k_envelope = None, k_expires_at = None, k_disclosed = None, k_alarm = None\<rparr>"

definition object_store_put :: "int \<Rightarrow> 'e \<Rightarrow> int \<Rightarrow> 'e cache_object \<Rightarrow> 'e cache_object" where
  "object_store_put now envelope ttl ob =
     ob\<lparr>k_envelope := Some envelope, k_expires_at := Some (now + ttl), k_disclosed := Some False, k_alarm := Some (now + ttl)\<rparr>"

definition object_store_get :: "int \<Rightarrow> int \<Rightarrow> 'e cache_object \<Rightarrow> 'e option \<times> 'e cache_object" where
  "object_store_get now adjudication_ttl ob = (case (k_envelope ob, k_expires_at ob) of
     (Some envelope, Some expires_at) \<Rightarrow>
       if expires_at \<le> now then (None, ob)
       else if k_disclosed ob \<noteq> Some True then
         (let extended = max expires_at (now + adjudication_ttl) in
          (Some envelope, ob\<lparr>k_disclosed := Some True, k_expires_at := Some extended, k_alarm := Some extended\<rparr>))
       else (Some envelope, ob)
   | _ \<Rightarrow> (None, ob))"

text \<open>The platform runs the alarm at its time or later, never before; it deletes everything.\<close>

definition object_alarm :: "int \<Rightarrow> 'e cache_object \<Rightarrow> 'e cache_object" where
  "object_alarm now ob = (case k_alarm ob of
     Some due \<Rightarrow> if due \<le> now then empty_object else ob
   | None \<Rightarrow> ob)"

definition namespace_put :: "int \<Rightarrow> 'k \<Rightarrow> 'e \<Rightarrow> int \<Rightarrow> ('k, 'e) object_store \<Rightarrow> ('k, 'e) object_store" where
  "namespace_put now k envelope ttl ns = ns(k := object_store_put now envelope ttl (ns k))"

definition namespace_get :: "int \<Rightarrow> 'k \<Rightarrow> int \<Rightarrow> ('k, 'e) object_store \<Rightarrow> 'e option \<times> ('k, 'e) object_store" where
  "namespace_get now k adjudication_ttl ns =
     (case object_store_get now adjudication_ttl (ns k) of (r, ob) \<Rightarrow> (r, ns(k := ob)))"

definition namespace_alarm :: "int \<Rightarrow> 'k \<Rightarrow> ('k, 'e) object_store \<Rightarrow> ('k, 'e) object_store" where
  "namespace_alarm now k ns = ns(k := object_alarm now (ns k))"

definition object_entry :: "'e cache_object \<Rightarrow> 'e entry option" where
  "object_entry ob = (case (k_envelope ob, k_expires_at ob) of
     (Some e, Some x) \<Rightarrow> Some \<lparr>en_envelope = e, en_expires_at = x, en_disclosed = (k_disclosed ob = Some True)\<rparr>
   | _ \<Rightarrow> None)"

definition object_consistent :: "'e cache_object \<Rightarrow> bool" where
  "object_consistent ob \<longleftrightarrow> k_alarm ob = k_expires_at ob \<and> (k_envelope ob = None \<longleftrightarrow> k_expires_at ob = None)"

lemma object_put_entry: "object_entry (object_store_put t e ttl ob) = Some (stored_entry t e ttl)"
  by (simp add: object_entry_def object_store_put_def stored_entry_def)

lemma object_get_result:
  "fst (object_store_get t adj ob) = map_option en_envelope (unexpired t (object_entry ob))"
  by (cases "k_envelope ob"; cases "k_expires_at ob")
    (simp_all add: object_store_get_def object_entry_def unexpired_def Let_def)

lemma object_get_entry:
  "t \<le> now \<Longrightarrow> unexpired now (object_entry (snd (object_store_get t adj ob))) =
     unexpired now (map_option (disclosed_entry t adj) (unexpired t (object_entry ob)))"
  by (auto simp: object_store_get_def object_entry_def unexpired_def disclosed_entry_def Let_def split: option.splits)

lemma object_alarm_entry:
  "object_consistent ob \<Longrightarrow> t \<le> now \<Longrightarrow> unexpired now (object_entry (object_alarm t ob)) = unexpired now (object_entry ob)"
  by (auto simp: object_alarm_def object_entry_def unexpired_def object_consistent_def empty_object_def split: option.splits)

lemma object_ops_consistent:
  "object_consistent empty_object" "object_consistent (object_store_put t e ttl ob)"
  "object_consistent ob \<Longrightarrow> object_consistent (snd (object_store_get t adj ob))"
  "object_consistent ob \<Longrightarrow> object_consistent (object_alarm t ob)"
  by (auto simp: object_consistent_def empty_object_def object_store_put_def object_store_get_def object_alarm_def
      Let_def split: option.splits)

interpretation durable: evidence_store "\<lambda>ns. \<forall>k. object_consistent (ns k)"
    "\<lambda>ns now k. unexpired now (object_entry (ns k))" namespace_put namespace_get namespace_alarm "\<lambda>_. empty_object"
proof
  fix s :: "('k, 'e) object_store" and t now :: int and k k' :: 'k and e :: 'e and ttl adj :: int
  show "\<forall>k. object_consistent (empty_object :: 'e cache_object)" by (simp add: object_ops_consistent)
  show "unexpired now (object_entry (empty_object :: 'e cache_object)) = None"
    by (simp add: object_entry_def empty_object_def)
  assume ok: "\<forall>k. object_consistent (s k)"
  show "\<forall>k'. object_consistent (namespace_put t k e ttl s k')"
    using ok by (simp add: namespace_put_def object_ops_consistent)
  show "\<forall>k'. object_consistent (snd (namespace_get t k adj s) k')"
    using ok by (simp add: namespace_get_def split_def object_ops_consistent)
  show "\<forall>k'. object_consistent (namespace_alarm t k s k')"
    using ok by (simp add: namespace_alarm_def object_ops_consistent)
  show "fst (namespace_get t k adj s) = map_option en_envelope (unexpired t (object_entry (s k)))"
    by (simp add: namespace_get_def split_def object_get_result)
  assume t: "t \<le> now"
  show "unexpired now (object_entry (namespace_put t k e ttl s k')) =
      (if k' = k then unexpired now (Some (stored_entry t e ttl)) else unexpired now (object_entry (s k')))"
    by (simp add: namespace_put_def object_put_entry)
  show "unexpired now (object_entry (snd (namespace_get t k adj s) k')) =
      (if k' = k then unexpired now (map_option (disclosed_entry t adj) (unexpired t (object_entry (s k))))
       else unexpired now (object_entry (s k')))"
    using object_get_entry [OF t, of adj "s k"] by (simp add: namespace_get_def split_def)
  show "unexpired now (object_entry (namespace_alarm t k s k')) = unexpired now (object_entry (s k'))"
    using ok t by (simp add: namespace_alarm_def object_alarm_entry)
  show "unexpired now (object_entry (s k)) = unexpired now (unexpired t (object_entry (s k)))"
    using t by (simp add: unexpired_unexpired)
qed

section \<open>The envelope and its gate\<close>

record envelope_request =
  eq_method :: jstring
  eq_url :: jstring
  eq_body :: "jstring option"

record envelope_response =
  es_status :: jsnum
  es_content_type :: json
  es_body :: jstring
  es_body_truncated :: bool

record envelope =
  ev_request_id :: jstring
  ev_slug :: jstring
  ev_request :: envelope_request
  ev_response :: envelope_response
  ev_cached_at :: int

text \<open>\<open>TextDecoder\<close> is the platform's: a parameter.\<close>

definition build_envelope ::
  "(8 word list \<Rightarrow> jstring) \<Rightarrow> jstring \<Rightarrow> jstring \<Rightarrow> jstring \<Rightarrow> jstring \<Rightarrow> 8 word list option \<Rightarrow>
   verification_result \<Rightarrow> int \<Rightarrow> envelope" where
  "build_envelope decode request_id slug meth url request_body result now =
     \<lparr>ev_request_id = request_id, ev_slug = slug,
      ev_request = \<lparr>eq_method = meth, eq_url = url, eq_body = map_option decode request_body\<rparr>,
      ev_response = \<lparr>es_status = (case vr_status result of Some n \<Rightarrow> n | None \<Rightarrow> Fin 0),
        es_content_type = nullish (json_member (vr_headers result) ''content-type'') JNull,
        es_body = vr_body result, es_body_truncated = vr_body_truncated result\<rparr>,
      ev_cached_at = now\<rparr>"

definition disclosure_message :: "jstring \<Rightarrow> jstring" where
  "disclosure_message request_id = js ''Verdikt evidence disclosure'' @ [10] @ js ''request: '' @ lower request_id"

record stored_verdict =
  sv_service_id :: jstring
  sv_outcome :: outcome
  sv_payer :: jstring

record refusal =
  rf_status :: nat
  rf_error :: jstring
  rf_detail :: jstring

text \<open>The registry read may throw, or answer \<open>None\<close> for no verdict. \<open>Inr\<close> is the payer.\<close>

definition authorize_disclosure ::
  "(jstring \<Rightarrow> stored_verdict option result) \<Rightarrow> jstring \<Rightarrow> jstring option \<Rightarrow> refusal + jstring" where
  "authorize_disclosure get_verdict request_id signature = (case get_verdict request_id of
     Inl m \<Rightarrow> Inl \<lparr>rf_status = 503, rf_error = js ''registry_unavailable'', rf_detail = m\<rparr>
   | Inr None \<Rightarrow> Inl \<lparr>rf_status = 404, rf_error = js ''no_verdict'',
        rf_detail = js ''no verdict was written for '' @ request_id\<rparr>
   | Inr (Some v) \<Rightarrow> Inr (sv_payer v))"

section \<open>Properties\<close>

text \<open>
  C21: The in-memory store and the Durable Object store return the same envelopes: on every sequence
  of stores, reads and alarms whose times do not go backwards, each read answers the same,
  with alarms firing late or not at all, and both answer what the deadline map says.
\<close>

theorem evidence_stores_agree:
  assumes "in_time_order cs"
  shows "run_with memory_put memory_get (\<lambda>_ _ s. s) cs Map.empty =
     run_with namespace_put namespace_get namespace_alarm cs (\<lambda>_. empty_object) \<and>
   run_with memory_put memory_get (\<lambda>_ _ s. s) cs Map.empty = spec_run cs Map.empty"
  using memory.refines_map [OF assms] durable.refines_map [OF assms] by simp

definition example_store_calls :: "(nat, nat) store_call list" where
  "example_store_calls = [Store 0 1 42 100, Read 90 1 50, Sweep 100 1, Read 130 1 50, Sweep 139 1, Read 141 1 50]"

theorem evidence_stores_agree_witness:
  "run_with namespace_put namespace_get namespace_alarm example_store_calls (\<lambda>_. empty_object) = [Some 42, Some 42, None]"
proof -
  have "in_time_order example_store_calls" by (simp add: in_time_order_def example_store_calls_def)
  moreover have "run_with memory_put memory_get (\<lambda>_ _ s. s) example_store_calls Map.empty = [Some 42, Some 42, None]"
    by (simp add: example_store_calls_def memory_put_def memory_get_def memory_live_def)
  ultimately show ?thesis using evidence_stores_agree [of example_store_calls] by simp
qed

text \<open>
  The two clocks of the Durable Object: an envelope is served up to its deadline and never at or
  after it; the first read gives at least the whole adjudication runway and never shortens
  the filing window; later reads do not move the deadline.
\<close>

theorem reading_never_shortens:
  assumes "object_entry ob = Some x" "t < en_expires_at x" "t \<le> now"
  shows "fst (object_store_get t adj ob) = Some (en_envelope x) \<and>
     (fst (object_store_get now adj' (snd (object_store_get t adj ob))) = Some (en_envelope x) \<longleftrightarrow>
        now < en_expires_at x \<or> \<not> en_disclosed x \<and> now < t + adj)"
proof -
  have l: "unexpired t (object_entry ob) = Some x" using assms(1,2) by (simp add: unexpired_def)
  have "fst (object_store_get now adj' (snd (object_store_get t adj ob))) =
      map_option en_envelope (unexpired now (Some (disclosed_entry t adj x)))"
    using object_get_result [of now adj' "snd (object_store_get t adj ob)"] object_get_entry [OF assms(3), of adj ob]
    by (simp add: l)
  also have "\<dots> = (if now < en_expires_at (disclosed_entry t adj x) then Some (en_envelope x) else None)"
    by (simp add: unexpired_def disclosed_entry_def)
  finally show ?thesis
    using object_get_result [of t adj ob] by (auto simp: l disclosed_entry_def)
qed

theorem reading_never_shortens_witness:
  "fst (object_store_get 120 9 (snd (object_store_get 90 50 (object_store_put 0 (7 :: nat) 100 empty_object)))) = Some 7"
  using reading_never_shortens [of "object_store_put 0 (7 :: nat) 100 empty_object" "stored_entry 0 7 100" 90 120 50 9]
  by (simp add: object_put_entry stored_entry_def)

text \<open>
  Evidence is disclosed exactly for calls with a verdict on record, and the payer reported is
  the one that verdict booked; the signature the caller presents, or its absence, changes
  nothing.
\<close>

theorem disclosure_ignores_signature:
  "(authorize_disclosure get_verdict i sig = Inr payer \<longleftrightarrow> (\<exists>v. get_verdict i = Inr (Some v) \<and> payer = sv_payer v)) \<and>
   authorize_disclosure get_verdict i sig = authorize_disclosure get_verdict i sig'"
  by (auto simp: authorize_disclosure_def split: sum.splits option.splits)

end
