(* ===== verification/Relay_Payload.thy ===== *)
theory Relay_Payload imports JS_Json "HOL-Library.Multiset" begin

text \<open>
  \<open>cre/lib/relay-payload.js\<close>: the workflow's result, serialized and trimmed until it fits the
  response budget. The lemmas measure the UTF-8 length of a serialized object member by member.
\<close>

section \<open>The functions\<close>

definition RESPONSE_BUDGET_BYTES :: int where "RESPONSE_BUDGET_BYTES = 90000"

definition FIT_ATTEMPTS :: nat where "FIT_ATTEMPTS = 8"

text \<open>\<open>{ requestId, ...result, body, bodyTruncated }\<close>\<close>

definition serialize :: "jstring \<Rightarrow> members \<Rightarrow> jstring \<Rightarrow> bool \<Rightarrow> jstring" where
  "serialize request_id result body body_truncated = stringify (JObj
     (obj_put (js ''bodyTruncated'') (JBool body_truncated)
     (obj_put (js ''body'') (JStr body)
     (fold (\<lambda>(k, v). obj_put k v) result [(js ''requestId'', JStr request_id)]))))"

definition result_body :: "members \<Rightarrow> jstring" where
  "result_body result = (case member result ''body'' of Some (JStr s) \<Rightarrow> s | _ \<Rightarrow> [])"

text \<open>The loop, by the attempts it has left.\<close>

fun fit_loop :: "nat \<Rightarrow> jstring \<Rightarrow> members \<Rightarrow> int \<Rightarrow> jstring \<Rightarrow> jstring \<Rightarrow> jstring" where
  "fit_loop 0 request_id result budget body payload = payload"
| "fit_loop (Suc n) request_id result budget body payload =
     (if body = [] then payload
      else let over = int (utf8_length payload) - budget in
        if over \<le> 0 then payload
        else let body' = take (nat (max 0 (int (length body) - max over 1))) body in
          fit_loop n request_id result budget body' (serialize request_id result body' True))"

definition fit_to_budget :: "jstring \<Rightarrow> members \<Rightarrow> int \<Rightarrow> jstring" where
  "fit_to_budget request_id result budget =
     (let full_body = result_body result;
          payload = serialize request_id result full_body False in
      if int (utf8_length payload) \<le> budget then payload
      else fit_loop FIT_ATTEMPTS request_id result budget full_body payload)"

section \<open>UTF-8 length, piece by piece\<close>

text \<open>A low surrogate at the front of a text may pair with what stands before it.\<close>

definition pairs_left :: "jstring \<Rightarrow> bool" where
  "pairs_left s \<longleftrightarrow> s \<noteq> [] \<and> low_surrogate (hd s)"

lemma surrogates_disjoint: "high_surrogate c \<Longrightarrow> \<not> low_surrogate c"
  by (auto simp: high_surrogate_def low_surrogate_def word_le_nat_alt)

lemma utf8_append: "\<not> pairs_left b \<Longrightarrow> utf8 (a @ b) = utf8 a @ utf8 b"
proof (induction a rule: utf8.induct)
  case (2 c r)
  show ?case
  proof (cases r)
    case Nil
    then show ?thesis using 2 by (cases b) (auto simp: pairs_left_def)
  next
    case (Cons d r')
    then show ?thesis using 2 by auto
  qed
qed simp

lemma utf8_length_append: "\<not> pairs_left b \<Longrightarrow> utf8_length (a @ b) = utf8_length a + utf8_length b"
  by (simp add: utf8_length_def utf8_append)

lemma ascii_unit: "c < 128 \<Longrightarrow> \<not> high_surrogate c \<and> \<not> low_surrogate c \<and> unat c < 128"
  by (auto simp: high_surrogate_def low_surrogate_def word_le_nat_alt word_less_nat_alt)

lemma utf8_length_ascii: "list_all (\<lambda>c. c < 128) a \<Longrightarrow> utf8_length (a @ r) = length a + utf8_length r"
proof (induction a)
  case (Cons c a)
  then show ?case using ascii_unit [of c] by (simp add: utf8_length_def utf8_point_def)
qed simp

lemma hex_digit_ascii: "d < 16 \<Longrightarrow> hex_digit d < 128"
  by (auto simp: hex_digit_def word_less_nat_alt unat_word_ariths unat_of_nat)

lemma hex4_ascii: "list_all (\<lambda>c. c < 128) (hex4 c)" "length (hex4 c) = 4"
  by (simp_all add: hex4_def hex_digit_ascii)

lemma utf8_length_escape: "utf8_length (92 # 117 # hex4 c @ r) = 6 + utf8_length r"
  using utf8_length_ascii [of "92 # 117 # hex4 c" r] hex4_ascii [of c] by simp

lemma utf8_length_pair: "high_surrogate c \<Longrightarrow> low_surrogate d \<Longrightarrow> utf8_length (c # d # r) = 4 + utf8_length r"
  by (simp add: utf8_length_def utf8_point_def code_point_def)

lemma utf8_length_Cons: "utf8_length (c # r) \<ge> 1"
  by (cases r) (auto simp: utf8_length_def utf8_point_def)

section \<open>The length of a quoted text\<close>

definition quoted_length :: "jstring \<Rightarrow> nat" where
  "quoted_length s = utf8_length (quote_body s)"

lemma quote_unit_units: "quote_unit c \<noteq> []" "\<not> high_surrogate c \<Longrightarrow> \<not> low_surrogate c \<Longrightarrow> \<not> low_surrogate (hd (quote_unit c))"
  by (auto simp: quote_unit_def low_surrogate_def word_le_nat_alt)

lemma quote_body_head: "\<not> pairs_left (quote_body s @ 34 # r)" "\<not> pairs_left (quote_body s)"
proof -
  have "low_surrogate 92 = False" "low_surrogate 34 = False" by (simp_all add: low_surrogate_def)
  then show "\<not> pairs_left (quote_body s @ 34 # r)" "\<not> pairs_left (quote_body s)"
    using surrogates_disjoint quote_unit_units
    by (cases s; auto simp: pairs_left_def hd_append split: list.splits if_splits)+
qed

lemma quote_body_append:
  "\<not> (u \<noteq> [] \<and> high_surrogate (last u) \<and> pairs_left v) \<Longrightarrow> quote_body (u @ v) = quote_body u @ quote_body v"
proof (induction u rule: quote_body.induct)
  case (2 c r)
  show ?case
  proof (cases r)
    case Nil
    then show ?thesis using 2 by (cases v) (auto simp: pairs_left_def)
  next
    case (Cons d r')
    then show ?thesis using 2 by (auto split: if_splits simp: surrogates_disjoint)
  qed
qed simp

lemma quoted_length_append:
  "\<not> (u \<noteq> [] \<and> high_surrogate (last u) \<and> pairs_left v) \<Longrightarrow> quoted_length (u @ v) = quoted_length u + quoted_length v"
  by (simp add: quoted_length_def quote_body_append utf8_length_append quote_body_head)

lemma quoted_length_ge: "length s \<le> quoted_length s"
  unfolding quoted_length_def
proof (induction s rule: quote_body.induct)
  case (2 c r)
  have escaped: "Suc (length r) \<le> utf8_length (92 # 117 # hex4 c @ quote_body r)"
    if "length r \<le> utf8_length (quote_body r)"
    using that by (simp add: utf8_length_escape)
  consider (high) "high_surrogate c" | (low) "\<not> high_surrogate c" "low_surrogate c"
    | (other) "\<not> high_surrogate c" "\<not> low_surrogate c" by blast
  then show ?case
  proof cases
    case high
    show ?thesis
    proof (cases r)
      case Nil
      then show ?thesis using high utf8_length_Cons [of 92 "117 # hex4 c"] by simp
    next
      case (Cons d r')
      show ?thesis
      proof (cases "low_surrogate d")
        case True
        then show ?thesis using high Cons 2(1) [OF high Cons True] by (simp add: utf8_length_pair)
      next
        case False
        have "quote_body (c # r) = 92 # 117 # hex4 c @ quote_body r" using high Cons False by simp
        then show ?thesis using escaped 2(2) [OF high Cons False] by simp
      qed
    qed
  next
    case low
    have "quote_body (c # r) = 92 # 117 # hex4 c @ quote_body r" using low by simp
    then show ?thesis using escaped 2(3) [OF low] by simp
  next
    case False: other
    have "utf8_length (quote_unit c @ quote_body r) = utf8_length (quote_unit c) + utf8_length (quote_body r)"
      by (simp add: utf8_length_append quote_body_head)
    moreover have "1 \<le> utf8_length (quote_unit c)"
      using utf8_length_Cons quote_unit_units(1) [of c] by (cases "quote_unit c") auto
    ultimately show ?thesis using False 2(4) by auto
  qed
qed simp

lemma quoted_length_high: "high_surrogate h \<Longrightarrow> quoted_length (u @ [h]) = quoted_length u + 6"
  using quoted_length_append [of u "[h]"] utf8_length_escape [of h "[]"]
  by (simp add: pairs_left_def surrogates_disjoint quoted_length_def utf8_length_def)

text \<open>Cutting \<open>n\<close> units frees \<open>n\<close> bytes, unless the cut leaves half a surrogate pair.\<close>

lemma quoted_length_cut:
  assumes "v \<noteq> []"
  shows "quoted_length u + length v \<le> quoted_length (u @ v) \<or>
     (\<exists>u' h. u = u' @ [h] \<and> high_surrogate h \<and> quoted_length u + length v \<le> quoted_length (u @ v) + 3)"
proof (cases "u \<noteq> [] \<and> high_surrogate (last u) \<and> pairs_left v")
  case True
  then obtain u' h l v' where uv: "u = u' @ [h]" "high_surrogate h" "v = l # v'" "low_surrogate l"
    by (metis append_butlast_last_id list.exhaust_sel pairs_left_def)
  have "quoted_length (u' @ [h, l] @ v') = quoted_length u' + quoted_length ([h, l] @ v')"
    using uv by (intro quoted_length_append) (simp add: pairs_left_def surrogates_disjoint)
  also have "quoted_length ([h, l] @ v') = quoted_length [h, l] + quoted_length v'"
    using uv surrogates_disjoint by (intro quoted_length_append) auto
  also have "quoted_length [h, l] = 4"
    using uv utf8_length_pair [of h l "[]"] by (simp add: quoted_length_def utf8_length_def)
  finally have "quoted_length (u @ v) = quoted_length u' + 4 + quoted_length v'"
    using uv by simp
  then show ?thesis
    using uv quoted_length_high [of h u'] quoted_length_ge [of v'] by auto
next
  case False
  then show ?thesis using quoted_length_append [of u v] quoted_length_ge [of v] by simp
qed

section \<open>The length of a serialized object\<close>

definition member_length :: "jstring \<times> json \<Rightarrow> nat" where
  "member_length p = utf8_length (quote (fst p) @ js '':'' @ stringify (snd p))"

definition rest_length :: "jstring set \<Rightarrow> members \<Rightarrow> nat" where
  "rest_length ks ps = sum_mset (image_mset member_length (filter_mset (\<lambda>p. fst p \<notin> ks) (mset ps)))"

lemma utf8_length_quote: "utf8_length (quote s @ r) = 2 + quoted_length s + utf8_length r"
proof -
  have "\<not> pairs_left (34 # r)" by (simp add: pairs_left_def low_surrogate_def)
  then have "utf8_length (quote_body s @ 34 # r) = quoted_length s + utf8_length (34 # r)"
    by (simp add: utf8_length_append quoted_length_def)
  then show ?thesis
    using utf8_length_ascii [of "[34]" r] utf8_length_ascii [of "[34]" "quote_body s @ 34 # r"] by (simp add: quote_def)
qed

lemma utf8_length_Nil: "utf8_length [] = 0"
  by (simp add: utf8_length_def)

lemma member_length_text:
  "list_all (\<lambda>c. c < 128) (js t) \<Longrightarrow>
     utf8_length (quote k @ js t @ r) = 2 + quoted_length k + length (js t) + utf8_length r"
  by (simp add: utf8_length_quote utf8_length_ascii)

lemma member_length_string: "member_length (k, JStr s) = 5 + quoted_length k + quoted_length s"
  using member_length_text [of "'':''" k "quote s"] utf8_length_quote [of s "[]"]
  by (simp add: member_length_def js_def utf8_length_Nil)

lemma member_length_bool: "member_length (k, JBool b) = (if b then 7 else 8) + quoted_length k"
  using member_length_text [of "'':true''" k "[]"] member_length_text [of "'':false''" k "[]"]
  by (simp add: member_length_def js_def utf8_length_Nil)

lemma utf8_length_members:
  "ps \<noteq> [] \<Longrightarrow> Suc (utf8_length (join_with (js '','') (map (\<lambda>p. quote (fst p) @ js '':'' @ stringify (snd p)) ps))) =
     length ps + sum_list (map member_length ps)"
proof (induction ps rule: induct_list012)
  case (3 p q ps)
  let ?t = "join_with (js '','') (map (\<lambda>p. quote (fst p) @ js '':'' @ stringify (snd p)) (q # ps))"
  let ?p = "quote (fst p) @ js '':'' @ stringify (snd p)"
  have "\<not> pairs_left (js '','' @ ?t)" by (simp add: pairs_left_def js_def low_surrogate_def)
  then have "utf8_length (?p @ js '','' @ ?t) = utf8_length ?p + utf8_length (js '','' @ ?t)"
    by (rule utf8_length_append)
  moreover have "utf8_length (js '','' @ ?t) = Suc (utf8_length ?t)"
    using utf8_length_ascii [of "js '',''" ?t] by (simp add: js_def)
  moreover have "join_with (js '','') (map (\<lambda>p. quote (fst p) @ js '':'' @ stringify (snd p)) (p # q # ps)) = ?p @ js '','' @ ?t"
    by simp
  ultimately show ?case using 3(2) by (simp add: member_length_def)
qed (simp_all add: member_length_def)

lemma utf8_length_object:
  "ps \<noteq> [] \<Longrightarrow> utf8_length (stringify (JObj ps)) = 1 + length ps + sum_mset (image_mset member_length (mset ps))"
proof -
  assume ps: "ps \<noteq> []"
  let ?t = "join_with (js '','') (map (\<lambda>p. quote (fst p) @ js '':'' @ stringify (snd p)) ps)"
  have "\<not> pairs_left (js ''}'')" by (simp add: pairs_left_def js_def low_surrogate_def)
  then have "utf8_length (?t @ js ''}'') = utf8_length ?t + utf8_length (js ''}'')" by (rule utf8_length_append)
  moreover have "utf8_length (js ''}'') = 1" using utf8_length_ascii [of "js ''}''" "[]"] by (simp add: js_def utf8_length_def)
  moreover have "utf8_length (js ''{'' @ ?t @ js ''}'') = Suc (utf8_length (?t @ js ''}''))"
    using utf8_length_ascii [of "js ''{''" "?t @ js ''}''"] by (simp add: js_def)
  ultimately show ?thesis
    using utf8_length_members [OF ps] by (simp add: sum_mset_sum_list [symmetric] flip: mset_map)
qed

section \<open>Setting a member\<close>

lemma mset_insert_index: "mset (insert_index k v ps) = add_mset (k, v) (mset ps)"
  by (induction k v ps rule: insert_index.induct) auto

lemma mset_replace:
  "distinct (map fst ps) \<Longrightarrow> k \<in> fst ` set ps \<Longrightarrow>
     mset (map (\<lambda>p. if fst p = k then (k, v) else p) ps) = add_mset (k, v) (filter_mset (\<lambda>p. fst p \<noteq> k) (mset ps))"
proof (induction ps)
  case (Cons p ps)
  show ?case
  proof (cases "fst p = k")
    case True
    then have "\<forall>p\<in>set ps. fst p \<noteq> k" using Cons.prems(1) by (auto simp: image_iff)
    then have "map (\<lambda>p. if fst p = k then (k, v) else p) ps = ps" "filter_mset (\<lambda>p. fst p \<noteq> k) (mset ps) = mset ps"
      by (auto intro!: map_idI simp: filter_mset_eq_conv)
    then show ?thesis using True by simp
  next
    case False
    then show ?thesis using Cons by auto
  qed
qed simp

lemma has_own_keys: "has_own ps k \<longleftrightarrow> k \<in> fst ` set ps"
  by (simp add: has_own_def object_keys_def)

lemma mset_obj_put:
  assumes "distinct (map fst ps)"
  shows "mset (obj_put k v ps) = add_mset (k, v) (filter_mset (\<lambda>p. fst p \<noteq> k) (mset ps))"
proof (cases "has_own ps k")
  case True
  then show ?thesis using mset_replace [OF assms] by (simp add: obj_put_def has_own_keys)
next
  case False
  then have "\<forall>p\<in>set ps. fst p \<noteq> k" by (auto simp: has_own_keys)
  then have "filter_mset (\<lambda>p. fst p \<noteq> k) (mset ps) = mset ps" by (auto simp: filter_mset_eq_conv)
  then show ?thesis using False by (simp add: obj_put_def mset_insert_index)
qed

lemma distinct_fold_put: "distinct (map fst ps) \<Longrightarrow> distinct (map fst (fold (\<lambda>(k, v). obj_put k v) result ps))"
  by (induction result arbitrary: ps) (auto intro: distinct_obj_put)

lemma rest_obj_put:
  "distinct (map fst ps) \<Longrightarrow> k \<notin> ks \<Longrightarrow> rest_length ks (obj_put k v ps) = member_length (k, v) + rest_length (insert k ks) ps"
  by (simp add: rest_length_def mset_obj_put filter_filter_mset conj_commute)

lemma length_obj_put: "distinct (map fst ps) \<Longrightarrow> length (obj_put k v ps) = Suc (size (filter_mset (\<lambda>p. fst p \<noteq> k) (mset ps)))"
  by (metis mset_obj_put size_add_mset size_mset)

text \<open>The text of the body is the only thing the length of the payload depends on.\<close>

lemma serialize_length:
  "\<exists>c. \<forall>b t. utf8_length (serialize request_id result b t) + (if t then 1 else 0) = c + quoted_length b"
proof -
  define base where "base = fold (\<lambda>(k, v). obj_put k v) result [(js ''requestId'', JStr request_id)]"
  have d: "distinct (map fst base)" unfolding base_def by (rule distinct_fold_put) simp
  have ne: "js ''bodyTruncated'' \<noteq> js ''body''" by (simp add: js_def)
  define others where "others = filter_mset (\<lambda>p. fst p \<noteq> js ''bodyTruncated'' \<and> fst p \<noteq> js ''body'') (mset base)"
  define c where "c = 16 + size others + sum_mset (image_mset member_length others) +
    quoted_length (js ''bodyTruncated'') + quoted_length (js ''body'')"
  have "utf8_length (serialize request_id result b t) + (if t then 1 else 0) = c + quoted_length b" for b t
  proof -
    let ?b = "obj_put (js ''body'') (JStr b) base"
    let ?ps = "obj_put (js ''bodyTruncated'') (JBool t) ?b"
    have db: "distinct (map fst ?b)" by (rule distinct_obj_put [OF d])
    have m: "mset ?ps = add_mset (js ''bodyTruncated'', JBool t) (add_mset (js ''body'', JStr b) others)"
      using ne by (simp add: mset_obj_put [OF db] mset_obj_put [OF d] others_def filter_filter_mset conj_commute)
    then have "?ps \<noteq> []" "length ?ps = 2 + size others" by (metis mset.simps(1) add_mset_eq_single empty_not_add_mset, metis size_mset size_add_mset add_2_eq_Suc)
    then show ?thesis
      using utf8_length_object [of ?ps] m ne
      by (simp add: serialize_def base_def [symmetric] c_def member_length_string member_length_bool)
  qed
  then show ?thesis by blast
qed

lemma fit_loop_empty: "fit_loop n request_id result budget [] payload = payload"
  by (cases n) simp_all

lemma fit_loop_cut:
  assumes "body \<noteq> []" "budget < int (utf8_length payload)"
  shows "fit_loop (Suc n) request_id result budget body payload =
     (let body' = take (length body - nat (int (utf8_length payload) - budget)) body in
      fit_loop n request_id result budget body' (serialize request_id result body' True))"
proof -
  have k: "nat (max 0 (int (length body) - max (int (utf8_length payload) - budget) 1)) =
      length body - nat (int (utf8_length payload) - budget)"
    using assms(2) by auto
  show ?thesis unfolding fit_loop.simps Let_def k using assms by simp
qed

lemma fit_loop_prefix:
  "payload = serialize request_id result body t \<Longrightarrow>
     \<exists>k \<le> length body. fit_loop n request_id result budget body payload =
       serialize request_id result (take k body) (t \<or> k < length body)"
proof (induction n arbitrary: body payload t)
  case (Suc n)
  show ?case
  proof (cases "body = [] \<or> int (utf8_length payload) - budget \<le> 0")
    case True
    then show ?thesis using Suc.prems by (intro exI [of _ "length body"]) (auto simp: Let_def)
  next
    case False
    let ?k = "length body - nat (int (utf8_length payload) - budget)"
    have lt: "?k < length body" using False by (auto simp: length_greater_0_conv [symmetric] simp del: length_greater_0_conv)
    obtain j where j: "j \<le> length (take ?k body)"
      "fit_loop n request_id result budget (take ?k body) (serialize request_id result (take ?k body) True) =
         serialize request_id result (take j (take ?k body)) (True \<or> j < length (take ?k body))"
      using Suc.IH [OF refl, of "take ?k body" True] by blast
    have "fit_loop (Suc n) request_id result budget body payload =
        fit_loop n request_id result budget (take ?k body) (serialize request_id result (take ?k body) True)"
      using False fit_loop_cut [of body budget payload n] by (simp del: fit_loop.simps add: Let_def)
    then show ?thesis using j lt by (intro exI [of _ j]) auto
  qed
qed (auto intro: exI [of _ "length body"])

text \<open>From an overflow of at most two bytes after a cut, one more cut is enough.\<close>

lemma fit_loop_fits:
  assumes c: "\<And>b t. utf8_length (serialize request_id result b t) + (if t then 1 else 0) = c + quoted_length b"
    and fits: "int c \<le> budget" and payload: "payload = serialize request_id result body False" and n: "2 \<le> n" and body: "body \<noteq> []"
  shows "int (utf8_length (fit_loop n request_id result budget body payload)) \<le> budget"
proof -
  have short: "int (utf8_length (fit_loop m request_id result budget b (serialize request_id result b True))) \<le> budget"
    if "int (utf8_length (serialize request_id result b True)) \<le> budget" for m b
    using that by (cases m) auto
  have nil: "int (utf8_length (serialize request_id result [] True)) \<le> budget"
    using c [of "[]" True] fits by (simp add: quoted_length_def utf8_length_def)
  obtain m where m: "n = Suc (Suc m)" using n by (metis add_2_eq_Suc le_Suc_ex)
  have half_pair: "int (utf8_length (fit_loop (Suc m) request_id result budget u (serialize request_id result u True))) \<le> budget"
    if u: "u = u' @ [h]" "high_surrogate h" and small: "int (utf8_length (serialize request_id result u True)) \<le> budget + 2"
    for u u' h
  proof (cases "int (utf8_length (serialize request_id result u True)) \<le> budget")
    case False
    define x where "x = nat (int (utf8_length (serialize request_id result u True)) - budget)"
    define w where "w = take (length u - x) u"
    have x: "x = 1 \<or> x = 2" using small False by (auto simp: x_def)
    have q: "quoted_length u = quoted_length u' + 6" using quoted_length_high [OF u(2)] u(1) by simp
    have "w = [] \<or> quoted_length w + 4 \<le> quoted_length u"
    proof (cases "x = 1 \<or> u' = []")
      case True
      then show ?thesis using u(1) x q by (auto simp: w_def)
    next
      case False
      then obtain ys y where "u' = ys @ [y]" using rev_exhaust by blast
      then have "u' = w @ [y]" using u(1) x False by (simp add: w_def)
      then show ?thesis using quoted_length_cut [of "[y]" w] q by auto
    qed
    then have "int (utf8_length (serialize request_id result w True)) \<le> budget"
      using nil c [of w True] c [of u True] small by auto
    then show ?thesis
      using short [of w m] fit_loop_cut [of u budget "serialize request_id result u True" m] False u(1)
      by (simp del: fit_loop.simps add: Let_def w_def x_def)
  qed (rule short)
  show ?thesis
  proof (cases "int (utf8_length payload) - budget \<le> 0")
    case True
    then show ?thesis using m body by (simp add: Let_def)
  next
    case False
    define over where "over = nat (int (utf8_length payload) - budget)"
    define u where "u = take (length body - over) body"
    define v where "v = drop (length body - over) body"
    have over: "0 < over" "int over = int (utf8_length payload) - budget" using False by (auto simp: over_def)
    have len: "length v = min over (length body)" by (simp add: v_def min_def)
    have "0 < length v" using over(1) body by (simp add: len)
    then have uv: "body = u @ v" "v \<noteq> []" "length v = min over (length body)" using len by (auto simp: u_def v_def)
    have step: "fit_loop n request_id result budget body payload =
        fit_loop (Suc m) request_id result budget u (serialize request_id result u True)"
      using False body m fit_loop_cut [of body budget payload "Suc m"] by (simp del: fit_loop.simps add: Let_def u_def over_def)
    have before: "int (utf8_length payload) = int c + int (quoted_length (u @ v))"
      using c [of body False] payload uv(1) by simp
    have after: "int (utf8_length (serialize request_id result u True)) = int c + int (quoted_length u) - 1"
      using c [of u True] by simp
    show ?thesis
    proof (cases "u = []")
      case True
      then show ?thesis using step nil short by simp
    next
      case False
      then have "0 < length body - over" by (simp add: u_def)
      then have lv: "length v = over" using len by simp
      from quoted_length_cut [OF uv(2), of u] show ?thesis
      proof
        assume "quoted_length u + length v \<le> quoted_length (u @ v)"
        then have "int (utf8_length (serialize request_id result u True)) \<le> budget"
          using before after lv over(2) by linarith
        then show ?thesis unfolding step by (rule short)
      next
        assume "\<exists>u' h. u = u' @ [h] \<and> high_surrogate h \<and> quoted_length u + length v \<le> quoted_length (u @ v) + 3"
        then obtain u' h where h: "u = u' @ [h]" "high_surrogate h" "quoted_length u + length v \<le> quoted_length (u @ v) + 3" by blast
        have "int (utf8_length (serialize request_id result u True)) \<le> budget + 2"
          using h(3) before after lv over(2) by linarith
        then show ?thesis unfolding step by (rule half_pair [OF h(1,2)])
      qed
    qed
  qed
qed

section \<open>Properties\<close>

text \<open>
  The payload is never a lie: it is the result with a prefix of the body, flagged as truncated
  exactly when the prefix is shorter than the body, and the body is cut only when it is there
  and the whole payload is over the budget.
\<close>

theorem relay_payload_is_truthful:
  "\<exists>k \<le> length (result_body result).
     fit_to_budget request_id result budget =
       serialize request_id result (take k (result_body result)) (k < length (result_body result)) \<and>
     (k = length (result_body result) \<longleftrightarrow> result_body result = [] \<or>
        int (utf8_length (serialize request_id result (result_body result) False)) \<le> budget)"
proof -
  define body where "body = result_body result"
  define payload where "payload = serialize request_id result body False"
  show ?thesis
  proof (cases "body = [] \<or> int (utf8_length payload) \<le> budget")
    case True
    then have "fit_to_budget request_id result budget = payload"
      by (auto simp: fit_to_budget_def Let_def body_def payload_def fit_loop_empty)
    then show ?thesis
      using True by (intro exI [of _ "length body"]) (auto simp: body_def payload_def)
  next
    case False
    define cut where "cut = take (length body - nat (int (utf8_length payload) - budget)) body"
    have "fit_to_budget request_id result budget = fit_loop 7 request_id result budget cut (serialize request_id result cut True)"
      using False fit_loop_cut [of body budget payload 7]
      by (simp del: fit_loop.simps add: fit_to_budget_def Let_def body_def [symmetric] payload_def [symmetric] cut_def FIT_ATTEMPTS_def)
    moreover obtain k where "k \<le> length cut" "fit_loop 7 request_id result budget cut (serialize request_id result cut True) =
        serialize request_id result (take k cut) True"
      using fit_loop_prefix [of "serialize request_id result cut True" request_id result cut True 7 budget] by auto
    moreover have "length cut < length body" using False by (auto simp: cut_def)
    moreover have "take k cut = take k body" if "k \<le> length cut" for k
      using that by (simp add: cut_def min_absorb1)
    ultimately show ?thesis
      using False by (intro exI [of _ k]) (auto simp: body_def [symmetric] payload_def [symmetric])
  qed
qed

text \<open>
  C39: Eight attempts are enough: whenever the result without its body is within the budget, the
  payload is within the budget, whatever the body holds (multibyte text, characters that JSON
  escapes, and cuts that fall inside a surrogate pair).
\<close>

theorem relay_payload_fits:
  assumes "int (utf8_length (serialize request_id result [] False)) \<le> budget"
  shows "int (utf8_length (fit_to_budget request_id result budget)) \<le> budget"
proof -
  obtain c where c: "\<And>b t. utf8_length (serialize request_id result b t) + (if t then 1 else 0) = c + quoted_length b"
    using serialize_length by blast
  have "int c \<le> budget" using assms c [of "[]" False] by (simp add: quoted_length_def utf8_length_def)
  then show ?thesis
    using fit_loop_fits [OF c _ refl, of budget FIT_ATTEMPTS "result_body result"] assms
    by (cases "result_body result = []")
      (simp_all del: fit_loop.simps add: fit_to_budget_def Let_def FIT_ATTEMPTS_def fit_loop_empty)
qed

definition example_result :: members where
  "example_result = [(js ''outcome'', js_str ''PASS''), (js ''body'', js_str ''hello world'')]"

theorem relay_payload_fits_witness:
  "utf8_length (fit_to_budget (js ''r'') example_result 70) \<le> 70"
proof -
  have "utf8_length (serialize (js ''r'') example_result [] False) = 66" by code_simp
  then show ?thesis using relay_payload_fits [of "js ''r''" example_result 70] by simp
qed

end
