(* ===== verification/Discovery.thy ===== *)
theory Discovery imports Registry_Sdk Log_Scan begin

text \<open>
  \<open>proxy/src/discovery.js\<close>: the marketplace as an agent sees it, and its filters. A listing comes
  from the marketplace reader; its SLA, when it has one, went through \<open>parseSla\<close>.
\<close>

section \<open>Listings\<close>

record 'h listing =
  l_slug :: jstring
  l_name :: jstring
  l_service_id :: jstring
  l_status :: service_status
  l_provider :: jstring
  l_pay_to :: "jstring option"
  l_conformance :: "jsnum option" \<comment> \<open>published; \<open>None\<close> is \<open>null\<close>\<close>
  l_availability :: "jsnum option"
  l_history :: "'h list"
  l_deposit :: int
  l_sla :: "json option"

text \<open>Each bound is \<open>Some JNull\<close> where the SLA has no such clause.\<close>

record advertised_sla =
  a_max_latency_ms :: "json option"
  a_min_price :: "json option"
  a_max_price :: "json option"
  a_asset :: "json option"
  a_clauses :: "(json option \<times> json option) list"

record catalog_entry =
  c_slug :: jstring
  c_name :: jstring
  c_service_id :: jstring
  c_endpoint :: jstring
  c_status :: service_status
  c_provider :: jstring
  c_pay_to :: "jstring option"
  c_conformance :: "jsnum option"
  c_availability :: "jsnum option"
  c_verdicts :: nat
  c_published :: bool
  c_bond :: jstring
  c_sla :: advertised_sla

record discovery_query =
  q_min_conformance :: "jstring option"
  q_min_availability :: "jstring option"
  q_max_latency_ms :: "jstring option"
  q_max_price :: "jstring option"
  q_status :: "jstring option"

record discovery =
  d_count :: nat
  d_services :: "catalog_entry list"

definition clause_of_type :: "string \<Rightarrow> members list \<Rightarrow> members option" where
  "clause_of_type t cs = find (\<lambda>c. text_of c ''type'' = js t) cs"

definition bound_of :: "members option \<Rightarrow> string \<Rightarrow> json option" where
  "bound_of c k = (case c of Some m \<Rightarrow> member m k | None \<Rightarrow> Some JNull)"

definition advertised :: "json option \<Rightarrow> advertised_sla" where
  "advertised sla =
     (let clauses = (case sla of Some d \<Rightarrow> sla_clauses d | None \<Rightarrow> []);
          latency = clause_of_type ''latency'' clauses;
          price = clause_of_type ''priceRange'' clauses in
      \<lparr>a_max_latency_ms = bound_of latency ''maxMs'', a_min_price = bound_of price ''minMinorUnits'',
       a_max_price = bound_of price ''maxMinorUnits'', a_asset = bound_of price ''asset'',
       a_clauses = map (\<lambda>c. (member c ''id'', member c ''type'')) clauses\<rparr>)"

definition to_listing :: "'h listing \<Rightarrow> jstring \<Rightarrow> catalog_entry" where
  "to_listing l public_host =
     \<lparr>c_slug = l_slug l, c_name = l_name l, c_service_id = l_service_id l,
      c_endpoint = js ''https://'' @ l_slug l @ js ''.'' @ public_host,
      c_status = l_status l, c_provider = l_provider l, c_pay_to = l_pay_to l,
      c_conformance = l_conformance l, c_availability = l_availability l,
      c_verdicts = length (l_history l), c_published = (l_conformance l \<noteq> None),
      c_bond = dec_int (l_deposit l), c_sla = advertised (l_sla l)\<rparr>"

section \<open>Filters\<close>

text \<open>The number a value is in \<open>>\<close> with a number, for a value that is not \<open>null\<close>.\<close>

definition to_number :: "json option \<Rightarrow> jsnum" where
  "to_number v = (case v of
     None \<Rightarrow> NotNum
   | Some (JNum n) \<Rightarrow> n
   | Some JNull \<Rightarrow> Fin 0
   | Some (JBool b) \<Rightarrow> Fin (if b then 1 else 0)
   | Some w \<Rightarrow> number_of_string (to_str w))"

text \<open>
  \<open>toUpperCase\<close>, exact on which texts become a given ASCII word: beside the ASCII letters, the
  long s, the dotless i, the sharp s and the Latin ligatures have ASCII upper cases.
\<close>

definition upper_unit :: "code_unit \<Rightarrow> jstring" where
  "upper_unit c =
     (if 97 \<le> c \<and> c \<le> 122 then [c - 32]
      else if c = 383 then js ''S'' else if c = 305 then js ''I'' else if c = 223 then js ''SS''
      else if c = 64256 then js ''FF'' else if c = 64257 then js ''FI'' else if c = 64258 then js ''FL''
      else if c = 64259 then js ''FFI'' else if c = 64260 then js ''FFL''
      else if c = 64261 \<or> c = 64262 then js ''ST''
      else [c])"

definition upper :: "jstring \<Rightarrow> jstring" where
  "upper s = concat (map upper_unit s)"

definition status_name :: "service_status \<Rightarrow> jstring" where
  "status_name s = (case s of NONE \<Rightarrow> js ''NONE'' | ACTIVE \<Rightarrow> js ''ACTIVE'' | SUSPENDED \<Rightarrow> js ''SUSPENDED''
     | DEREGISTERED \<Rightarrow> js ''DEREGISTERED'')"

text \<open>One \<open>if (bound !== undefined)\<close> of \<open>matches\<close> each; \<open>True\<close> goes on to the next.\<close>

definition score_passes :: "jsnum option \<Rightarrow> jstring option \<Rightarrow> bool" where
  "score_passes score bound = (case bound of
     None \<Rightarrow> True
   | Some t \<Rightarrow> (case score of None \<Rightarrow> False | Some s \<Rightarrow> \<not> num_less s (number_of_string t)))"

definition latency_passes :: "json option \<Rightarrow> jstring option \<Rightarrow> bool" where
  "latency_passes v bound = (case bound of
     None \<Rightarrow> True
   | Some t \<Rightarrow> v \<noteq> Some JNull \<and> \<not> num_less (number_of_string t) (to_number v))"

definition to_bigint :: "json option \<Rightarrow> int result" where
  "to_bigint v = (case Option.bind v bigint_of_value of
     Some n \<Rightarrow> Inr n
   | None \<Rightarrow> Inl (js ''Cannot convert '' @ string_of_value v @ js '' to a BigInt''))"

definition price_passes :: "json option \<Rightarrow> jstring option \<Rightarrow> bool result" where
  "price_passes v bound = (case bound of
     None \<Rightarrow> Inr True
   | Some t \<Rightarrow>
       if v = Some JNull then Inr False
       else bind_r (to_bigint v) (\<lambda>price. bind_r (to_bigint (Some (JStr t))) (\<lambda>cap. Inr (\<not> price > cap))))"

definition matches :: "catalog_entry \<Rightarrow> discovery_query \<Rightarrow> bool result" where
  "matches e q =
     (if \<not> score_passes (c_conformance e) (q_min_conformance q) then Inr False
      else if \<not> score_passes (c_availability e) (q_min_availability q) then Inr False
      else if \<not> latency_passes (a_max_latency_ms (c_sla e)) (q_max_latency_ms q) then Inr False
      else bind_r (price_passes (a_max_price (c_sla e)) (q_max_price q)) (\<lambda>ok.
        if \<not> ok then Inr False
        else Inr (case q_status q of None \<Rightarrow> True | Some t \<Rightarrow> status_name (c_status e) = upper t)))"

definition discover :: "'h listing list \<Rightarrow> discovery_query \<Rightarrow> jstring \<Rightarrow> discovery result" where
  "discover listings q public_host =
     bind_r (filter_r (\<lambda>e. matches e q) (map (\<lambda>l. to_listing l public_host) listings)) (\<lambda>entries.
     Inr \<lparr>d_count = length entries, d_services = entries\<rparr>)"

section \<open>What a bound asks for\<close>

text \<open>
  The filters stated on the listing itself: a published score, a latency and a price promise in
  numbers. Nothing published satisfies no bound.
\<close>

definition scored_at_least :: "jsnum option \<Rightarrow> jstring option \<Rightarrow> bool" where
  "scored_at_least score bound = (case bound of
     None \<Rightarrow> True
   | Some t \<Rightarrow> (case (score, number_of_string t) of (Some (Fin s), Fin b) \<Rightarrow> b \<le> s | _ \<Rightarrow> False))"

definition promises :: "'h listing \<Rightarrow> string \<Rightarrow> members option" where
  "promises l t = clause_of_type t (case l_sla l of Some d \<Rightarrow> sla_clauses d | None \<Rightarrow> [])"

definition promised_latency :: "'h listing \<Rightarrow> jstring option \<Rightarrow> bool" where
  "promised_latency l bound = (case bound of
     None \<Rightarrow> True
   | Some t \<Rightarrow> (case promises l ''latency'' of
        None \<Rightarrow> False
      | Some c \<Rightarrow> \<not> num_less (number_of_string t) (number_of (member c ''maxMs''))))"

definition promised_price :: "'h listing \<Rightarrow> jstring option \<Rightarrow> bool" where
  "promised_price l bound = (case bound of
     None \<Rightarrow> True
   | Some t \<Rightarrow> (case promises l ''priceRange'' of
        None \<Rightarrow> False
      | Some c \<Rightarrow> undec (text_of c ''maxMinorUnits'') \<le> undec t))"

definition offers :: "discovery_query \<Rightarrow> 'h listing \<Rightarrow> bool" where
  "offers q l \<longleftrightarrow> scored_at_least (l_conformance l) (q_min_conformance q) \<and>
     scored_at_least (l_availability l) (q_min_availability q) \<and>
     promised_latency l (q_max_latency_ms q) \<and> promised_price l (q_max_price q) \<and>
     (case q_status q of None \<Rightarrow> True | Some t \<Rightarrow> status_name (l_status l) = upper t)"

text \<open>A query whose bounds are numbers, and a listing as the marketplace reader builds it.\<close>

definition numeric_query :: "discovery_query \<Rightarrow> bool" where
  "numeric_query q \<longleftrightarrow>
     (\<forall>t \<in> {q_min_conformance q, q_min_availability q}. case t of Some s \<Rightarrow> is_finite (number_of_string s) | None \<Rightarrow> True) \<and>
     (case q_max_price q of Some s \<Rightarrow> decimal_integer s | None \<Rightarrow> True)"

definition listable :: "'h listing \<Rightarrow> bool" where
  "listable l \<longleftrightarrow> (case l_sla l of Some d \<Rightarrow> wf_json d \<and> well_formed_sla d | None \<Rightarrow> True) \<and>
     (\<forall>n \<in> set_option (l_conformance l) \<union> set_option (l_availability l). is_finite n)"

lemma digit_unit_facts:
  assumes "is_digit c"
  shows "\<not> is_space c" "lower_unit c = c" "c \<noteq> 43" "c \<noteq> 45" "c \<noteq> 120" "c \<noteq> 111" "c \<noteq> 98"
proof -
  have c: "48 \<le> unat c" "unat c \<le> 57" using assms by (simp_all add: is_digit_def word_le_nat_alt)
  have "c \<noteq> d" if "unat d < 48 \<or> 57 < unat d" for d :: code_unit using c that by auto
  then show "c \<noteq> 43" "c \<noteq> 45" "c \<noteq> 120" "c \<noteq> 111" "c \<noteq> 98" by simp_all
  show "\<not> is_space c" using c by (auto simp: is_space_def word_le_nat_alt)
  show "lower_unit c = c" using c by (simp add: lower_unit_def word_le_nat_alt)
qed

lemma trim_digits: "list_all is_digit s \<Longrightarrow> trim s = s"
proof -
  assume d: "list_all is_digit s"
  have "dropWhile is_space t = t" if "list_all is_digit t" for t
    using that by (cases t) (auto simp: digit_unit_facts)
  then show ?thesis using d by (simp add: trim_def list_all_rev)
qed

lemma prefixed_literal_digits: "list_all is_digit s \<Longrightarrow> prefixed_literal s = None"
proof -
  assume d: "list_all is_digit s"
  have low: "lower (take 2 s) = take 2 s"
    using d digit_unit_facts(2) unfolding lower_def
    by (intro map_idI) (auto simp: list_all_iff dest: in_set_takeD)
  have no: "take 2 s \<noteq> [48, c]" if "\<not> is_digit c" for c
    using that d by (metis in_set_takeD list.set_intros(1,2) list_all_iff)
  have "\<not> has_prefix_ci s p" if "length p = 2" "js p = [48, c]" "\<not> is_digit c" for p c
    using low no [OF that(3)] that(1,2) by (simp add: has_prefix_ci_def)
  from this [of "''0x''" 120] this [of "''0o''" 111] this [of "''0b''" 98] show ?thesis
    by (simp add: prefixed_literal_def js_def is_digit_def)
qed

lemma bigint_of_digits: "s \<noteq> [] \<Longrightarrow> list_all is_digit s \<Longrightarrow> bigint_of_string s = Some (int (undec s))"
proof -
  assume s: "s \<noteq> []" "list_all is_digit s"
  then obtain c r where c: "s = c # r" "is_digit c" by (cases s) auto
  have "signed s = (1, s)" using c digit_unit_facts [OF c(2)] by (simp add: signed_def)
  then show ?thesis
    using s by (simp add: bigint_of_string_def trim_digits prefixed_literal_digits)
qed

lemma score_passes_iff:
  assumes "case bound of Some t \<Rightarrow> is_finite (number_of_string t) | None \<Rightarrow> True" "\<forall>n \<in> set_option score. is_finite n"
  shows "score_passes score bound \<longleftrightarrow> scored_at_least score bound"
proof (cases "bound = None \<or> score = None")
  case False
  then obtain t n where *: "bound = Some t" "score = Some n" by auto
  then obtain b s where "number_of_string t = Fin b" "n = Fin s"
    using assms by (auto elim!: is_finite.elims(2))
  then show ?thesis using * by (auto simp: score_passes_def scored_at_least_def)
next
  case True
  then show ?thesis by (cases bound) (auto simp: score_passes_def scored_at_least_def)
qed

lemma clause_of_type_Some:
  "clause_of_type t cs = Some c \<Longrightarrow> c \<in> set cs \<and> text_of c ''type'' = js t"
  by (auto simp: clause_of_type_def dest: find_SomeD)

lemma promised_clause:
  assumes "listable l" "promises l t = Some c"
  obtains d where "l_sla l = Some d" "well_formed_sla d" "c \<in> set (sla_clauses d)" "text_of c ''type'' = js t"
proof (cases "l_sla l")
  case None
  then show ?thesis using assms(2) by (simp add: promises_def clause_of_type_def)
next
  case (Some d)
  then have "clause_of_type t (sla_clauses d) = Some c" using assms(2) by (simp add: promises_def)
  from clause_of_type_Some [OF this] show ?thesis
    using that [OF Some] assms(1) Some by (simp add: listable_def)
qed

lemma type_names_differ:
  "js ''schema'' \<noteq> js ''latency''" "js ''schema'' \<noteq> js ''priceRange''" "js ''semantic'' \<noteq> js ''latency''"
  "js ''semantic'' \<noteq> js ''priceRange''" "js ''latency'' \<noteq> js ''priceRange''"
  by (simp_all add: js_def)

lemma latency_clause:
  assumes "listable l" "promises l ''latency'' = Some c"
  shows "\<exists>q. member c ''maxMs'' = Some (JNum (Fin q))"
proof -
  obtain d where d: "well_formed_sla d" "c \<in> set (sla_clauses d)" "text_of c ''type'' = js ''latency''"
    using promised_clause [OF assms] by blast
  then have "sla_shape d" by (simp add: well_formed_sla_def)
  from this d(2) have "latency_clause_shape c"
    by (rule clause_cases) (use d(3) text_of_type type_names_differ in \<open>metis+\<close>)
  then show ?thesis by (auto simp: latency_clause_shape_def split: option.splits json.splits jsnum.splits)
qed

lemma price_clause:
  assumes "listable l" "promises l ''priceRange'' = Some c"
  shows "\<exists>u. member c ''maxMinorUnits'' = Some (JStr u) \<and> decimal_integer u"
proof -
  obtain d where d: "well_formed_sla d" "c \<in> set (sla_clauses d)" "text_of c ''type'' = js ''priceRange''"
    using promised_clause [OF assms] by blast
  then have "sla_shape d" "clause_ok c" by (simp_all add: well_formed_sla_def)
  from this(1) d(2) have "price_clause_shape c"
    by (rule clause_cases) (use d(3) text_of_type type_names_differ in \<open>metis+\<close>)
  then obtain u where u: "member c ''maxMinorUnits'' = Some (JStr u)"
    by (auto simp: price_clause_shape_def string_member_def split: option.splits json.splits)
  moreover have "decimal_integer (text_of c ''maxMinorUnits'')" using \<open>clause_ok c\<close> d(3) by (simp add: clause_ok_def)
  ultimately show ?thesis by (simp add: text_of_JStr)
qed

lemma advertised_bounds:
  "a_max_latency_ms (advertised (l_sla l)) = bound_of (promises l ''latency'') ''maxMs''"
  "a_max_price (advertised (l_sla l)) = bound_of (promises l ''priceRange'') ''maxMinorUnits''"
  by (simp_all add: advertised_def promises_def Let_def)

lemma latency_passes_iff:
  assumes "listable l"
  shows "latency_passes (bound_of (promises l ''latency'') ''maxMs'') bound \<longleftrightarrow> promised_latency l bound"
proof (cases "promises l ''latency''")
  case None
  then show ?thesis by (simp add: latency_passes_def promised_latency_def bound_of_def split: option.split)
next
  case (Some c)
  then obtain q where "member c ''maxMs'' = Some (JNum (Fin q))" using latency_clause [OF assms] by blast
  then show ?thesis using Some
    by (simp add: latency_passes_def promised_latency_def bound_of_def to_number_def number_of_def split: option.split)
qed

lemma price_passes_iff:
  assumes "listable l" "case bound of Some t \<Rightarrow> decimal_integer t | None \<Rightarrow> True"
  shows "price_passes (bound_of (promises l ''priceRange'') ''maxMinorUnits'') bound = Inr (promised_price l bound)"
proof (cases bound)
  case (Some t)
  have t: "bigint_of_string t = Some (int (undec t))"
    using assms(2) Some by (auto simp: decimal_integer_def intro: bigint_of_digits)
  show ?thesis
  proof (cases "promises l ''priceRange''")
    case None
    then show ?thesis by (simp add: price_passes_def promised_price_def bound_of_def Some)
  next
    case *: (Some c)
    then obtain u where u: "member c ''maxMinorUnits'' = Some (JStr u)" "decimal_integer u"
      using price_clause [OF assms(1)] by blast
    have "bigint_of_string u = Some (int (undec u))"
      using u(2) by (auto simp: decimal_integer_def intro: bigint_of_digits)
    then show ?thesis using * t u(1) Some
      by (simp add: price_passes_def promised_price_def bound_of_def to_bigint_def bigint_of_value_def text_of_JStr not_less)
  qed
qed (simp add: price_passes_def promised_price_def)

section \<open>Properties\<close>

text \<open>
  C38: Discovery answers every numeric query, with exactly the listings that offer what was asked,
  in the marketplace's order: a bound is met only by a published score or a promised limit on
  the right side of it, never by the absence of one.
\<close>

theorem discovery_offers_what_was_asked:
  assumes "list_all listable listings" "numeric_query q"
  shows "discover listings q host = Inr \<lparr>d_count = length (filter (offers q) listings),
     d_services = map (\<lambda>l. to_listing l host) (filter (offers q) listings)\<rparr>"
proof -
  have m: "matches (to_listing l host) q = Inr (offers q l)" if "l \<in> set listings" for l
  proof -
    have l: "listable l" using that assms(1) by (simp add: list_all_iff)
    have s: "score_passes (l_conformance l) (q_min_conformance q) \<longleftrightarrow> scored_at_least (l_conformance l) (q_min_conformance q)"
      "score_passes (l_availability l) (q_min_availability q) \<longleftrightarrow> scored_at_least (l_availability l) (q_min_availability q)"
      using l assms(2) by (auto intro!: score_passes_iff simp: listable_def numeric_query_def)
    have "case q_max_price q of Some t \<Rightarrow> decimal_integer t | None \<Rightarrow> True" using assms(2) by (simp add: numeric_query_def)
    from price_passes_iff [OF l this] show ?thesis
      by (simp add: matches_def to_listing_def advertised_bounds s latency_passes_iff [OF l] offers_def cong: option.case_cong)
  qed
  have "filter_r (\<lambda>e. matches e q) (map (\<lambda>l. to_listing l host) ls) =
      Inr (map (\<lambda>l. to_listing l host) (filter (offers q) ls))" if "set ls \<subseteq> set listings" for ls
    using that by (induction ls) (auto simp: m)
  then show ?thesis by (simp add: discover_def)
qed

definition example_listing :: "unit listing" where
  "example_listing = \<lparr>l_slug = js ''weather'', l_name = js ''weather.verdikt.eth'', l_service_id = js ''0x11'',
     l_status = ACTIVE, l_provider = js ''0xA1'', l_pay_to = None, l_conformance = Some (Fin 990),
     l_availability = None, l_history = [(), ()], l_deposit = 10, l_sla = Some tiny_sla\<rparr>"

definition example_query :: discovery_query where
  "example_query = \<lparr>q_min_conformance = Some (js ''950''), q_min_availability = None,
     q_max_latency_ms = Some (js ''10''), q_max_price = None, q_status = Some (js ''active'')\<rparr>"

theorem discovery_offers_what_was_asked_witness:
  "\<exists>d. discover [example_listing, example_listing\<lparr>l_conformance := None\<rparr>] example_query (js ''verdikt.bond'') = Inr d \<and> d_count d = 1"
proof -
  have n: "number_of_string (js ''950'') = Fin 950" "number_of_string (js ''10'') = Fin 10" by code_simp+
  have u: "upper (js ''active'') = js ''ACTIVE''" by code_simp
  have "json_parse tiny_text = Inr tiny_sla" using tiny_parses by (simp add: parse_sla_iff)
  then have "wf_json tiny_sla \<and> well_formed_sla tiny_sla" using tiny_parses json_parse_wf by (auto simp: parse_sla_iff)
  then have "list_all listable [example_listing, example_listing\<lparr>l_conformance := None\<rparr>]"
    by (simp add: listable_def example_listing_def)
  moreover have "numeric_query example_query" by (simp add: numeric_query_def example_query_def n)
  moreover have "promises example_listing ''latency'' = Some [(js ''id'', js_str ''fast''), (js ''type'', js_str ''latency''), (js ''maxMs'', JNum (Fin 10))]"
    by (simp add: promises_def example_listing_def tiny_sla_def sla_clauses_def member_def clause_of_type_def text_of_def string_of_value_def)
  then have "offers example_query example_listing" "\<not> offers example_query (example_listing\<lparr>l_conformance := None\<rparr>)"
    by (simp_all add: offers_def scored_at_least_def promised_latency_def promised_price_def example_query_def n u status_name_def)
      (simp_all add: example_listing_def member_def number_of_def)
  ultimately show ?thesis using discovery_offers_what_was_asked by fastforce
qed

text \<open>
  A bound that is no number is no bound for a listing with a published score: \<open>NaN\<close> fails the
  comparison that would exclude it.
\<close>

lemma unparsable_bound_filters_nothing:
  "number_of_string t = NotNum \<Longrightarrow> score_passes (Some n) (Some t)"
  by (cases n) (simp_all add: score_passes_def)

end
