(* ===== verification/JS_Buffer.thy ===== *)
theory JS_Buffer imports Proxy_Http begin

text \<open>
  What the program uses of Node's \<open>Buffer\<close>: UTF-8 decoding, base64 in both alphabets, and hex.
  Decoding never throws: malformed input decodes to something, as \<open>Buffer\<close> does.
\<close>

section \<open>UTF-8\<close>

definition continuation :: "8 word \<Rightarrow> bool" where
  "continuation b \<longleftrightarrow> 128 \<le> unat b \<and> unat b \<le> 191"

text \<open>The second byte after a three or four byte lead: no overlong forms, no surrogates, at most U+10FFFF.\<close>

definition second_ok :: "nat \<Rightarrow> 8 word \<Rightarrow> bool" where
  "second_ok lead b \<longleftrightarrow>
     (if lead = 224 then 160 else if lead = 240 then 144 else 128) \<le> unat b \<and>
     unat b \<le> (if lead = 237 then 159 else if lead = 244 then 143 else 191)"

definition replacement :: code_unit where "replacement = 65533"

definition units_of_point :: "nat \<Rightarrow> jstring" where
  "units_of_point p =
     (if p < 65536 then [of_nat p]
      else [of_nat (55296 + (p - 65536) div 1024), of_nat (56320 + (p - 65536) mod 1024)])"

fun utf8_decode :: "8 word list \<Rightarrow> jstring" where
  "utf8_decode [] = []"
| "utf8_decode (b # r) =
     (let n = unat b in
      if n < 128 then of_nat n # utf8_decode r
      else if 194 \<le> n \<and> n \<le> 223 then
        (case r of
           c # r1 \<Rightarrow> if continuation c then of_nat ((n - 192) * 64 + (unat c - 128)) # utf8_decode r1
                      else replacement # utf8_decode r
         | [] \<Rightarrow> [replacement])
      else if 224 \<le> n \<and> n \<le> 239 then
        (case r of
           c # r1 \<Rightarrow>
             if second_ok n c then
               (case r1 of
                  d # r2 \<Rightarrow>
                    if continuation d then
                      of_nat ((n - 224) * 4096 + (unat c - 128) * 64 + (unat d - 128)) # utf8_decode r2
                    else replacement # utf8_decode r1
                | [] \<Rightarrow> [replacement])
             else replacement # utf8_decode r
         | [] \<Rightarrow> [replacement])
      else if 240 \<le> n \<and> n \<le> 244 then
        (case r of
           c # r1 \<Rightarrow>
             if second_ok n c then
               (case r1 of
                  d # r2 \<Rightarrow>
                    if continuation d then
                      (case r2 of
                         e # r3 \<Rightarrow>
                           if continuation e then
                             units_of_point ((n - 240) * 262144 + (unat c - 128) * 4096 + (unat d - 128) * 64 + (unat e - 128))
                               @ utf8_decode r3
                           else replacement # utf8_decode r2
                       | [] \<Rightarrow> [replacement])
                    else replacement # utf8_decode r1
                | [] \<Rightarrow> [replacement])
             else replacement # utf8_decode r
         | [] \<Rightarrow> [replacement])
      else replacement # utf8_decode r)"

section \<open>base64\<close>

definition sextet :: "code_unit \<Rightarrow> nat option" where
  "sextet c =
     (if 65 \<le> c \<and> c \<le> 90 then Some (unat c - 65)
      else if 97 \<le> c \<and> c \<le> 122 then Some (unat c - 71)
      else if 48 \<le> c \<and> c \<le> 57 then Some (unat c + 4)
      else if c = 43 \<or> c = 45 then Some 62
      else if c = 47 \<or> c = 95 then Some 63
      else None)"

definition url_digit :: "nat \<Rightarrow> code_unit" where
  "url_digit n =
     (if n < 26 then of_nat (n + 65) else if n < 52 then of_nat (n + 71)
      else if n < 62 then of_nat (n - 4) else if n = 62 then 45 else 95)"

fun bytes_to_sextets :: "8 word list \<Rightarrow> nat list" where
  "bytes_to_sextets (x # y # z # r) =
     unat x div 4 # (unat x mod 4 * 16 + unat y div 16) # (unat y mod 16 * 4 + unat z div 64) # (unat z mod 64)
       # bytes_to_sextets r"
| "bytes_to_sextets [x, y] = [unat x div 4, unat x mod 4 * 16 + unat y div 16, unat y mod 16 * 4]"
| "bytes_to_sextets [x] = [unat x div 4, unat x mod 4 * 16]"
| "bytes_to_sextets [] = []"

fun sextets_to_bytes :: "nat list \<Rightarrow> 8 word list" where
  "sextets_to_bytes (a # b # c # d # r) =
     of_nat (a * 4 + b div 16) # of_nat (b mod 16 * 16 + c div 4) # of_nat (c mod 4 * 64 + d) # sextets_to_bytes r"
| "sextets_to_bytes [a, b, c] = [of_nat (a * 4 + b div 16), of_nat (b mod 16 * 16 + c div 4)]"
| "sextets_to_bytes [a, b] = [of_nat (a * 4 + b div 16)]"
| "sextets_to_bytes _ = []"

text \<open>\<open>toString('base64url')\<close> writes no padding; \<open>from\<close> reads both alphabets and skips the rest.\<close>

definition base64url_encode :: "8 word list \<Rightarrow> jstring" where
  "base64url_encode bs = map url_digit (bytes_to_sextets bs)"

definition base64_decode :: "jstring \<Rightarrow> 8 word list" where
  "base64_decode s = sextets_to_bytes (List.map_filter sextet s)"

lemma bytes_to_sextets_bound: "list_all (\<lambda>n. n < 64) (bytes_to_sextets bs)"
proof -
  have b: "unat (x :: 8 word) < 256" for x using unsigned_less [of x] by simp
  have "unat (x :: 8 word) mod 4 * 16 + unat (y :: 8 word) div 16 < 64" for x y
  proof -
    have "unat x mod 4 < 4" "unat y div 16 < 16" using b [of y] by auto
    then show ?thesis by linarith
  qed
  moreover have "unat (x :: 8 word) mod 16 * 4 + unat (y :: 8 word) div 64 < 64" for x y
  proof -
    have "unat x mod 16 < 16" "unat y div 64 < 4" using b [of y] by auto
    then show ?thesis by linarith
  qed
  moreover have "unat (x :: 8 word) div 4 < 64" for x using b [of x] by linarith
  moreover have "n mod 4 * 16 < 64" "n mod 16 * 4 < 64" for n :: nat
  proof -
    have "n mod 4 < 4" "n mod 16 < 16" by simp_all
    then show "n mod 4 * 16 < 64" "n mod 16 * 4 < 64" by linarith+
  qed
  ultimately show ?thesis by (induction bs rule: bytes_to_sextets.induct) simp_all
qed

lemma sextets_to_bytes_to_sextets: "sextets_to_bytes (bytes_to_sextets bs) = bs"
proof -
  have b: "unat (x :: 8 word) < 256" for x using unsigned_less [of x] by simp
  have 1: "(of_nat (unat x div 4 * 4 + (unat x mod 4 * 16 + unat y div 16) div 16) :: 8 word) = x" for x y :: "8 word"
  proof -
    have "(unat x mod 4 * 16 + unat y div 16) div 16 = unat x mod 4" using b [of y] by simp
    then show ?thesis by simp
  qed
  have 2: "(of_nat ((unat x mod 4 * 16 + unat y div 16) mod 16 * 16 + (unat y mod 16 * 4 + unat z div 64) div 4) :: 8 word) = y"
    for x y z :: "8 word"
  proof -
    have "(unat y mod 16 * 4 + unat z div 64) div 4 = unat y mod 16" using b [of z] by simp
    moreover have "(unat x mod 4 * 16 + unat y div 16) mod 16 = unat y div 16" using b [of y] by simp
    ultimately show ?thesis by simp
  qed
  have 3: "(of_nat ((unat y mod 16 * 4 + unat z div 64) mod 4 * 64 + unat z mod 64) :: 8 word) = z" for y z :: "8 word"
  proof -
    have "(unat y mod 16 * 4 + unat z div 64) mod 4 = unat z div 64" using b [of z] by simp
    then show ?thesis by simp
  qed
  show ?thesis
    by (induction bs rule: bytes_to_sextets.induct)
      (use 1 2 3 1 [of _ 0] 2 [of _ _ 0] in \<open>simp_all del: of_nat_add of_nat_mult\<close>)
qed

lemma sextet_url_digit: "n < 64 \<Longrightarrow> sextet (url_digit n) = Some n"
proof -
  assume "n < 64"
  then have "n \<in> set [0..<64]" by simp
  moreover have "\<forall>n \<in> set [0..<64]. sextet (url_digit n) = Some n" by code_simp
  ultimately show ?thesis by blast
qed

lemma base64_roundtrip: "base64_decode (base64url_encode bs) = bs"
proof -
  have "List.map_filter sextet (map url_digit ns) = ns" if "list_all (\<lambda>n. n < 64) ns" for ns
    using that by (induction ns) (simp_all add: map_filter_simps sextet_url_digit)
  then show ?thesis
    by (simp add: base64_decode_def base64url_encode_def bytes_to_sextets_bound sextets_to_bytes_to_sextets)
qed

lemma base64url_no_dot: "46 \<notin> set (base64url_encode bs)"
proof -
  have "\<forall>n \<in> set [0..<64]. url_digit n \<noteq> 46" by code_simp
  then show ?thesis
    using bytes_to_sextets_bound [of bs] by (auto simp: base64url_encode_def list_all_iff)
qed

section \<open>hex\<close>

text \<open>\<open>from(s, 'hex')\<close> stops at the first pair that is no byte.\<close>

fun hex_decode :: "jstring \<Rightarrow> 8 word list" where
  "hex_decode (a # b # r) = (if is_hex a \<and> is_hex b then of_nat (un_radix 16 [a, b]) # hex_decode r else [])"
| "hex_decode _ = []"

definition hex_encode :: "8 word list \<Rightarrow> jstring" where
  "hex_encode bs = concat (map hex_byte bs)"

lemma hex_roundtrip: "hex_decode (hex_encode bs) = bs"
proof (induction bs)
  case (Cons b bs)
  have "unat b < 2 ^ LENGTH(8)" by (rule unsigned_less)
  then have lt: "unat b div 16 < 16" "unat b mod 16 < 16" by simp_all
  then have "un_radix 16 (hex_byte b) = unat b" by (simp add: hex_byte_def un_radix_def hex_digit_props)
  then show ?case using Cons lt by (simp add: hex_encode_def hex_byte_def hex_digit_props)
qed (simp add: hex_encode_def)

end
