(* ===== verification/Json_Wire.thy ===== *)
theory Json_Wire imports JS_Buffer begin

text \<open>
  JSON on the wire: what \<open>JSON.stringify\<close> writes, \<open>JSON.parse\<close> reads back, also through UTF-8.
  Numbers are those whose text reads back, as every finite number of the language does.
\<close>

section \<open>Strings\<close>

lemma hex_val_digit: "d < 16 \<Longrightarrow> hex_val (hex_digit d) = Some d"
proof -
  assume d: "d < 16"
  have u: "unat (of_nat k :: code_unit) = k" if "k < 65536" for k
    using that by (simp add: unsigned_of_nat take_bit_nat_eq_self)
  show ?thesis
  proof (cases "d < 10")
    case True
    then have c: "hex_digit d = of_nat (48 + d)" by (simp add: hex_digit_def)
    have n: "unat (hex_digit d) = 48 + d" unfolding c using True by (intro u) simp
    have "(48 :: code_unit) \<le> hex_digit d" using n by (simp add: word_le_nat_alt)
    then have "unat (hex_digit d - 48) = d" using n by (simp add: unat_sub)
    moreover have "48 \<le> hex_digit d \<and> hex_digit d \<le> 57" using n True by (simp add: word_le_nat_alt)
    ultimately show ?thesis by (simp add: hex_val_def)
  next
    case False
    then have c: "hex_digit d = of_nat (87 + d)" by (simp add: hex_digit_def)
    have n: "unat (hex_digit d) = 87 + d" unfolding c using d by (intro u) simp
    have "(87 :: code_unit) \<le> hex_digit d" using n by (simp add: word_le_nat_alt)
    then have "unat (hex_digit d - 87) = d" using n by (simp add: unat_sub)
    moreover have "\<not> hex_digit d \<le> 57" "97 \<le> hex_digit d \<and> hex_digit d \<le> 102"
      using n False d by (simp_all add: word_le_nat_alt)
    ultimately show ?thesis unfolding hex_val_def by simp
  qed
qed

lemma four_nibbles: "((n div 4096 mod 16 * 16 + n div 256 mod 16) * 16 + n div 16 mod 16) * 16 + n mod 16 = n"
  if "n < 65536" for n :: nat
proof -
  have a: "n div 4096 mod 16 = n div 4096" using that by (simp add: div_less_iff_less_mult)
  have b: "n div 4096 * 16 + n div 256 mod 16 = n div 256"
    using div_mult_mod_eq [of "n div 256" 16] by (simp add: div_mult2_eq [symmetric])
  have c: "n div 256 * 16 + n div 16 mod 16 = n div 16"
    using div_mult_mod_eq [of "n div 16" 16] by (simp add: div_mult2_eq [symmetric])
  show ?thesis unfolding a b c by (rule div_mult_mod_eq)
qed

lemma four_hex_hex4: "four_hex (hex4 c @ t) = Some (c, t)"
proof -
  define n where "n = unat c"
  have "n < 2 ^ LENGTH(16)" unfolding n_def by (rule unsigned_less)
  then have lt: "n < 65536" by simp
  have "four_hex (hex4 c @ t) = Some (of_nat (((n div 4096 mod 16 * 16 + n div 256 mod 16) * 16 + n div 16 mod 16) * 16 + n mod 16), t)"
    by (simp add: four_hex_def hex4_def hex_val_digit n_def)
  then show ?thesis unfolding four_nibbles [OF lt] by (simp add: n_def)
qed

lemma parse_str_escape: "parse_str (92 # 117 # hex4 c @ t) = push_unit c (parse_str t)"
  by (simp add: four_hex_hex4)

lemma surrogate_plain:
  "high_surrogate c \<or> low_surrogate c \<Longrightarrow> c \<noteq> 34 \<and> c \<noteq> 92 \<and> \<not> c < 32"
  by (auto simp: high_surrogate_def low_surrogate_def word_le_nat_alt word_less_nat_alt)

lemma parse_str_unit: "parse_str (quote_unit c @ t) = push_unit c (parse_str t)"
proof -
  have n: "(34 :: code_unit) \<noteq> 117" "(92 :: code_unit) \<noteq> 117" "(98 :: code_unit) \<noteq> 117" "(116 :: code_unit) \<noteq> 117"
    "(110 :: code_unit) \<noteq> 117" "(102 :: code_unit) \<noteq> 117" "(114 :: code_unit) \<noteq> 117" by simp_all
  consider "c \<in> {34, 92, 8, 9, 10, 12, 13}" | "c \<notin> {34, 92, 8, 9, 10, 12, 13}" "c < 32" | "c \<notin> {34, 92}" "\<not> c < 32" by blast
  then show ?thesis
  proof cases
    case 2
    then show ?thesis by (simp add: quote_unit_def four_hex_hex4)
  next
    case 3
    then have "c \<noteq> 8" "c \<noteq> 9" "c \<noteq> 10" "c \<noteq> 12" "c \<noteq> 13" by auto
    then show ?thesis using 3 by (simp add: quote_unit_def)
  qed (auto simp: quote_unit_def unescape_def)
qed

text \<open>The three ways a text goes on: a surrogate pair, a lone surrogate, any other unit.\<close>

lemma units_induct [case_names Nil pair lone unit]:
  assumes "P []"
    and "\<And>c d r. high_surrogate c \<Longrightarrow> low_surrogate d \<Longrightarrow> P r \<Longrightarrow> P (c # d # r)"
    and "\<And>c r. high_surrogate c \<or> low_surrogate c \<Longrightarrow> \<not> (high_surrogate c \<and> r \<noteq> [] \<and> low_surrogate (hd r)) \<Longrightarrow> P r \<Longrightarrow> P (c # r)"
    and "\<And>c r. \<not> high_surrogate c \<Longrightarrow> \<not> low_surrogate c \<Longrightarrow> P r \<Longrightarrow> P (c # r)"
  shows "P s"
proof (induction s rule: length_induct)
  case (1 s)
  show ?case
  proof (cases s)
    case (Cons c r)
    have "P r" using 1 Cons by simp
    show ?thesis
    proof (cases "high_surrogate c \<and> r \<noteq> [] \<and> low_surrogate (hd r)")
      case True
      then obtain d r' where r: "r = d # r'" "low_surrogate d" by (cases r) auto
      have "P r'" using 1 Cons r by simp
      then show ?thesis using assms(2) True r Cons by simp
    next
      case False
      then show ?thesis using assms(3,4) \<open>P r\<close> Cons by blast
    qed
  qed (simp add: assms(1))
qed

lemma quote_body_lone:
  "high_surrogate c \<or> low_surrogate c \<Longrightarrow> \<not> (high_surrogate c \<and> r \<noteq> [] \<and> low_surrogate (hd r)) \<Longrightarrow>
     quote_body (c # r) = 92 # 117 # hex4 c @ quote_body r"
  by (cases r) auto

lemma parse_str_quote: "parse_str (quote_body s @ 34 # t) = Some (s, t)"
proof (induction s rule: units_induct)
  case (pair c d r)
  then show ?case using surrogate_plain [of c] surrogate_plain [of d] by (simp add: push_unit_def)
next
  case (lone c r)
  then show ?case
    using parse_str_escape [of c "quote_body r @ 34 # t"]
    by (simp add: quote_body_lone push_unit_def del: parse_str.simps quote_body.simps)
next
  case (unit c r)
  then have "quote_body (c # r) = quote_unit c @ quote_body r" by simp
  then show ?case using parse_str_unit [of c "quote_body r @ 34 # t"] unit
    by (simp add: push_unit_def del: parse_str.simps quote_body.simps)
qed simp

section \<open>Numbers\<close>

text \<open>A text after which a number has ended.\<close>

definition ends_number :: "jstring \<Rightarrow> bool" where
  "ends_number r \<longleftrightarrow> r = [] \<or> \<not> is_digit (hd r) \<and> hd r \<noteq> 46 \<and> hd r \<noteq> 101 \<and> hd r \<noteq> 69"

lemma digits_end:
  assumes "ends_number r"
  shows "takeWhile is_digit (t @ r) = takeWhile is_digit t \<and> dropWhile is_digit (t @ r) = dropWhile is_digit t @ r"
proof (induction t)
  case Nil
  then show ?case using assms by (cases r) (auto simp: ends_number_def)
qed simp

lemma parse_exponent_end:
  assumes "parse_exponent s = Some (e, u)" "ends_number r"
  shows "parse_exponent (s @ r) = Some (e, u @ r)"
proof (cases s)
  case Nil
  then show ?thesis using assms by (cases r) (auto simp: parse_exponent_def ends_number_def)
next
  case (Cons c s')
  show ?thesis
  proof (cases s')
    case Nil
    then show ?thesis using assms Cons by (auto simp: parse_exponent_def Let_def split: if_splits)
  next
    case *: (Cons d s'')
    then show ?thesis
      using assms Cons digits_end [OF assms(2), of s''] digits_end [OF assms(2), of s']
      by (auto simp: parse_exponent_def Let_def split: if_splits)
  qed
qed

lemma parse_fraction_end:
  assumes "parse_fraction s = Some (ds, u)" "ends_number r"
  shows "parse_fraction (s @ r) = Some (ds, u @ r)"
proof (cases s)
  case Nil
  then show ?thesis using assms by (cases r) (auto simp: parse_fraction_def ends_number_def)
next
  case (Cons c s')
  then show ?thesis using assms digits_end [OF assms(2), of s'] by (auto simp: parse_fraction_def Let_def split: if_splits)
qed

text \<open>The digits before the point, and the number after its sign.\<close>

definition whole_digits :: "jstring \<Rightarrow> jstring" where
  "whole_digits s = (case s of c # r \<Rightarrow> if c = 48 then [c] else takeWhile is_digit s | [] \<Rightarrow> [])"

definition parse_unsigned :: "bool \<Rightarrow> jstring \<Rightarrow> (jsnum \<times> jstring) option" where
  "parse_unsigned neg s =
     (if whole_digits s = [] then None
      else (case parse_fraction (drop (length (whole_digits s)) s) of None \<Rightarrow> None
            | Some (fr, s2) \<Rightarrow>
                (case parse_exponent s2 of None \<Rightarrow> None
                 | Some (e, s3) \<Rightarrow>
                     (let m = of_nat (undec (whole_digits s @ fr)) * pow_rat 10 (e - int (length fr))
                      in Some (to_f64 (if neg then - m else m), s3)))))"

lemma parse_num_signed:
  "parse_num s = (let (neg, s1) = (case s of c # r \<Rightarrow> if c = 45 then (True, r) else (False, s) | [] \<Rightarrow> (False, s))
     in parse_unsigned neg s1)"
  by (simp only: parse_num_def parse_unsigned_def whole_digits_def Let_def)

lemma parse_num_unsigned:
  "parse_num s = (case s of c # r \<Rightarrow> if c = 45 then parse_unsigned True r else parse_unsigned False s | [] \<Rightarrow> None)"
  by (cases s) (simp_all add: parse_num_signed parse_unsigned_def [of _ "[]"] whole_digits_def [of "[]"])

lemma whole_digits_append: "s \<noteq> [] \<Longrightarrow> ends_number r \<Longrightarrow> whole_digits (s @ r) = whole_digits s"
  using digits_end [of r s] by (cases s) (auto simp: whole_digits_def)

lemma length_whole_digits: "length (whole_digits s) \<le> length s"
  using length_takeWhile_le [of is_digit s] by (cases s) (auto simp: whole_digits_def)

lemma whole_digits_head: "whole_digits (c # r) \<noteq> [] \<Longrightarrow> is_digit c"
  by (auto simp: whole_digits_def is_digit_def split: if_splits)

lemma parse_unsigned_end:
  assumes "parse_unsigned neg s = Some (m, u)" "ends_number r"
  shows "parse_unsigned neg (s @ r) = Some (m, u @ r)"
proof -
  have ne: "whole_digits s \<noteq> []" using assms(1) by (auto simp: parse_unsigned_def)
  then have "s \<noteq> []" by (auto simp: whole_digits_def)
  note w = whole_digits_append [OF this assms(2)]
  obtain fr s2 where fr: "parse_fraction (drop (length (whole_digits s)) s) = Some (fr, s2)"
    using assms(1) ne by (auto simp: parse_unsigned_def split: option.splits)
  obtain e s3 where e: "parse_exponent s2 = Some (e, s3)"
    using assms(1) ne fr by (auto simp: parse_unsigned_def split: option.splits)
  show ?thesis
    using assms(1) ne fr e parse_fraction_end [OF fr assms(2)] parse_exponent_end [OF e assms(2)]
      length_whole_digits [of s] by (simp add: parse_unsigned_def w Let_def)
qed

lemma parse_num_end:
  assumes "parse_num s = Some (m, u)" "ends_number r"
  shows "parse_num (s @ r) = Some (m, u @ r)"
  using assms parse_unsigned_end [OF _ assms(2), of True "tl s"] parse_unsigned_end [OF _ assms(2), of False s]
  by (cases s) (auto simp: parse_num_unsigned split: if_splits)

lemma parse_num_head:
  assumes "parse_num s = Some p"
  shows "\<exists>c r. s = c # r \<and> (c = 45 \<or> is_digit c)"
proof (cases s)
  case (Cons c r)
  then show ?thesis using assms whole_digits_head [of c r]
    by (auto simp: parse_num_unsigned parse_unsigned_def split: if_splits)
qed (use assms in \<open>simp add: parse_num_unsigned\<close>)

text \<open>
  The values whose text reads back as they are: numbers that do (\<open>JSON.stringify\<close> writes \<open>null\<close> for
  a number that is not finite), and objects in creation order with distinct keys that are no array
  indices (\<open>JSON.parse\<close> moves those to the front).
\<close>

definition reads_back :: "jsnum \<Rightarrow> bool" where
  "reads_back n \<longleftrightarrow> is_finite n \<and> list_all (\<lambda>c. c < 128) (num_str n) \<and> parse_num (num_str n) = Some (n, [])"

fun wire :: "json \<Rightarrow> bool" where
  "wire JNull = True"
| "wire (JBool b) = True"
| "wire (JNum n) = reads_back n"
| "wire (JStr s) = True"
| "wire (JArr vs) = (\<forall>v\<in>set vs. wire v)"
| "wire (JObj ps) = (distinct (map fst ps) \<and> (\<forall>p\<in>set ps. \<not> array_index (fst p)) \<and> (\<forall>p\<in>set ps. wire (snd p)))"

section \<open>Values\<close>

lemma json_tokens:
  "js ''null'' = [110, 117, 108, 108]" "js ''true'' = [116, 114, 117, 101]" "js ''false'' = [102, 97, 108, 115, 101]"
  "js ''['' = [91]" "js '']'' = [93]" "js ''{'' = [123]" "js ''}'' = [125]" "js '','' = [44]" "js '':'' = [58]"
  by (simp_all add: js_def)

lemma stringify_head:
  assumes "wire v"
  shows "\<exists>c r. stringify v = c # r \<and> \<not> is_ws c \<and> c \<noteq> 93 \<and> c \<noteq> 125"
proof (cases v)
  case (JNum n)
  then obtain c r where "num_str n = c # r" "c = 45 \<or> is_digit c" "is_finite n"
    using assms parse_num_head [of "num_str n"] by (auto simp: reads_back_def)
  then show ?thesis using JNum by (auto simp: is_ws_def is_digit_def)
qed (auto simp: is_ws_def quote_def json_tokens)

lemma skip_ws_stay: "\<not> is_ws c \<Longrightarrow> skip_ws (c # r) = c # r"
  by (simp add: skip_ws_def)

definition read_back :: "json \<Rightarrow> bool" where
  "read_back v \<longleftrightarrow> (\<forall>n r. 2 * length (stringify v) \<le> n \<longrightarrow> ends_number r \<longrightarrow>
     parse_value (Suc n) (stringify v @ r) = Parsed v r)"

lemma read_back_num:
  assumes "reads_back m" "ends_number r"
  shows "parse_value (Suc n) (num_str m @ r) = Parsed (JNum m) r"
proof -
  obtain c t where c: "num_str m = c # t" "c = 45 \<or> is_digit c"
    using assms parse_num_head [of "num_str m"] by (auto simp: reads_back_def)
  have p: "parse_num (num_str m @ r) = Some (m, r)"
    using parse_num_end [of "num_str m" m "[]" r] assms by (simp add: reads_back_def)
  have "c \<noteq> 123" "c \<noteq> 91" "c \<noteq> 34" "c \<noteq> 116" "c \<noteq> 102" "c \<noteq> 110" "\<not> is_ws c"
    using c(2) by (auto simp: is_digit_def is_ws_def)
  then show ?thesis using p c(1) by (simp add: skip_ws_stay starts_with_def json_tokens)
qed

lemma two_steps: "2 * (k :: nat) + 2 \<le> n \<Longrightarrow> \<exists>m. n = Suc (Suc m)"
  by (rule exI [of _ "n - 2"]) simp

lemma parse_elements_join:
  assumes "\<And>v. v \<in> set vs \<Longrightarrow> read_back v" "vs \<noteq> []" "2 * length (join_with (js '','') (map stringify vs)) + 2 \<le> n"
  shows "parse_elements n acc (join_with (js '','') (map stringify vs) @ 93 # r) = Parsed (JArr (acc @ vs)) r"
  using assms
proof (induction vs arbitrary: acc n)
  case (Cons v vs)
  then obtain m where n: "n = Suc (Suc m)" using two_steps [OF Cons.prems(3)] by blast
  have v: "read_back v" using Cons.prems by simp
  show ?case
  proof (cases "vs = []")
    case True
    then have "parse_value (Suc m) (stringify v @ 93 # r) = Parsed v (93 # r)"
      using v Cons.prems(3) n by (simp add: read_back_def ends_number_def is_digit_def)
    then show ?thesis using True n by (simp add: skip_ws_stay is_ws_def)
  next
    case False
    let ?t = "join_with (js '','') (map stringify vs) @ 93 # r"
    have split: "join_with (js '','') (map stringify (v # vs)) @ 93 # r = stringify v @ 44 # ?t"
      using False by (simp add: join_with_Cons json_tokens)
    have len: "length (join_with (js '','') (map stringify (v # vs))) = length (stringify v) + 1 + length (join_with (js '','') (map stringify vs))"
      using False by (simp add: join_with_Cons json_tokens)
    have "parse_value (Suc m) (stringify v @ 44 # ?t) = Parsed v (44 # ?t)"
      using v Cons.prems(3) n len by (simp add: read_back_def ends_number_def is_digit_def)
    moreover have "parse_elements (Suc m) (acc @ [v]) ?t = Parsed (JArr ((acc @ [v]) @ vs)) r"
      using Cons.prems n len False by (intro Cons.IH) auto
    ultimately show ?thesis unfolding split n by (simp add: skip_ws_stay is_ws_def del: parse_value.simps)
  qed
qed simp

lemma read_back_members:
  "map (\<lambda>p. quote (fst p) @ js '':'' @ stringify (snd p)) ps = map (\<lambda>p. quote (fst p) @ 58 # stringify (snd p)) ps"
  by (simp add: json_tokens)

lemma obj_put_new: "k \<notin> fst ` set ps \<Longrightarrow> \<not> array_index k \<Longrightarrow> obj_put k v ps = ps @ [(k, v)]"
  by (auto simp: obj_put_def has_own_def object_keys_def)

lemma parse_members_join:
  assumes "\<And>p. p \<in> set ps \<Longrightarrow> read_back (snd p)" "ps \<noteq> []"
    and "2 * length (join_with (js '','') (map (\<lambda>p. quote (fst p) @ 58 # stringify (snd p)) ps)) + 2 \<le> n"
    and "distinct (map fst (acc @ ps))" "\<And>p. p \<in> set ps \<Longrightarrow> \<not> array_index (fst p)"
  shows "parse_members n acc (join_with (js '','') (map (\<lambda>p. quote (fst p) @ 58 # stringify (snd p)) ps) @ 125 # r)
    = Parsed (JObj (acc @ ps)) r"
  using assms
proof (induction ps arbitrary: acc n)
  case (Cons p ps)
  obtain k v where p: "p = (k, v)" by force
  obtain m where n: "n = Suc (Suc m)" using two_steps [OF Cons.prems(3)] by blast
  have v: "read_back v" using Cons.prems(1) [of p] p by simp
  have put: "obj_put k v acc = acc @ [(k, v)]" using Cons.prems(4) Cons.prems(5) [of p] p by (intro obj_put_new) auto
  have head: "parse_members (Suc (Suc m)) acc (quote k @ 58 # stringify v @ c # t) =
      (if c = 44 then parse_members (Suc m) (acc @ [(k, v)]) t
       else if c = 125 then Parsed (JObj (acc @ [(k, v)])) t else SyntaxError)"
    if "2 * length (stringify v) \<le> m" "ends_number (c # t)" "\<not> is_ws c" for c t
  proof -
    have "parse_value (Suc m) (stringify v @ c # t) = Parsed v (c # t)" using v that by (simp add: read_back_def)
    then show ?thesis using that(3)
      by (simp add: quote_def parse_str_quote skip_ws_stay is_ws_def put del: parse_value.simps parse_str.simps)
  qed
  show ?case
  proof (cases "ps = []")
    case True
    then show ?thesis using head [of 125 r] Cons.prems(3) n p by (simp add: ends_number_def is_digit_def is_ws_def quote_def del: parse_members.simps)
  next
    case False
    let ?w = "\<lambda>p. quote (fst p) @ 58 # stringify (snd p)"
    let ?t = "join_with (js '','') (map ?w ps) @ 125 # r"
    have split: "join_with (js '','') (map ?w (p # ps)) @ 125 # r = quote k @ 58 # stringify v @ 44 # ?t"
      using False p by (simp add: join_with_Cons json_tokens)
    have len: "length (join_with (js '','') (map ?w (p # ps))) =
        length (quote k) + 1 + length (stringify v) + 1 + length (join_with (js '','') (map ?w ps))"
      using False p by (simp add: join_with_Cons json_tokens)
    have "parse_members (Suc m) (acc @ [(k, v)]) ?t = Parsed (JObj ((acc @ [(k, v)]) @ ps)) r"
      using Cons.prems n len False p by (intro Cons.IH) auto
    then show ?thesis
      unfolding split n using head [of 44 ?t] Cons.prems(3) n len p
      by (simp add: ends_number_def is_digit_def is_ws_def del: parse_members.simps)
  qed
qed simp

lemma wire_read_back: "wire v \<Longrightarrow> read_back v"
proof (induction v rule: stringify.induct)
  case (3 n)
  then show ?case using read_back_num [of n] by (simp add: read_back_def reads_back_def del: parse_value.simps)
next
  case (5 vs)
  have vs: "read_back v" if "v \<in> set vs" for v using 5 that by simp
  show ?case
  proof (cases "vs = []")
    case False
    let ?j = "join_with (js '','') (map stringify vs)"
    have hd: "\<exists>c t. ?j @ u = c # t \<and> \<not> is_ws c \<and> c \<noteq> 93" for u
    proof -
      obtain c t where "stringify (hd vs) = c # t" "\<not> is_ws c" "c \<noteq> 93"
        using stringify_head [of "hd vs"] 5 False by auto
      then show ?thesis using False by (cases vs; cases "tl vs") auto
    qed
    have "parse_value (Suc n) (stringify (JArr vs) @ r) = Parsed (JArr vs) r" if "2 * length (stringify (JArr vs)) \<le> n" for n r
    proof -
      have "parse_elements n [] (?j @ 93 # r) = Parsed (JArr ([] @ vs)) r"
        using that vs False by (intro parse_elements_join) (auto simp: json_tokens)
      then show ?thesis using hd [of "93 # r"] by (auto simp: json_tokens skip_ws_stay is_ws_def)
    qed
    then show ?thesis by (simp add: read_back_def)
  qed (auto simp: read_back_def json_tokens skip_ws_stay is_ws_def)
next
  case (6 ps)
  have ps: "read_back (snd p)" if "p \<in> set ps" for p using 6 that by (cases p) auto
  show ?case
  proof (cases "ps = []")
    case False
    let ?j = "join_with (js '','') (map (\<lambda>p. quote (fst p) @ 58 # stringify (snd p)) ps)"
    have hd: "\<exists>t. ?j @ u = 34 # t" for u
      using False by (cases ps; cases "tl ps") (auto simp: quote_def)
    have "parse_value (Suc n) (stringify (JObj ps) @ r) = Parsed (JObj ps) r" if "2 * length (stringify (JObj ps)) \<le> n" for n r
    proof -
      have "parse_members n [] (?j @ 125 # r) = Parsed (JObj ([] @ ps)) r"
        using that ps False 6(2) by (intro parse_members_join) (auto simp: json_tokens)
      then show ?thesis using hd [of "125 # r"] by (auto simp: json_tokens skip_ws_stay is_ws_def)
    qed
    then show ?thesis by (simp add: read_back_def)
  qed (auto simp: read_back_def json_tokens skip_ws_stay is_ws_def)
qed (auto simp: read_back_def quote_def parse_str_quote json_tokens skip_ws_stay is_ws_def starts_with_def)

theorem json_roundtrip: "wire v \<Longrightarrow> json_parse (stringify v) = Inr v"
  using wire_read_back [of v] by (simp add: read_back_def json_parse_def ends_number_def skip_ws_def del: parse_value.simps)

section \<open>UTF-8\<close>

text \<open>A text without lone surrogates, which is the text UTF-8 keeps.\<close>

fun paired :: "jstring \<Rightarrow> bool" where
  "paired [] = True"
| "paired (c # r) =
     (if high_surrogate c then (case r of d # r' \<Rightarrow> low_surrogate d \<and> paired r' | [] \<Rightarrow> False)
      else \<not> low_surrogate c \<and> paired r)"

lemma paired_append: "paired a \<Longrightarrow> paired b \<Longrightarrow> paired (a @ b)"
  by (induction a rule: paired.induct) (auto split: list.splits if_splits)

lemma unat_byte: "k < 256 \<Longrightarrow> unat (of_nat k :: 8 word) = k"
  by (simp add: unsigned_of_nat take_bit_nat_eq_self)

lemma unat_unit: "k < 65536 \<Longrightarrow> unat (of_nat k :: code_unit) = k"
  by (simp add: unsigned_of_nat take_bit_nat_eq_self)

lemma base_64: "k div 64 * 64 + k mod 64 = k" "k div 4096 * 64 + k div 64 mod 64 = k div 64"
  "k div 262144 * 64 + k div 4096 mod 64 = k div 4096" for k :: nat
  using div_mult_mod_eq [of k 64] div_mult_mod_eq [of "k div 64" 64] div_mult_mod_eq [of "k div 4096" 64]
  by (simp_all add: div_mult2_eq [symmetric])

lemma mod_64: "k mod 64 < 64" for k :: nat
  by simp

lemma decode_one: "p < 128 \<Longrightarrow> utf8_decode (utf8_point p @ t) = of_nat p # utf8_decode t"
  by (simp add: utf8_point_def unat_byte)

lemma decode_two:
  assumes "unat b = 192 + x" "2 \<le> x" "x < 32" "unat c = 128 + y" "y < 64"
  shows "utf8_decode (b # c # t) = of_nat (x * 64 + y) # utf8_decode t"
  using assms by (simp add: Let_def continuation_def)

lemma decode_three:
  assumes "unat b = 224 + x" "x < 16" "unat c = 128 + y" "y < 64" "unat d = 128 + z" "z < 64"
    and "x = 0 \<Longrightarrow> 32 \<le> y" "x = 13 \<Longrightarrow> y < 32"
  shows "utf8_decode (b # c # d # t) = of_nat (x * 4096 + y * 64 + z) # utf8_decode t"
proof -
  have "second_ok (224 + x) c" using assms by (cases "x = 0"; cases "x = 13") (auto simp: second_ok_def)
  then show ?thesis using assms(1-6) by (simp add: Let_def continuation_def)
qed

lemma decode_four:
  assumes "unat b = 240 + x" "x \<le> 4" "unat c = 128 + y" "y < 64" "unat d = 128 + z" "z < 64" "unat e = 128 + w" "w < 64"
    and "x = 0 \<Longrightarrow> 16 \<le> y" "x = 4 \<Longrightarrow> y < 16"
  shows "utf8_decode (b # c # d # e # t) = units_of_point (x * 262144 + y * 4096 + z * 64 + w) @ utf8_decode t"
proof -
  have "second_ok (240 + x) c" using assms by (cases "x = 0"; cases "x = 4") (auto simp: second_ok_def)
  then show ?thesis using assms(1-8) by (simp add: Let_def continuation_def)
qed

lemma decode_unit:
  assumes "p < 65536" "\<not> (55296 \<le> p \<and> p < 57344)"
  shows "utf8_decode (utf8_point p @ t) = of_nat p # utf8_decode t"
proof -
  consider "p < 128" | "128 \<le> p" "p < 2048" | "2048 \<le> p" by linarith
  then show ?thesis
  proof cases
    case 2
    then have b: "2 \<le> p div 64" "p div 64 < 32" by (simp_all add: less_eq_div_iff_mult_less_eq div_less_iff_less_mult)
    have "utf8_decode ([of_nat (192 + p div 64), of_nat (128 + p mod 64)] @ t) = of_nat (p div 64 * 64 + p mod 64) # utf8_decode t"
      unfolding append_Cons append_Nil
      by (rule decode_two) (use b mod_64 [of p] in \<open>simp_all add: unat_byte del: of_nat_add of_nat_numeral\<close>)
    then show ?thesis unfolding base_64(1) using 2 by (simp add: utf8_point_def del: utf8_decode.simps)
  next
    case 3
    let ?x = "p div 4096" and ?y = "p div 64 mod 64" and ?z = "p mod 64"
    have b: "?x < 16" using assms(1) by (simp add: div_less_iff_less_mult)
    have h: "?x * 64 + ?y = p div 64" by (rule base_64)
    have lo: "32 \<le> p div 64" using 3 by (simp add: less_eq_div_iff_mult_less_eq)
    have hi: "\<not> (864 \<le> p div 64 \<and> p div 64 < 896)"
      using assms(2) by (simp add: less_eq_div_iff_mult_less_eq div_less_iff_less_mult)
    have y0: "?x = 0 \<Longrightarrow> 32 \<le> ?y" using h lo by linarith
    have y13: "?x = 13 \<Longrightarrow> ?y < 32" using h hi mod_64 [of "p div 64"] by linarith
    have sum: "?x * 4096 + ?y * 64 + ?z = p" using h base_64(1) [of p] by linarith
    have "utf8_decode ([of_nat (224 + ?x), of_nat (128 + ?y), of_nat (128 + ?z)] @ t) = of_nat (?x * 4096 + ?y * 64 + ?z) # utf8_decode t"
      unfolding append_Cons append_Nil
      by (rule decode_three) (use b y0 y13 mod_64 [of p] mod_64 [of "p div 64"] in \<open>simp_all add: unat_byte del: of_nat_add of_nat_numeral\<close>)
    then show ?thesis unfolding sum using 3 assms(1) by (simp add: utf8_point_def del: utf8_decode.simps)
  qed (simp add: decode_one)
qed

lemma decode_pair:
  assumes "65536 \<le> p" "p < 1114112"
  shows "utf8_decode (utf8_point p @ t) = units_of_point p @ utf8_decode t"
proof -
  let ?x = "p div 262144" and ?y = "p div 4096 mod 64" and ?z = "p div 64 mod 64" and ?w = "p mod 64"
  have h: "?x * 64 + ?y = p div 4096" "p div 4096 * 64 + ?z = p div 64" "p div 64 * 64 + ?w = p" by (rule base_64)+
  have "16 \<le> p div 4096" "p div 4096 < 272" using assms by (simp_all add: less_eq_div_iff_mult_less_eq div_less_iff_less_mult)
  then have y: "?x = 0 \<Longrightarrow> 16 \<le> ?y" "?x = 4 \<Longrightarrow> ?y < 16" using h(1) by linarith+
  have x: "?x \<le> 4" using assms(2) by linarith
  have sum: "?x * 262144 + ?y * 4096 + ?z * 64 + ?w = p" using h by linarith
  have "utf8_decode ([of_nat (240 + ?x), of_nat (128 + ?y), of_nat (128 + ?z), of_nat (128 + ?w)] @ t)
      = units_of_point (?x * 262144 + ?y * 4096 + ?z * 64 + ?w) @ utf8_decode t"
    unfolding append_Cons append_Nil
    by (rule decode_four) (use x y mod_64 [of p] mod_64 [of "p div 64"] mod_64 [of "p div 4096"] in \<open>simp_all add: unat_byte del: of_nat_add of_nat_numeral\<close>)
  then show ?thesis unfolding sum using assms by (simp add: utf8_point_def del: utf8_decode.simps)
qed

lemma surrogate_pair_point:
  assumes "high_surrogate c" "low_surrogate d"
  shows "65536 \<le> code_point c d" "code_point c d < 1114112" "units_of_point (code_point c d) = [c, d]"
proof -
  define h l where "h = unat c - 55296" and "l = unat d - 56320"
  have b: "h < 1024" "l < 1024" "unat c = 55296 + h" "unat d = 56320 + l"
    using assms by (auto simp: h_def l_def high_surrogate_def low_surrogate_def word_le_nat_alt)
  then have p: "code_point c d = 65536 + (h * 1024 + l)" by (simp add: code_point_def)
  have "h * 1024 + l < 1048576" using b(1,2) by linarith
  then show "65536 \<le> code_point c d" "code_point c d < 1114112" unfolding p by simp_all
  have "(h * 1024 + l) div 1024 = h" "(h * 1024 + l) mod 1024 = l" using b(2) by simp_all
  then have "units_of_point (code_point c d) = [of_nat (unat c), of_nat (unat d)]"
    unfolding p b(3,4) by (simp add: units_of_point_def)
  then show "units_of_point (code_point c d) = [c, d]" by simp
qed

lemma utf8_roundtrip: "paired s \<Longrightarrow> utf8_decode (utf8 s) = s"
proof (induction s rule: paired.induct)
  case (2 c r)
  have lt: "unat c < 65536" using unsigned_less [of c] by simp
  show ?case
  proof (cases "high_surrogate c")
    case True
    then obtain d r' where r: "r = d # r'" "low_surrogate d" "paired r'" using 2(3) by (cases r) auto
    then have "utf8 (c # r) = utf8_point (code_point c d) @ utf8 r'" using True by simp
    moreover have "utf8_decode (utf8 r') = r'" using 2(1) [OF True r(1)] r(3) by simp
    ultimately show ?thesis
      using decode_pair [OF surrogate_pair_point(1,2) [OF True r(2)]] surrogate_pair_point(3) [OF True r(2)] r(1) by simp
  next
    case False
    then have low: "\<not> low_surrogate c" and p: "paired r" using 2(3) by (auto split: if_splits)
    have "\<not> (55296 \<le> unat c \<and> unat c < 57344)"
      using False low by (auto simp: high_surrogate_def low_surrogate_def word_le_nat_alt)
    then have "utf8_decode (utf8_point (unat c) @ utf8 r) = c # utf8_decode (utf8 r)"
      using decode_unit [OF lt] by simp
    then show ?thesis using False low p 2(2) by (simp del: utf8_decode.simps)
  qed
qed simp

lemma paired_ascii: "list_all (\<lambda>c. c < 128) s \<Longrightarrow> paired s"
  by (induction s) (auto simp: high_surrogate_def low_surrogate_def word_le_nat_alt word_less_nat_alt)

lemma paired_plain: "\<not> high_surrogate c \<Longrightarrow> \<not> low_surrogate c \<Longrightarrow> paired (c # r) = paired r"
  by simp

lemma hex4_below: "list_all (\<lambda>c. c < 128) (hex4 c)"
proof -
  have "hex_digit d < 128" if "d < 16" for d
  proof -
    have "unat (hex_digit d) < 128"
      using that unat_unit [of "48 + d"] unat_unit [of "87 + d"] by (auto simp: hex_digit_def)
    then show ?thesis by (simp add: word_less_nat_alt)
  qed
  then show ?thesis by (simp add: hex4_def)
qed

lemma paired_escape: "paired r \<Longrightarrow> paired (92 # 117 # hex4 c @ r)"
  using paired_append [OF paired_ascii [of "92 # 117 # hex4 c"], of r] hex4_below [of c] by simp

lemma paired_quote_unit: "\<not> high_surrogate c \<Longrightarrow> \<not> low_surrogate c \<Longrightarrow> paired r \<Longrightarrow> paired (quote_unit c @ r)"
  using paired_escape [of r c] by (auto simp: quote_unit_def high_surrogate_def low_surrogate_def)

lemma paired_quote_body: "paired (quote_body s)"
proof (induction s rule: units_induct)
  case (lone c r)
  then show ?case using paired_escape [of "quote_body r" c] unfolding quote_body_lone [OF lone(1,2)] by simp
next
  case (unit c r)
  then show ?case using paired_quote_unit [of c "quote_body r"] by simp
qed simp_all

lemma paired_quote: "paired (quote s)"
  using paired_append [OF paired_quote_body [of s], of "[34]"]
  by (simp add: quote_def high_surrogate_def low_surrogate_def)

lemma paired_join: "(\<And>w. w \<in> set ws \<Longrightarrow> paired w) \<Longrightarrow> paired sep \<Longrightarrow> paired (join_with sep ws)"
  by (induction sep ws rule: join_with.induct) (simp_all add: paired_append)

lemma paired_tokens:
  "paired (js ''null'')" "paired (js ''true'')" "paired (js ''false'')" "paired (js ''['')" "paired (js '']'')"
  "paired (js ''{'')" "paired (js ''}'')" "paired (js '','')" "paired (js '':'')"
  by (simp_all add: json_tokens high_surrogate_def low_surrogate_def)

lemma paired_stringify: "wire v \<Longrightarrow> paired (stringify v)"
proof (induction v rule: stringify.induct)
  case (5 vs)
  then show ?case unfolding stringify.simps by (intro paired_append paired_join paired_tokens) auto
next
  case (6 ps)
  have "paired (quote (fst p) @ js '':'' @ stringify (snd p))" if "p \<in> set ps" for p
    using 6 that by (cases p) (auto intro!: paired_append simp: paired_tokens paired_quote)
  then show ?case unfolding stringify.simps by (intro paired_append paired_join paired_tokens) auto
qed (auto simp: paired_tokens paired_quote paired_ascii reads_back_def)

theorem wire_utf8: "wire v \<Longrightarrow> json_parse (utf8_decode (utf8 (stringify v))) = Inr v"
  by (simp add: utf8_roundtrip paired_stringify json_roundtrip)

text \<open>What travels as base64url JSON, as payment headers and token segments do.\<close>

theorem wire_base64: "wire v \<Longrightarrow> json_parse (utf8_decode (base64_decode (base64url_encode (utf8 (stringify v))))) = Inr v"
  by (simp add: base64_roundtrip wire_utf8)

text \<open>A value with a quote, a line break, a surrogate pair and a lone surrogate in its text.\<close>

definition wire_example :: json where
  "wire_example = JObj [(js ''memo'', JStr [34, 10, 233, 55357, 56832, 55357]),
     (js ''items'', JArr [JNull, JBool True, JNum (Fin 2), JObj []])]"

lemma reads_back_two: "reads_back (Fin 2)"
  by code_simp



end
