(* ===== verification/Trigger_Jwt.thy ===== *)
theory Trigger_Jwt imports JS_Buffer Verification Sla_Engine begin

text \<open>
  \<open>proxy/src/jwt.js\<close> mints the trigger's JWT, \<open>runner/src/jwt.js\<close> verifies it and
  \<open>runner/src/gateway.js\<close> acts on it. SHA-256 and the EIP-191 signer of viem are parameters.
\<close>

section \<open>Minting\<close>

definition MAX_TTL_SECONDS :: jsnum where "MAX_TTL_SECONDS = Fin 300"

definition encode_segment :: "json \<Rightarrow> jstring" where
  "encode_segment v = base64url_encode (utf8 (stringify v))"

definition digest_of :: "(8 word list \<Rightarrow> 8 word list) \<Rightarrow> jstring \<Rightarrow> jstring" where
  "digest_of sha256 body = js ''0x'' @ hex_encode (sha256 (utf8 body))"

definition jwt_header :: json where
  "jwt_header = JObj [(js ''alg'', js_str ''ETH''), (js ''typ'', js_str ''JWT'')]"

definition jwt_payload :: "jstring \<Rightarrow> jstring \<Rightarrow> jsnum \<Rightarrow> jsnum \<Rightarrow> jstring \<Rightarrow> json" where
  "jwt_payload digest iss issued_at ttl jti = JObj
     [(js ''digest'', JStr digest), (js ''iss'', JStr iss), (js ''iat'', JNum issued_at),
      (js ''exp'', JNum (num_plus issued_at ttl)), (js ''jti'', JStr jti)]"

text \<open>\<open>address_of\<close> and \<open>sign\<close> are the SDK's \<open>addressOf\<close> and \<open>signPersonalMessage\<close> under the private key.\<close>

definition mint_trigger_jwt ::
  "(8 word list \<Rightarrow> 8 word list) \<Rightarrow> jstring \<Rightarrow> (jstring \<Rightarrow> jstring) \<Rightarrow> jstring \<Rightarrow> jsnum \<Rightarrow> jsnum \<Rightarrow> jstring \<Rightarrow> jstring result" where
  "mint_trigger_jwt sha256 issuer sign body ttl_seconds now jti =
     (if body = [] then Inl (js ''mintTriggerJwt: body must be the serialised JSON-RPC string that will be sent'')
      else if num_le ttl_seconds (Fin 0) \<or> num_less MAX_TTL_SECONDS ttl_seconds then
        Inl (js ''mintTriggerJwt: ttlSeconds must be 1..'' @ num_str MAX_TTL_SECONDS @ js '', got '' @ num_str ttl_seconds)
      else
        (let header = encode_segment jwt_header;
             payload = encode_segment (jwt_payload (digest_of sha256 body) issuer now ttl_seconds jti);
             signature = sign (header @ js ''.'' @ payload) in
         Inr (header @ js ''.'' @ payload @ js ''.'' @ base64url_encode (hex_decode (drop 2 signature)))))"

section \<open>Verifying\<close>

datatype jwt_failure = MALFORMED | EXPIRED | NOT_YET_VALID | DIGEST_MISMATCH | BAD_SIGNATURE | WRONG_SIGNER

definition jwt_failure_name :: "jwt_failure \<Rightarrow> jstring" where
  "jwt_failure_name f = (case f of MALFORMED \<Rightarrow> js ''malformed_token'' | EXPIRED \<Rightarrow> js ''expired''
     | NOT_YET_VALID \<Rightarrow> js ''not_yet_valid'' | DIGEST_MISMATCH \<Rightarrow> js ''digest_mismatch''
     | BAD_SIGNATURE \<Rightarrow> js ''bad_signature'' | WRONG_SIGNER \<Rightarrow> js ''wrong_signer'')"

datatype jwt_thrown = Trigger_Jwt_Error jwt_failure jstring | Type_Error

definition decode_segment :: "jstring \<Rightarrow> jwt_thrown + json" where
  "decode_segment segment = (case json_parse (utf8_decode (base64_decode segment)) of
     Inr v \<Rightarrow> Inr v | Inl _ \<Rightarrow> Inl (Trigger_Jwt_Error MALFORMED (js ''could not decode a JWT segment'')))"

text \<open>The checks on the decoded payload, in the code's order.\<close>

definition check_times :: "jsnum \<Rightarrow> jsnum \<Rightarrow> jsnum \<Rightarrow> jsnum \<Rightarrow> jwt_thrown + unit" where
  "check_times expires iat max_age now =
     (if num_less expires now then
        Inl (Trigger_Jwt_Error EXPIRED (js ''token expired at '' @ num_str expires @ js '', now '' @ num_str now))
      else if num_less (num_plus now (Fin 30)) iat then
        Inl (Trigger_Jwt_Error NOT_YET_VALID (js ''token issued in the future: '' @ num_str iat))
      else if num_less max_age (num_minus expires iat) then
        Inl (Trigger_Jwt_Error EXPIRED
          (js ''token TTL '' @ num_str (num_minus expires iat) @ js ''s exceeds '' @ num_str max_age @ js ''s''))
      else Inr ())"

text \<open>
  \<open>verify_message iss message signature\<close> is the SDK's \<open>verifyPersonalMessage\<close> with a rejection read
  as false. A token that verifies under an issuer that is no string is a TypeError.
\<close>

definition check_signer ::
  "(json option \<Rightarrow> jstring \<Rightarrow> jstring \<Rightarrow> bool) \<Rightarrow> json option \<Rightarrow> jstring \<Rightarrow> jstring \<Rightarrow> jstring \<Rightarrow> jwt_thrown + jstring" where
  "check_signer verify_message iss signed_message signature expected =
     (if \<not> verify_message iss signed_message signature then
        Inl (Trigger_Jwt_Error BAD_SIGNATURE (js ''signature does not recover to the claimed issuer''))
      else (case iss of
        Some (JStr signer) \<Rightarrow>
          if lower signer \<noteq> lower expected then
            Inl (Trigger_Jwt_Error WRONG_SIGNER (js ''token signed by '' @ signer @ js '', expected '' @ expected))
          else Inr signer
      | _ \<Rightarrow> Inl Type_Error))"

definition verify_trigger_jwt ::
  "(8 word list \<Rightarrow> 8 word list) \<Rightarrow> (json option \<Rightarrow> jstring \<Rightarrow> jstring \<Rightarrow> bool) \<Rightarrow> jstring option \<Rightarrow> jstring \<Rightarrow> jstring \<Rightarrow>
   jsnum \<Rightarrow> jsnum \<Rightarrow> jwt_thrown + (jstring \<times> json option)" where
  "verify_trigger_jwt sha256 verify_message authorization body expected max_age now =
     (case authorization of
        None \<Rightarrow> Inl (Trigger_Jwt_Error MALFORMED (js ''missing Bearer authorization header''))
      | Some auth \<Rightarrow>
          if \<not> starts_with auth (js ''Bearer '') then
            Inl (Trigger_Jwt_Error MALFORMED (js ''missing Bearer authorization header''))
          else
            (case split_on 46 (drop 7 auth) of
               [header_seg, payload_seg, signature_seg] \<Rightarrow>
                 bind_r (decode_segment header_seg) (\<lambda>header.
                 bind_r (decode_segment payload_seg) (\<lambda>payload.
                 if json_member header ''alg'' \<noteq> Some (js_str ''ETH'') \<or> json_member header ''typ'' \<noteq> Some (js_str ''JWT'') then
                   Inl (Trigger_Jwt_Error MALFORMED (js ''unexpected header '' @ stringify header))
                 else
                   (case (json_member payload ''digest'', json_member payload ''exp'', json_member payload ''iat'') of
                      (Some (JStr digest), Some (JNum expires), Some (JNum iat)) \<Rightarrow>
                        bind_r (check_times expires iat max_age now) (\<lambda>_.
                        if digest \<noteq> digest_of sha256 body then
                          Inl (Trigger_Jwt_Error DIGEST_MISMATCH (js ''token digest does not match the request body''))
                        else
                          bind_r (check_signer verify_message (json_member payload ''iss'')
                              (header_seg @ js ''.'' @ payload_seg)
                              (js ''0x'' @ hex_encode (base64_decode signature_seg)) expected) (\<lambda>signer.
                          Inr (signer, json_member payload ''jti'')))
                    | _ \<Rightarrow> Inl (Trigger_Jwt_Error MALFORMED (js ''payload is missing digest, iat or exp'')))))
             | _ \<Rightarrow> Inl (Trigger_Jwt_Error MALFORMED (js ''not a three-part token''))))"

section \<open>What is accepted\<close>

lemma check_times_iff:
  "check_times expires iat max_age now = Inr u \<longleftrightarrow>
     \<not> num_less expires now \<and> \<not> num_less (num_plus now (Fin 30)) iat \<and> \<not> num_less max_age (num_minus expires iat)"
  by (simp add: check_times_def)

lemma check_signer_iff:
  "check_signer verify_message iss m sig expected = Inr signer \<longleftrightarrow>
     iss = Some (JStr signer) \<and> verify_message iss m sig \<and> lower signer = lower expected"
  by (auto simp: check_signer_def split: option.splits json.splits)

definition signed_payload ::
  "(8 word list \<Rightarrow> 8 word list) \<Rightarrow> jstring \<Rightarrow> jsnum \<Rightarrow> jsnum \<Rightarrow> json \<Rightarrow> jstring \<Rightarrow> json option \<Rightarrow> bool" where
  "signed_payload sha256 body max_age now payload signer jti \<longleftrightarrow>
     (\<exists>expires iat. json_member payload ''digest'' = Some (JStr (digest_of sha256 body)) \<and>
        json_member payload ''exp'' = Some (JNum expires) \<and> json_member payload ''iat'' = Some (JNum iat) \<and>
        \<not> num_less expires now \<and> \<not> num_less (num_plus now (Fin 30)) iat \<and> \<not> num_less max_age (num_minus expires iat) \<and>
        json_member payload ''iss'' = Some (JStr signer) \<and> jti = json_member payload ''jti'')"

lemma starts_with_split: "starts_with s p \<Longrightarrow> s = p @ drop (length p) s"
  by (metis append_take_drop_id starts_with_def)

lemma three_parts: "split_on 46 t = [h, p, s] \<longleftrightarrow> t = h @ 46 # p @ 46 # s \<and> 46 \<notin> set h \<union> set p \<union> set s"
proof
  assume sp: "split_on 46 t = [h, p, s]"
  then have "t = join_with [46] [h, p, s]" using join_split_on [of 46 t] by simp
  moreover have "46 \<notin> set h" "46 \<notin> set p" "46 \<notin> set s" using split_on_no_sep_in [of _ 46 t] sp by auto
  ultimately show "t = h @ 46 # p @ 46 # s \<and> 46 \<notin> set h \<union> set p \<union> set s" by simp
qed (simp add: split_on_append split_on_no_sep)

lemma verify_trigger_jwt_iff:
  "verify_trigger_jwt sha256 verify_message authorization body expected max_age now = Inr (signer, jti) \<longleftrightarrow>
   (\<exists>h p s header payload.
      authorization = Some (js ''Bearer '' @ h @ js ''.'' @ p @ js ''.'' @ s) \<and> 46 \<notin> set h \<union> set p \<union> set s \<and>
      decode_segment h = Inr header \<and> json_member header ''alg'' = Some (js_str ''ETH'') \<and>
      json_member header ''typ'' = Some (js_str ''JWT'') \<and>
      decode_segment p = Inr payload \<and> signed_payload sha256 body max_age now payload signer jti \<and>
      verify_message (Some (JStr signer)) (h @ js ''.'' @ p) (js ''0x'' @ hex_encode (base64_decode s)) \<and>
      lower signer = lower expected)"  (is "?v = _ \<longleftrightarrow> ?r")
proof
  assume "?v = Inr (signer, jti)"
  then obtain auth where auth: "authorization = Some auth" "starts_with auth (js ''Bearer '')"
    by (auto simp: verify_trigger_jwt_def split: option.splits if_splits)
  then obtain h p s where parts: "split_on 46 (drop 7 auth) = [h, p, s]"
    using \<open>?v = Inr (signer, jti)\<close> by (auto simp: verify_trigger_jwt_def split: list.splits)
  obtain header where header: "decode_segment h = Inr header"
    using \<open>?v = Inr (signer, jti)\<close> auth parts by (auto simp: verify_trigger_jwt_def bind_r_Inr_iff)
  obtain payload where payload: "decode_segment p = Inr payload"
    using \<open>?v = Inr (signer, jti)\<close> auth parts header by (auto simp: verify_trigger_jwt_def bind_r_Inr_iff)
  have v: "?v = Inr (signer, jti)" by fact
  have alg: "json_member header ''alg'' = Some (js_str ''ETH'')" "json_member header ''typ'' = Some (js_str ''JWT'')"
    using v auth parts header payload by (auto simp: verify_trigger_jwt_def split: if_splits)
  then obtain digest expires iat where fields: "json_member payload ''digest'' = Some (JStr digest)"
    "json_member payload ''exp'' = Some (JNum expires)" "json_member payload ''iat'' = Some (JNum iat)"
    using v auth parts header payload by (auto simp: verify_trigger_jwt_def split: option.splits json.splits)
  have checks: "check_times expires iat max_age now = Inr ()" "digest = digest_of sha256 body"
    "check_signer verify_message (json_member payload ''iss'') (h @ js ''.'' @ p)
       (js ''0x'' @ hex_encode (base64_decode s)) expected = Inr signer" "jti = json_member payload ''jti''"
    using v auth parts header payload alg fields
    by (auto simp: verify_trigger_jwt_def bind_r_Inr_iff split: if_splits)
  have l: "length (js ''Bearer '') = 7" by (simp add: js_def)
  have bearer: "auth = js ''Bearer '' @ drop 7 auth" using starts_with_split [OF auth(2)] unfolding l .
  then have "auth = js ''Bearer '' @ h @ js ''.'' @ p @ js ''.'' @ s" "46 \<notin> set h \<union> set p \<union> set s"
    using bearer parts by (simp_all add: three_parts) (simp_all add: js_def)
  then show ?r
    using auth(1) header payload alg fields checks
    by - (rule exI [of _ h], rule exI [of _ p], rule exI [of _ s], rule exI [of _ header], rule exI [of _ payload],
      auto simp: signed_payload_def check_times_iff check_signer_iff)
next
  assume ?r
  then obtain h p s header payload where r: "authorization = Some (js ''Bearer '' @ h @ js ''.'' @ p @ js ''.'' @ s)"
      "46 \<notin> set h \<union> set p \<union> set s" "decode_segment h = Inr header"
      "json_member header ''alg'' = Some (js_str ''ETH'')" "json_member header ''typ'' = Some (js_str ''JWT'')"
      "decode_segment p = Inr payload" "signed_payload sha256 body max_age now payload signer jti"
      "verify_message (Some (JStr signer)) (h @ js ''.'' @ p) (js ''0x'' @ hex_encode (base64_decode s))"
      "lower signer = lower expected"
    by blast
  have "split_on 46 (drop 7 (js ''Bearer '' @ h @ js ''.'' @ p @ js ''.'' @ s)) = [h, p, s]"
    using r(2) by (simp add: three_parts js_def)
  moreover have "starts_with (js ''Bearer '' @ h @ js ''.'' @ p @ js ''.'' @ s) (js ''Bearer '')"
    by (simp add: starts_with_def)
  moreover obtain expires iat where "json_member payload ''digest'' = Some (JStr (digest_of sha256 body))"
      "json_member payload ''exp'' = Some (JNum expires)" "json_member payload ''iat'' = Some (JNum iat)"
      "check_times expires iat max_age now = Inr ()" "json_member payload ''iss'' = Some (JStr signer)" "jti = json_member payload ''jti''"
    using r(7) by (auto simp: signed_payload_def check_times_iff)
  ultimately show "?v = Inr (signer, jti)"
    using r by (simp add: verify_trigger_jwt_def check_signer_iff [THEN iffD2])
qed

section \<open>What is minted is accepted\<close>

lemma decode_jwt_header: "decode_segment (encode_segment jwt_header) = Inr jwt_header"
  by code_simp

lemma minted_token_verifies:
  assumes mint: "mint_trigger_jwt sha256 issuer sign body ttl now jti = Inr token"
    and signs: "\<And>m. \<exists>bs. sign m = js ''0x'' @ hex_encode bs \<and> verify_message (Some (JStr issuer)) m (sign m)"
    and survives: "decode_segment (encode_segment (jwt_payload (digest_of sha256 body) issuer now ttl jti)) =
       Inr (jwt_payload (digest_of sha256 body) issuer now ttl jti)"
    and times: "check_times (num_plus now ttl) now max_age later = Inr ()"
    and signer: "lower issuer = lower expected"
  shows "verify_trigger_jwt sha256 verify_message (Some (js ''Bearer '' @ token)) body expected max_age later =
     Inr (issuer, Some (JStr jti))"
proof -
  define h where "h = encode_segment jwt_header"
  define payload where "payload = jwt_payload (digest_of sha256 body) issuer now ttl jti"
  define p where "p = encode_segment payload"
  obtain bs where sig: "sign (h @ js ''.'' @ p) = js ''0x'' @ hex_encode bs"
      "verify_message (Some (JStr issuer)) (h @ js ''.'' @ p) (sign (h @ js ''.'' @ p))"
    using signs [of "h @ js ''.'' @ p"] by blast
  define s where "s = base64url_encode bs"
  have "drop 2 (js ''0x'' @ hex_encode bs) = hex_encode bs" by (simp add: js_def)
  then have token: "token = h @ js ''.'' @ p @ js ''.'' @ s"
    using mint sig(1) by (simp add: mint_trigger_jwt_def Let_def h_def p_def payload_def s_def hex_roundtrip split: if_splits)
  have "46 \<notin> set h \<union> set p \<union> set s"
    by (simp add: h_def p_def s_def encode_segment_def base64url_no_dot)
  moreover have "decode_segment h = Inr jwt_header" by (simp add: h_def decode_jwt_header)
  moreover have "json_member jwt_header ''alg'' = Some (js_str ''ETH'')" "json_member jwt_header ''typ'' = Some (js_str ''JWT'')"
    by (simp_all add: jwt_header_def json_member_def member_def)
  moreover have "decode_segment p = Inr payload" using survives by (simp add: p_def payload_def)
  moreover have "signed_payload sha256 body max_age later payload issuer (Some (JStr jti))"
    using times by (simp add: signed_payload_def payload_def jwt_payload_def json_member_def member_def check_times_iff)
  moreover have "verify_message (Some (JStr issuer)) (h @ js ''.'' @ p) (js ''0x'' @ hex_encode (base64_decode s))"
    using sig by (simp add: s_def base64_roundtrip)
  ultimately show ?thesis
    unfolding verify_trigger_jwt_iff token using signer by blast
qed

text \<open>
  A token the proxy mints for a body is accepted by the runner for that body until it expires:
  when the private key's signatures verify under its address, the configured signer is that
  address, and the payload survives JSON, \<open>verifyTriggerJwt\<close> returns the issuer and the token id.
\<close>

theorem minted_tokens_are_accepted:
  assumes mint: "mint_trigger_jwt sha256 issuer sign body ttl now jti = Inr token"
    and signs: "\<And>m. \<exists>bs. sign m = js ''0x'' @ hex_encode bs \<and> verify_message (Some (JStr issuer)) m (sign m)"
    and survives: "decode_segment (encode_segment (jwt_payload (digest_of sha256 body) issuer now ttl jti)) =
       Inr (jwt_payload (digest_of sha256 body) issuer now ttl jti)"
    and times: "check_times (num_plus now ttl) now max_age later = Inr ()"
    and signer: "lower issuer = lower expected"
  shows "verify_trigger_jwt sha256 verify_message (Some (js ''Bearer '' @ token)) body expected max_age later =
     Inr (issuer, Some (JStr jti))"
  by (rule minted_token_verifies [where sign = sign and verify_message = verify_message and issuer = issuer, OF mint signs survives times signer])

definition example_issuer :: jstring where "example_issuer = js ''0xAb''"

definition example_sign :: "jstring \<Rightarrow> jstring" where "example_sign m = js ''0x'' @ hex_encode [7, 255]"

definition example_sha256 :: "8 word list \<Rightarrow> 8 word list" where "example_sha256 bs = rev (take 2 bs)"

theorem minted_tokens_are_accepted_witness:
  "\<exists>token. mint_trigger_jwt example_sha256 example_issuer example_sign (js ''{}'') (Fin 60) (Fin 1000) (js ''j1'') = Inr token \<and>
     verify_trigger_jwt example_sha256 (\<lambda>iss m s. iss = Some (JStr example_issuer) \<and> s = example_sign m)
       (Some (js ''Bearer '' @ token)) (js ''{}'') (js ''0xaB'') (Fin 300) (Fin 1059) = Inr (example_issuer, Some (js_str ''j1''))"
proof -
  obtain token where m: "mint_trigger_jwt example_sha256 example_issuer example_sign (js ''{}'') (Fin 60) (Fin 1000) (js ''j1'') = Inr token"
    by (simp add: mint_trigger_jwt_def Let_def MAX_TTL_SECONDS_def num_le_def num_eq_def js_def)
  have "decode_segment (encode_segment (jwt_payload (digest_of example_sha256 (js ''{}'')) example_issuer (Fin 1000) (Fin 60) (js ''j1''))) =
      Inr (jwt_payload (digest_of example_sha256 (js ''{}'')) example_issuer (Fin 1000) (Fin 60) (js ''j1''))"
    by code_simp
  moreover have "check_times (num_plus (Fin 1000) (Fin 60)) (Fin 1000) (Fin 300) (Fin 1059) = Inr ()" by code_simp
  moreover have "lower example_issuer = lower (js ''0xaB'')" by code_simp
  moreover have "\<And>m. \<exists>bs. example_sign m = js ''0x'' @ hex_encode bs \<and> Some (JStr example_issuer) = Some (JStr example_issuer) \<and> example_sign m = example_sign m"
    by (auto simp: example_sign_def)
  ultimately show ?thesis
    using minted_tokens_are_accepted [OF m, of "\<lambda>iss m s. iss = Some (JStr example_issuer) \<and> s = example_sign m" "Fin 300" "Fin 1059" "js ''0xaB''"] m
    by blast
qed

text \<open>
  C19: The runner accepts exactly the bearer tokens of three segments whose header is the ETH JWT
  header, whose payload binds this very body by its digest, is neither expired nor issued in
  the future nor longer lived than allowed, and whose signature over the two segments is the
  configured signer's.
\<close>

theorem runner_accepts_exactly:
  "verify_trigger_jwt sha256 verify_message authorization body expected max_age now = Inr (signer, jti) \<longleftrightarrow>
   (\<exists>h p s header payload.
      authorization = Some (js ''Bearer '' @ h @ js ''.'' @ p @ js ''.'' @ s) \<and> 46 \<notin> set h \<union> set p \<union> set s \<and>
      decode_segment h = Inr header \<and> json_member header ''alg'' = Some (js_str ''ETH'') \<and>
      json_member header ''typ'' = Some (js_str ''JWT'') \<and>
      decode_segment p = Inr payload \<and> signed_payload sha256 body max_age now payload signer jti \<and>
      verify_message (Some (JStr signer)) (h @ js ''.'' @ p) (js ''0x'' @ hex_encode (base64_decode s)) \<and>
      lower signer = lower expected)"
  by (rule verify_trigger_jwt_iff)

end
