(* ===== verification/Runner_Gateway.thy ===== *)
theory Runner_Gateway imports Trigger_Jwt begin

text \<open>
  \<open>runner/src/gateway.js\<close> and \<open>request-body.js\<close>: the runner's JSON-RPC handler, and the bounded
  reader in front of it. What the simulator answers, or fails to, is an input.
\<close>

section \<open>handleTrigger\<close>

record runner_config =
  rc_trigger_address :: jstring
  rc_jwt_max_age_seconds :: jsnum
  rc_simulator_url :: jstring
  rc_expected_workflow_id :: "jstring option"

datatype simulator_reply =
    Sim_Ok
  | Sim_Rejected jsnum jstring \<comment> \<open>status and statusText\<close>
  | Sim_Timeout
  | Sim_Unreachable jstring

definition PARSE_ERROR :: int where "PARSE_ERROR = -32700"
definition INVALID_REQUEST :: int where "INVALID_REQUEST = -32600"
definition METHOD_NOT_FOUND :: int where "METHOD_NOT_FOUND = -32601"
definition INVALID_PARAMS :: int where "INVALID_PARAMS = -32602"
definition UNAUTHORIZED :: int where "UNAUTHORIZED = -32001"
definition UPSTREAM_UNAVAILABLE :: int where "UPSTREAM_UNAVAILABLE = -32002"

definition rpc_error :: "json option \<Rightarrow> int \<Rightarrow> jstring \<Rightarrow> json" where
  "rpc_error rpc_id code message = JObj
     [(js ''jsonrpc'', js_str ''2.0''), (js ''id'', nullish rpc_id JNull),
      (js ''error'', JObj [(js ''code'', JNum (jsint code)), (js ''message'', JStr message)])]"

definition rpc_accepted :: "json option \<Rightarrow> jstring \<Rightarrow> json" where
  "rpc_accepted rpc_id workflow_execution_id = JObj
     [(js ''jsonrpc'', js_str ''2.0''), (js ''id'', nullish rpc_id JNull),
      (js ''result'', JObj [(js ''status'', js_str ''ACCEPTED''), (js ''workflow_execution_id'', JStr workflow_execution_id)])]"

text \<open>The answer, and the body that went to the simulator, if one did.\<close>

record trigger_answer =
  ta_status :: nat
  ta_body :: json
  ta_forwarded :: "jstring option"

definition refuse_trigger :: "nat \<Rightarrow> json \<Rightarrow> trigger_answer" where
  "refuse_trigger status body = \<lparr>ta_status = status, ta_body = body, ta_forwarded = None\<rparr>"

definition execution_id :: "json \<Rightarrow> json option \<Rightarrow> jstring" where
  "execution_id input rpc_id = js ''sim-'' @ string_of_value
     (case json_member input ''requestId'' of Some v \<Rightarrow> if v = JNull then rpc_id else Some v | None \<Rightarrow> rpc_id)"

definition forward_trigger :: "runner_config \<Rightarrow> simulator_reply \<Rightarrow> json option \<Rightarrow> json \<Rightarrow> trigger_answer" where
  "forward_trigger config simulator rpc_id input =
     (let sent = Some (stringify (JObj [(js ''input'', input)]));
          accepted = \<lparr>ta_status = 200, ta_body = rpc_accepted rpc_id (execution_id input rpc_id), ta_forwarded = sent\<rparr> in
      case simulator of
        Sim_Ok \<Rightarrow> accepted
      | Sim_Timeout \<Rightarrow> accepted
      | Sim_Rejected status text \<Rightarrow>
          \<lparr>ta_status = 502, ta_body = rpc_error rpc_id UPSTREAM_UNAVAILABLE
             (js ''simulator rejected the trigger (HTTP '' @ num_str status @
              (if text = [] then [] else js '' '' @ text) @ js '')''), ta_forwarded = sent\<rparr>
      | Sim_Unreachable m \<Rightarrow>
          \<lparr>ta_status = 502, ta_body = rpc_error rpc_id UPSTREAM_UNAVAILABLE
             (js ''could not reach the simulator at '' @ rc_simulator_url config @ js '': '' @ m), ta_forwarded = sent\<rparr>)"

text \<open>The part behind the token check.\<close>

definition execute_method ::
  "runner_config \<Rightarrow> simulator_reply \<Rightarrow> json option \<Rightarrow> jstring \<Rightarrow> json option \<Rightarrow> trigger_answer" where
  "execute_method config simulator rpc_id meth params =
     (if meth \<noteq> js ''workflows.execute'' then
        refuse_trigger 404 (rpc_error rpc_id METHOD_NOT_FOUND (js ''unsupported method '' @ meth))
      else
        (let input = Option.bind params (\<lambda>p. json_member p ''input'');
             workflow_id = Option.bind (Option.bind params (\<lambda>p. json_member p ''workflow''))
               (\<lambda>w. json_member w ''workflowID'') in
         if \<not> is_object input then
           refuse_trigger 400 (rpc_error rpc_id INVALID_PARAMS (js ''params.input is required''))
         else case rc_expected_workflow_id config of
           Some w \<Rightarrow>
             if w \<noteq> [] \<and> workflow_id \<noteq> Some (JStr w) then
               refuse_trigger 400 (rpc_error rpc_id INVALID_PARAMS
                 (js ''params.workflow.workflowID '' @ string_of_value workflow_id @
                  js '' does not match the workflow this host is running ('' @ w @ js '')''))
             else forward_trigger config simulator rpc_id (the input)
         | None \<Rightarrow> forward_trigger config simulator rpc_id (the input)))"

definition handle_trigger ::
  "(8 word list \<Rightarrow> 8 word list) \<Rightarrow> (json option \<Rightarrow> jstring \<Rightarrow> jstring \<Rightarrow> bool) \<Rightarrow> runner_config \<Rightarrow> simulator_reply \<Rightarrow>
   jstring option \<Rightarrow> jstring \<Rightarrow> jsnum \<Rightarrow> trigger_answer" where
  "handle_trigger sha256 verify_message config simulator authorization raw_body now =
     (case json_parse raw_body of
        Inl _ \<Rightarrow> refuse_trigger 400 (rpc_error None PARSE_ERROR (js ''invalid JSON body''))
      | Inr envelope \<Rightarrow>
          (let rpc_id = json_member envelope ''id'' in
           case (json_member envelope ''jsonrpc'' = Some (js_str ''2.0''), json_member envelope ''method'') of
             (True, Some (JStr meth)) \<Rightarrow>
               (case verify_trigger_jwt sha256 verify_message authorization raw_body (rc_trigger_address config)
                       (rc_jwt_max_age_seconds config) now of
                  Inl e \<Rightarrow> refuse_trigger 401 (rpc_error rpc_id UNAUTHORIZED (js ''unauthorized: '' @
                      (case e of Trigger_Jwt_Error f _ \<Rightarrow> jwt_failure_name f | Type_Error \<Rightarrow> js ''verification_failed'')))
                | Inr _ \<Rightarrow> execute_method config simulator rpc_id meth (json_member envelope ''params''))
           | _ \<Rightarrow> refuse_trigger 400 (rpc_error rpc_id INVALID_REQUEST (js ''not a JSON-RPC 2.0 request''))))"

section \<open>readRequestBody\<close>

text \<open>
  What the request emits, and the reader's closure: \<open>rb_resolved\<close> is what the promise resolved to,
  \<open>Some None\<close> being \<open>null\<close>; \<open>rb_too_large\<close> counts the 413 responses.
\<close>

datatype body_event = Data "8 word list" | End | Request_Error

record body_reader =
  rb_chunks :: "8 word list list"
  rb_size :: nat
  rb_rejected :: bool
  rb_resolved :: "jstring option option"
  rb_too_large :: nat

definition fresh_reader :: body_reader where
  "fresh_reader = \<lparr>rb_chunks = [], rb_size = 0, rb_rejected = False, rb_resolved = None, rb_too_large = 0\<rparr>"

text \<open>A promise keeps the first value it is resolved with.\<close>

definition resolve_body :: "jstring option \<Rightarrow> body_reader \<Rightarrow> body_reader" where
  "resolve_body v r = (if rb_resolved r = None then r\<lparr>rb_resolved := Some v\<rparr> else r)"

fun body_step :: "nat \<Rightarrow> body_event \<Rightarrow> body_reader \<Rightarrow> body_reader" where
  "body_step max_bytes (Data chunk) r =
     (if rb_rejected r then r
      else let r = r\<lparr>rb_size := rb_size r + length chunk\<rparr> in
        if rb_size r > max_bytes then
          resolve_body None (r\<lparr>rb_rejected := True, rb_too_large := rb_too_large r + 1\<rparr>)
        else r\<lparr>rb_chunks := rb_chunks r @ [chunk]\<rparr>)"
| "body_step max_bytes End r =
     (if rb_rejected r then r else resolve_body (Some (utf8_decode (concat (rb_chunks r)))) r)"
| "body_step max_bytes Request_Error r = (if rb_rejected r then r else resolve_body None r)"

definition read_request_body :: "nat \<Rightarrow> body_event list \<Rightarrow> body_reader" where
  "read_request_body max_bytes events = fold (body_step max_bytes) events fresh_reader"

section \<open>Facts\<close>

text \<open>What must hold of a request for its input to be forwarded.\<close>

definition executable_input :: "runner_config \<Rightarrow> jstring \<Rightarrow> json option \<Rightarrow> json \<Rightarrow> bool" where
  "executable_input config meth params input \<longleftrightarrow> meth = js ''workflows.execute'' \<and>
     Option.bind params (\<lambda>p. json_member p ''input'') = Some input \<and> is_object (Some input) \<and>
     (case rc_expected_workflow_id config of
        Some w \<Rightarrow> w = [] \<or> Option.bind (Option.bind params (\<lambda>p. json_member p ''workflow'')) (\<lambda>v. json_member v ''workflowID'') = Some (JStr w)
      | None \<Rightarrow> True)"

definition runnable ::
  "(8 word list \<Rightarrow> 8 word list) \<Rightarrow> (json option \<Rightarrow> jstring \<Rightarrow> jstring \<Rightarrow> bool) \<Rightarrow> runner_config \<Rightarrow> jstring option \<Rightarrow> jstring \<Rightarrow>
   jsnum \<Rightarrow> json \<Rightarrow> bool" where
  "runnable sha256 verify_message config authorization raw_body now input \<longleftrightarrow>
     (\<exists>envelope meth. json_parse raw_body = Inr envelope \<and>
        json_member envelope ''jsonrpc'' = Some (js_str ''2.0'') \<and> json_member envelope ''method'' = Some (JStr meth) \<and>
        is_ok (verify_trigger_jwt sha256 verify_message authorization raw_body (rc_trigger_address config)
          (rc_jwt_max_age_seconds config) now) \<and>
        executable_input config meth (json_member envelope ''params'') input)"

lemma forward_trigger_sent:
  "ta_forwarded (forward_trigger config simulator rpc_id input) = Some (stringify (JObj [(js ''input'', input)]))"
  "ta_status (forward_trigger config simulator rpc_id input) = (if simulator \<in> {Sim_Ok, Sim_Timeout} then 200 else 502)"
  by (cases simulator; simp add: forward_trigger_def Let_def)+

lemma refuse_trigger_sent [simp]: "ta_forwarded (refuse_trigger c b) = None" "ta_status (refuse_trigger c b) = c"
  by (simp_all add: refuse_trigger_def)

lemma execute_method_cases:
  "(\<exists>input. executable_input config meth params input \<and>
      execute_method config simulator rpc_id meth params = forward_trigger config simulator rpc_id input) \<or>
   (\<exists>c b. c \<in> {400, 404} \<and> (\<forall>input. \<not> executable_input config meth params input) \<and>
      execute_method config simulator rpc_id meth params = refuse_trigger c b)"
proof -
  define input where "input = Option.bind params (\<lambda>p. json_member p ''input'')"
  consider (unsupported) "meth \<noteq> js ''workflows.execute''" | (missing) "meth = js ''workflows.execute''" "\<not> is_object input"
    | (given) i where "meth = js ''workflows.execute''" "input = Some i" "is_object (Some i)"
    by (cases input) (auto simp: is_object_def)
  then show ?thesis
  proof cases
    case unsupported
    then show ?thesis by (auto simp: execute_method_def executable_input_def)
  next
    case missing
    then show ?thesis unfolding input_def by (auto simp: execute_method_def executable_input_def Let_def)
  next
    case given
    then show ?thesis unfolding input_def
      by (cases "rc_expected_workflow_id config") (simp_all add: execute_method_def executable_input_def Let_def, blast)
  qed
qed

text \<open>Every call ends in a refusal with a 4xx, or in a forward of a runnable input.\<close>

lemma handle_trigger_cases:
  obtains (forwarded) input rpc_id where "runnable sha256 verify_message config authorization raw_body now input"
      "handle_trigger sha256 verify_message config simulator authorization raw_body now = forward_trigger config simulator rpc_id input"
  | (refused) c b where "c \<in> {400, 401, 404}" "\<And>input. \<not> runnable sha256 verify_message config authorization raw_body now input"
      "handle_trigger sha256 verify_message config simulator authorization raw_body now = refuse_trigger c b"
proof (cases "json_parse raw_body")
  case Inl
  then show thesis using refused [of 400] by (simp add: handle_trigger_def runnable_def)
next
  case parsed: (Inr envelope)
  show thesis
  proof (cases "json_member envelope ''jsonrpc'' = Some (js_str ''2.0'') \<and> (\<exists>meth. json_member envelope ''method'' = Some (JStr meth))")
    case True
    then obtain meth where rpc: "json_member envelope ''jsonrpc'' = Some (js_str ''2.0'')" "json_member envelope ''method'' = Some (JStr meth)" by blast
    show thesis
    proof (cases "verify_trigger_jwt sha256 verify_message authorization raw_body (rc_trigger_address config) (rc_jwt_max_age_seconds config) now")
      case Inl
      then show thesis using refused [of 401] parsed rpc by (simp add: handle_trigger_def Let_def runnable_def)
    next
      case (Inr r)
      have run: "runnable sha256 verify_message config authorization raw_body now input \<longleftrightarrow>
          executable_input config meth (json_member envelope ''params'') input" for input
        using parsed rpc Inr by (simp add: runnable_def)
      have eq: "handle_trigger sha256 verify_message config simulator authorization raw_body now =
          execute_method config simulator (json_member envelope ''id'') meth (json_member envelope ''params'')"
        using parsed rpc Inr by (simp add: handle_trigger_def Let_def)
      show thesis
        using execute_method_cases [of config meth "json_member envelope ''params''" simulator "json_member envelope ''id''"]
          forwarded [unfolded run eq] refused [unfolded run eq] by blast
    qed
  next
    case False
    have "handle_trigger sha256 verify_message config simulator authorization raw_body now =
        refuse_trigger 400 (rpc_error (json_member envelope ''id'') INVALID_REQUEST (js ''not a JSON-RPC 2.0 request''))"
      using parsed False by (auto simp: handle_trigger_def Let_def split: option.split json.split bool.split)
    moreover have "\<not> runnable sha256 verify_message config authorization raw_body now input" for input
      using parsed False by (auto simp: runnable_def)
    ultimately show thesis using refused [of 400] by blast
  qed
qed

text \<open>What goes to the simulator.\<close>

lemma handle_trigger_sends:
  "ta_forwarded (handle_trigger sha256 verify_message config simulator authorization raw_body now) = Some sent \<longleftrightarrow>
     (\<exists>input. runnable sha256 verify_message config authorization raw_body now input \<and>
        sent = stringify (JObj [(js ''input'', input)]))"
proof -
  have unique: "input = input'" if "runnable sha256 verify_message config authorization raw_body now input"
      "runnable sha256 verify_message config authorization raw_body now input'" for input input'
    using that by (auto simp: runnable_def executable_input_def)
  show ?thesis
  proof (cases rule: handle_trigger_cases [of sha256 verify_message config authorization raw_body now simulator])
    case (forwarded input rpc_id)
    then show ?thesis using unique by (auto simp: forward_trigger_sent)
  next
    case (refused c b)
    then show ?thesis by auto
  qed
qed

text \<open>The reader's state is the sum of what it was given, until it refuses.\<close>

definition reader_ok :: "nat \<Rightarrow> body_reader \<Rightarrow> bool" where
  "reader_ok max_bytes r \<longleftrightarrow> length (concat (rb_chunks r)) \<le> max_bytes \<and>
     (\<not> rb_rejected r \<longrightarrow> rb_size r = length (concat (rb_chunks r))) \<and>
     rb_too_large r = (if rb_rejected r then 1 else 0) \<and> (rb_rejected r \<longrightarrow> rb_resolved r \<noteq> None)"

lemma body_step_ok: "reader_ok m r \<Longrightarrow> reader_ok m (body_step m e r)"
  by (cases e) (auto simp: reader_ok_def resolve_body_def Let_def)

lemma read_request_body_ok: "reader_ok m (read_request_body m es)"
proof -
  have "reader_ok m r \<Longrightarrow> reader_ok m (fold (body_step m) es r)" for r
    by (induction es arbitrary: r) (auto simp: body_step_ok)
  then show ?thesis by (simp add: read_request_body_def reader_ok_def fresh_reader_def)
qed

lemma rejected_stays: "rb_rejected r \<Longrightarrow> fold (body_step m) es r = r"
proof (induction es)
  case (Cons e es)
  then show ?case by (cases e) auto
qed simp

lemma fold_data:
  "\<not> rb_rejected r \<Longrightarrow> rb_resolved r = None \<Longrightarrow> rb_size r \<le> m \<Longrightarrow> rb_size r = length (concat (rb_chunks r)) \<Longrightarrow>
     (let r' = fold (body_step m) (map Data cs) r in
      if rb_size r + length (concat cs) \<le> m
      then rb_chunks r' = rb_chunks r @ cs \<and> \<not> rb_rejected r' \<and> rb_resolved r' = None
      else rb_rejected r' \<and> rb_resolved r' = Some None)"
proof (induction cs arbitrary: r)
  case (Cons c cs)
  show ?case
  proof (cases "rb_size r + length c \<le> m")
    case True
    let ?r = "r\<lparr>rb_size := rb_size r + length c, rb_chunks := rb_chunks r @ [c]\<rparr>"
    have "body_step m (Data c) r = ?r" using Cons.prems True by (simp add: Let_def)
    then show ?thesis using Cons.IH [of ?r] Cons.prems True by (simp add: Let_def add.assoc)
  next
    case False
    then show ?thesis using Cons.prems by (simp add: Let_def rejected_stays resolve_body_def)
  qed
qed simp

section \<open>Properties\<close>

text \<open>
  The runner starts a run exactly for requests that are JSON-RPC calls of \<open>workflows.execute\<close>
  with an accepted token over their very bytes, an object as input and the configured
  workflow; what it sends is that input. Everything else is refused with a 4xx and nothing is
  sent. It answers 200 exactly when it sent the input and the simulator did not refuse it.
\<close>

theorem runner_forwards_only_verified_input:
  "(ta_forwarded (handle_trigger sha256 verify_message config simulator authorization raw_body now) = Some sent \<longleftrightarrow>
      (\<exists>input. runnable sha256 verify_message config authorization raw_body now input \<and>
         sent = stringify (JObj [(js ''input'', input)]))) \<and>
   (ta_status (handle_trigger sha256 verify_message config simulator authorization raw_body now) = 200 \<longleftrightarrow>
      (\<exists>input. runnable sha256 verify_message config authorization raw_body now input) \<and> simulator \<in> {Sim_Ok, Sim_Timeout})"
proof (cases rule: handle_trigger_cases [of sha256 verify_message config authorization raw_body now simulator])
  case (forwarded input rpc_id)
  then show ?thesis unfolding handle_trigger_sends by (auto simp: forward_trigger_sent)
next
  case (refused c b)
  then show ?thesis unfolding handle_trigger_sends by auto
qed

definition reply_of :: "trigger_answer \<Rightarrow> gateway_reply" where
  "reply_of a = (if 200 \<le> ta_status a \<and> ta_status a \<le> 299 then Replied (ta_body a)
     else Http_Error (Fin (of_nat (ta_status a))))"

text \<open>
  The proxy and the runner agree on what a trigger's answer means: the proxy reads the runner's
  answer as a started run exactly when the runner answered 200, and keeps the caller waiting
  for the callback only then.
\<close>

theorem proxy_reads_runner_answer:
  "trigger_failure (reply_of (handle_trigger sha256 verify_message config simulator authorization raw_body now)) = None \<longleftrightarrow>
   ta_status (handle_trigger sha256 verify_message config simulator authorization raw_body now) = 200"
proof -
  have accepted: "trigger_failure (Replied (rpc_accepted i e)) = None" for i e
    by (simp add: trigger_failure_def rpc_accepted_def json_member_def member_def truthy_def js_def Let_def)
  show ?thesis
  proof (cases rule: handle_trigger_cases [of sha256 verify_message config authorization raw_body now simulator])
    case (forwarded input rpc_id)
    then show ?thesis
      by (cases simulator) (simp_all add: forward_trigger_def Let_def reply_of_def accepted, simp_all add: trigger_failure_def)
  next
    case (refused c b)
    then show ?thesis by (auto simp: reply_of_def refuse_trigger_def trigger_failure_def)
  qed
qed

text \<open>
  The body reader holds at most \<open>maxBytes\<close> bytes whatever an unauthenticated client sends, and
  sends at most one 413; a body within the limit is returned whole, a longer one is \<open>null\<close>.
\<close>

theorem body_reader_is_bounded:
  "length (concat (rb_chunks (read_request_body m events))) \<le> m \<and>
   rb_too_large (read_request_body m events) \<le> 1 \<and>
   rb_resolved (read_request_body m (map Data chunks @ [End])) =
     Some (if length (concat chunks) \<le> m then Some (utf8_decode (concat chunks)) else None)"
proof -
  have "reader_ok m (read_request_body m events)" by (rule read_request_body_ok)
  moreover have "rb_resolved (read_request_body m (map Data chunks @ [End])) =
     Some (if length (concat chunks) \<le> m then Some (utf8_decode (concat chunks)) else None)"
    using fold_data [of fresh_reader m chunks]
    by (auto simp: read_request_body_def fresh_reader_def Let_def resolve_body_def split: if_splits)
  ultimately show ?thesis by (simp add: reader_ok_def)
qed

end
