(* ===== verification/Payment.thy ===== *)
theory Payment imports Discovery Json_Wire Verification begin

text \<open>
  \<open>packages/sdk/payment.js\<close>: who paid, and how much, read out of a payment header. viem's
  \<open>getAddress\<close>, \<open>hashTypedData\<close>, \<open>recoverAddress\<close> and ABI codec, and the chain reader, are parameters;
  \<open>Inl\<close> is what they throw.
\<close>

section \<open>The envelope\<close>

record payment_envelope =
  pe_version :: "json option"
  pe_scheme :: jstring
  pe_network :: jstring
  pe_payload :: json
  pe_accepted :: "json option"

text \<open>\<open>a ?? b\<close>, and \<open>v?.k\<close> on a value that may be absent.\<close>

definition or_nullish :: "json option \<Rightarrow> json option \<Rightarrow> json option" where
  "or_nullish a b = (if a = None \<or> a = Some JNull then b else a)"

definition member_of :: "json option \<Rightarrow> string \<Rightarrow> json option" where
  "member_of v k = Option.bind v (\<lambda>w. json_member w k)"

definition decode_payment_envelope :: "jstring \<Rightarrow> payment_envelope result" where
  "decode_payment_envelope header =
     (if header = [] then Inl (js ''decodePayment: header must be a non-empty string'')
      else case json_parse (utf8_decode (base64_decode header)) of
        Inl _ \<Rightarrow> Inl (js ''decodePayment: header is not base64-encoded JSON'')
      | Inr v \<Rightarrow>
          if \<not> is_object (Some v) then Inl (js ''decodePayment: header did not decode to an object'')
          else
            (let accepted = json_member v ''accepted'';
                 scheme = or_nullish (json_member v ''scheme'') (member_of accepted ''scheme'');
                 network = or_nullish (json_member v ''network'') (member_of accepted ''network'');
                 payload = json_member v ''payload'' in
             case (scheme, network) of
               (Some (JStr s), Some (JStr n)) \<Rightarrow>
                 if \<not> is_object payload then Inl (js ''decodePayment: envelope is missing payload'')
                 else Inr \<lparr>pe_version = json_member v ''x402Version'', pe_scheme = s, pe_network = n,
                   pe_payload = the payload, pe_accepted = accepted\<rparr>
             | _ \<Rightarrow> Inl (js ''decodePayment: envelope is missing scheme or network'')))"

text \<open>\<open>/^eip155:(\\d+)$/\<close>\<close>

definition chain_id_of :: "jstring \<Rightarrow> jsnum result" where
  "chain_id_of network =
     (let rest = drop 7 network in
      if starts_with network (js ''eip155:'') \<and> rest \<noteq> [] \<and> list_all is_digit rest then Inr (number_of_string rest)
      else Inl (js ''decodePayment: unsupported network \"'' @ network @ js ''\" (expected CAIP-2 eip155:<chainId>)''))"

section \<open>The option of the challenge\<close>

text \<open>\<open>===\<close> on values of two different JSON texts: no two objects are the same.\<close>

definition strict_equal :: "json option \<Rightarrow> json option \<Rightarrow> bool" where
  "strict_equal a b \<longleftrightarrow> a = b \<and> \<not> is_object a"

definition on_offer :: "payment_envelope \<Rightarrow> json \<Rightarrow> bool" where
  "on_offer e entry \<longleftrightarrow> json_member entry ''scheme'' = Some (JStr (pe_scheme e)) \<and>
     json_member entry ''network'' = Some (JStr (pe_network e))"

definition matching_option :: "payment_envelope \<Rightarrow> json list \<Rightarrow> json result" where
  "matching_option e accepts =
     (let candidates = filter (on_offer e) accepts in
      case candidates of
        [] \<Rightarrow> Inl (js ''decodePayment: the challenge offers no '' @ pe_scheme e @ js '' option on '' @ pe_network e @
                js '', so there is nothing to verify this payment against'')
      | [entry] \<Rightarrow> Inr entry
      | _ \<Rightarrow>
          (let wanted = member_of (member_of (pe_accepted e) ''extra'') ''name'' in
           case find (\<lambda>entry. strict_equal (member_of (json_member entry ''extra'') ''name'') wanted) candidates of
             Some entry \<Rightarrow> Inr entry
           | None \<Rightarrow> Inl (js ''decodePayment: the challenge offers '' @ dec (length candidates) @ js '' ambiguous '' @
               pe_scheme e @ js '' options on '' @ pe_network e @ js '', and the payment names none of them'')))"

section \<open>The signature\<close>

record eip712_domain =
  dm_name :: jstring
  dm_version :: jstring
  dm_chain_id :: jsnum
  dm_verifying_contract :: jstring

record transfer_authorization =
  tx_from :: jstring
  tx_to :: jstring
  tx_value :: int
  tx_valid_after :: int
  tx_valid_before :: int
  tx_nonce :: "json option"

record decoded_payment =
  dp_payer :: jstring
  dp_amount :: int

record viem =
  get_address :: "json option \<Rightarrow> jstring result"
  hash_typed_data :: "eip712_domain \<Rightarrow> transfer_authorization \<Rightarrow> jstring result"
  recover_address :: "jstring \<Rightarrow> jstring \<Rightarrow> jstring result"
  encode_is_valid_signature :: "jstring \<Rightarrow> jstring \<Rightarrow> jstring result"
  decode_is_valid_signature :: "jstring \<Rightarrow> jstring result"

type_synonym eth_call = "jsnum \<Rightarrow> jstring \<Rightarrow> jstring \<Rightarrow> jstring result"

definition ERC1271_MAGIC :: jstring where "ERC1271_MAGIC = js ''0x1626ba7e''"

definition AUTHORIZATION_FIELDS :: "string list" where
  "AUTHORIZATION_FIELDS = [''from'', ''to'', ''value'', ''validAfter'', ''validBefore'', ''nonce'']"

definition validated_by_account :: "viem \<Rightarrow> eth_call \<Rightarrow> jsnum \<Rightarrow> jstring \<Rightarrow> jstring \<Rightarrow> jstring \<Rightarrow> bool" where
  "validated_by_account lib eth_call chain_id account hash signature =
     (case bind_r (encode_is_valid_signature lib hash signature) (\<lambda>data.
           bind_r (eth_call chain_id account data) (decode_is_valid_signature lib)) of
        Inl _ \<Rightarrow> False
      | Inr magic \<Rightarrow> magic = ERC1271_MAGIC)"

definition assert_authorization :: "json \<Rightarrow> (jstring \<times> json) result" where
  "assert_authorization payload =
     (case (json_member payload ''signature'', json_member payload ''authorization'') of
        (Some (JStr signature), Some authorization) \<Rightarrow>
          if \<not> is_object (Some authorization) then Inl (js ''decodePayment: payload needs a signature and an authorization'')
          else seq_r (each_r (\<lambda>field. ensure_r (json_member authorization field \<noteq> None)
                 (js ''decodePayment: authorization is missing '' @ js field)) AUTHORIZATION_FIELDS)
               (Inr (signature, authorization))
      | _ \<Rightarrow> Inl (js ''decodePayment: payload needs a signature and an authorization''))"

definition challenge_domain :: "viem \<Rightarrow> jstring \<Rightarrow> json \<Rightarrow> eip712_domain result" where
  "challenge_domain lib network entry =
     (let extra = json_member entry ''extra'' in
      bind_r (chain_id_of network) (\<lambda>chain_id.
      bind_r (get_address lib (or_nullish (member_of extra ''verifyingContract'') (json_member entry ''asset''))) (\<lambda>contract.
      case (member_of extra ''name'', member_of extra ''version'') of
        (Some (JStr name), Some (JStr version)) \<Rightarrow>
          Inr \<lparr>dm_name = name, dm_version = version, dm_chain_id = chain_id, dm_verifying_contract = contract\<rparr>
      | _ \<Rightarrow> Inl (js ''decodePayment: the challenge option is missing extra.name or extra.version for the EIP-712 domain''))))"

definition authorization_message :: "viem \<Rightarrow> json \<Rightarrow> transfer_authorization result" where
  "authorization_message lib authorization =
     bind_r (get_address lib (json_member authorization ''from'')) (\<lambda>sender.
     bind_r (get_address lib (json_member authorization ''to'')) (\<lambda>recipient.
     bind_r (to_bigint (json_member authorization ''value'')) (\<lambda>v.
     bind_r (to_bigint (json_member authorization ''validAfter'')) (\<lambda>after.
     bind_r (to_bigint (json_member authorization ''validBefore'')) (\<lambda>before.
     Inr \<lparr>tx_from = sender, tx_to = recipient, tx_value = v, tx_valid_after = after, tx_valid_before = before,
       tx_nonce = json_member authorization ''nonce''\<rparr>)))))"

definition verify_exact :: "viem \<Rightarrow> eth_call option \<Rightarrow> payment_envelope \<Rightarrow> json \<Rightarrow> decoded_payment result" where
  "verify_exact lib eth_call e entry =
     bind_r (assert_authorization (pe_payload e)) (\<lambda>(signature, authorization).
     bind_r (challenge_domain lib (pe_network e) entry) (\<lambda>domain.
     bind_r (authorization_message lib authorization) (\<lambda>message.
     bind_r (hash_typed_data lib domain message) (\<lambda>hash.
     bind_r (recover_address lib hash signature) (\<lambda>recovered.
     bind_r (get_address lib (Some (JStr recovered))) (\<lambda>signer.
     if signer \<noteq> tx_from message \<and>
        \<not> (case eth_call of None \<Rightarrow> False
            | Some call \<Rightarrow> validated_by_account lib call (dm_chain_id domain) (tx_from message) hash signature) then
       Inl (js ''decodePayment: signature does not bind this payment to '' @ tx_from message @ js '' (recovered '' @ signer @
         js ''). Refusing: the payer named here is who a refund would be credited to.'' @
         (if eth_call = None then
            js '' If this payer is a smart-contract account, verifying it needs a reader for its chain (ERC-1271).''
          else []))
     else Inr \<lparr>dp_payer = tx_from message, dp_amount = tx_value message\<rparr>))))))"

text \<open>\<open>${option.extra?.name ?? 'unknown'}\<close>\<close>

definition decode_payment ::
  "viem \<Rightarrow> eth_call option \<Rightarrow> jstring \<Rightarrow> json list option \<Rightarrow> decoded_payment result" where
  "decode_payment lib eth_call header accepts =
     bind_r (decode_payment_envelope header) (\<lambda>e.
     bind_r (case accepts of None \<Rightarrow> Inr None | Some entries \<Rightarrow> bind_r (matching_option e entries) (\<lambda>entry. Inr (Some entry))) (\<lambda>entry.
     case entry of
       Some option \<Rightarrow>
         if pe_scheme e = js ''exact'' then verify_exact lib eth_call e option
         else Inl (js ''decodePayment: cannot verify a \"'' @ pe_scheme e @ js ''\" payment using \"'' @
           string_of_value (or_nullish (member_of (json_member option ''extra'') ''name'') (Some (js_str ''unknown''))) @
           js ''\" (Spike C, Tasks.md 0.4). Refusing rather than trusting an unverified payer: this value decides who a refund is credited to.'')
     | None \<Rightarrow> Inl (js ''decodePayment: cannot verify a \"'' @ pe_scheme e @
         js ''\" payment using \"unknown (no accepts supplied)\" (Spike C, Tasks.md 0.4). Refusing rather than trusting an unverified payer: this value decides who a refund is credited to.'')))"

section \<open>Properties\<close>

lemma matching_option_offered:
  "matching_option e accepts = Inr entry \<Longrightarrow> entry \<in> set accepts \<and> on_offer e entry"
proof -
  assume m: "matching_option e accepts = Inr entry"
  define wanted where "wanted = member_of (member_of (pe_accepted e) ''extra'') ''name''"
  define cs where "cs = filter (on_offer e) accepts"
  consider "cs = []" | "cs = [entry]" | x y zs where "cs = x # y # zs" | x where "cs = [x]" "x \<noteq> entry"
    by (metis list.exhaust)
  then have "entry \<in> set cs"
  proof cases
    case (3 x y zs)
    then have "find (\<lambda>entry. strict_equal (member_of (json_member entry ''extra'') ''name'') wanted) cs = Some entry"
      using m by (simp add: matching_option_def Let_def cs_def [symmetric] wanted_def [symmetric] del: find.simps split: option.splits)
    then show ?thesis by (auto dest: find_SomeD)
  qed (use m in \<open>simp_all add: matching_option_def Let_def cs_def [symmetric]\<close>)
  then have "entry \<in> set (filter (on_offer e) accepts)" by (simp add: cs_def)
  then show ?thesis by simp
qed

text \<open>
  A payment is signed by its payer when the signature, over the message the header carries and a
  domain taken from the challenge alone, recovers to the payer, or the payer is an account
  that answers for it on the payment's chain.
\<close>

definition signed_by_payer ::
  "viem \<Rightarrow> eth_call option \<Rightarrow> payment_envelope \<Rightarrow> json \<Rightarrow> transfer_authorization \<Rightarrow> bool" where
  "signed_by_payer lib eth_call e entry message \<longleftrightarrow>
     (\<exists>signature authorization domain hash recovered.
        json_member (pe_payload e) ''signature'' = Some (JStr signature) \<and>
        json_member (pe_payload e) ''authorization'' = Some authorization \<and>
        authorization_message lib authorization = Inr message \<and>
        challenge_domain lib (pe_network e) entry = Inr domain \<and>
        hash_typed_data lib domain message = Inr hash \<and> recover_address lib hash signature = Inr recovered \<and>
        (get_address lib (Some (JStr recovered)) = Inr (tx_from message) \<or>
         is_ok (get_address lib (Some (JStr recovered))) \<and>
         (case eth_call of None \<Rightarrow> False
          | Some call \<Rightarrow> validated_by_account lib call (dm_chain_id domain) (tx_from message) hash signature)))"

lemma verify_exact_signed:
  "verify_exact lib eth_call e entry = Inr p \<Longrightarrow>
     \<exists>message. signed_by_payer lib eth_call e entry message \<and> p = \<lparr>dp_payer = tx_from message, dp_amount = tx_value message\<rparr>"
proof -
  assume v: "verify_exact lib eth_call e entry = Inr p"
  then obtain signature authorization where a: "assert_authorization (pe_payload e) = Inr (signature, authorization)"
    by (auto simp: verify_exact_def bind_r_Inr_iff)
  obtain domain where d: "challenge_domain lib (pe_network e) entry = Inr domain"
    using v a by (auto simp: verify_exact_def bind_r_Inr_iff)
  obtain message where m: "authorization_message lib authorization = Inr message"
    using v a d by (auto simp: verify_exact_def bind_r_Inr_iff)
  obtain hash where h: "hash_typed_data lib domain message = Inr hash"
    using v a d m by (auto simp: verify_exact_def bind_r_Inr_iff)
  obtain recovered where r: "recover_address lib hash signature = Inr recovered"
    using v a d m h by (auto simp: verify_exact_def bind_r_Inr_iff)
  obtain signer where s: "get_address lib (Some (JStr recovered)) = Inr signer"
    using v a d m h r by (auto simp: verify_exact_def bind_r_Inr_iff)
  have fields: "json_member (pe_payload e) ''signature'' = Some (JStr signature)"
      "json_member (pe_payload e) ''authorization'' = Some authorization"
    using a by (auto simp: assert_authorization_def seq_r_Inr_iff split: option.splits json.splits if_splits)
  have "signer = tx_from message \<or>
      (case eth_call of None \<Rightarrow> False
       | Some call \<Rightarrow> validated_by_account lib call (dm_chain_id domain) (tx_from message) hash signature)"
    "p = \<lparr>dp_payer = tx_from message, dp_amount = tx_value message\<rparr>"
    using v a d m h r s by (auto simp: verify_exact_def split: if_splits)
  then show ?thesis
    using fields d m h r s unfolding signed_by_payer_def by (auto simp: is_ok_iff)
qed

text \<open>
  C17: The payer and the amount are never taken on trust: a payment that decodes answers an \<open>exact\<close>
  option the challenge itself offers on the payment's network, and both are fields of the
  message its payer signed for the domain of that option.
\<close>

theorem decoded_payer_signed:
  assumes "decode_payment lib eth_call header accepts = Inr p"
  shows "\<exists>e entries entry message. decode_payment_envelope header = Inr e \<and> accepts = Some entries \<and> entry \<in> set entries \<and>
     on_offer e entry \<and> pe_scheme e = js ''exact'' \<and> signed_by_payer lib eth_call e entry message \<and>
     p = \<lparr>dp_payer = tx_from message, dp_amount = tx_value message\<rparr>"
proof -
  obtain e where e: "decode_payment_envelope header = Inr e"
    using assms by (auto simp: decode_payment_def bind_r_Inr_iff)
  then obtain entries where entries: "accepts = Some entries"
    using assms by (cases accepts) (auto simp: decode_payment_def)
  then obtain entry where entry: "matching_option e entries = Inr entry"
    using assms e by (auto simp: decode_payment_def bind_r_Inr_iff)
  have exact: "pe_scheme e = js ''exact''"
    using assms e entries entry by (cases "pe_scheme e = js ''exact''") (simp_all add: decode_payment_def)
  have "verify_exact lib eth_call e entry = Inr p"
    using assms e entries entry exact by (simp add: decode_payment_def)
  from verify_exact_signed [OF this] obtain message where m: "signed_by_payer lib eth_call e entry message"
    "p = \<lparr>dp_payer = tx_from message, dp_amount = tx_value message\<rparr>" by blast
  show ?thesis
    by (rule exI [of _ e], rule exI [of _ entries], rule exI [of _ entry], rule exI [of _ message])
      (use e entries exact m matching_option_offered [OF entry] in simp)
qed

text \<open>A library whose addresses are lower-cased text and whose signatures are the signer's address.\<close>

definition example_viem :: viem where
  "example_viem = \<lparr>get_address = (\<lambda>v. case v of Some (JStr s) \<Rightarrow> Inr (lower s) | _ \<Rightarrow> Inl (js ''address'')),
     hash_typed_data = (\<lambda>d m. Inr (dm_verifying_contract d @ tx_to m)), recover_address = (\<lambda>h s. Inr s),
     encode_is_valid_signature = (\<lambda>h s. Inr (h @ s)), decode_is_valid_signature = Inr\<rparr>"

definition example_payment :: json where
  "example_payment = JObj [(js ''x402Version'', JNum (Fin 2)), (js ''payload'', JObj [(js ''signature'', js_str ''0xA''),
     (js ''authorization'', JObj [(js ''from'', js_str ''0xa''), (js ''to'', js_str ''0xb''), (js ''value'', js_str ''1000''),
       (js ''validAfter'', JNum (Fin 0)), (js ''validBefore'', JNum (Fin 9)), (js ''nonce'', js_str ''0x1'')])]),
     (js ''accepted'', JObj [(js ''scheme'', js_str ''exact''), (js ''network'', js_str ''eip155:8453'')])]"

definition example_accepts :: "json list" where
  "example_accepts = [JObj [(js ''scheme'', js_str ''exact''), (js ''network'', js_str ''eip155:8453''), (js ''asset'', js_str ''0xUSDC''),
     (js ''extra'', JObj [(js ''name'', js_str ''USDC''), (js ''version'', js_str ''2'')])]]"

definition example_header :: jstring where
  "example_header = base64url_encode (utf8 (stringify example_payment))"

definition example_envelope :: payment_envelope where
  "example_envelope = \<lparr>pe_version = Some (JNum (Fin 2)), pe_scheme = js ''exact'', pe_network = js ''eip155:8453'',
     pe_payload = the (json_member example_payment ''payload''), pe_accepted = json_member example_payment ''accepted''\<rparr>"

lemma example_wire: "json_parse (utf8_decode (base64_decode example_header)) = Inr example_payment"
proof -
  have n: "reads_back (Fin 2)" "reads_back (Fin 0)" "reads_back (Fin 9)" by code_simp+
  have k: "list_all (\<lambda>k. \<not> array_index (js k)) [''x402Version'', ''payload'', ''signature'', ''authorization'', ''from'', ''to'',
      ''value'', ''validAfter'', ''validBefore'', ''nonce'', ''accepted'', ''scheme'', ''network'']" by code_simp
  have "wire example_payment" using n k by (simp add: example_payment_def)
  then show ?thesis unfolding example_header_def by (rule wire_base64)
qed

lemma example_header_nonempty: "example_header \<noteq> []"
proof
  assume "example_header = []"
  moreover have "json_parse (utf8_decode (base64_decode [])) = Inl syntax_error" by code_simp
  ultimately show False using example_wire by simp
qed

lemma example_members:
  "is_object (Some example_payment)" "json_member example_payment ''scheme'' = None" "json_member example_payment ''network'' = None"
  "member_of (json_member example_payment ''accepted'') ''scheme'' = Some (js_str ''exact'')"
  "member_of (json_member example_payment ''accepted'') ''network'' = Some (js_str ''eip155:8453'')"
  "is_object (json_member example_payment ''payload'')" "json_member example_payment ''x402Version'' = Some (JNum (Fin 2))"
  by (simp_all add: example_payment_def json_member_def member_of_def is_object_def member_def)

lemma example_envelope_decodes: "decode_payment_envelope example_header = Inr example_envelope"
  unfolding decode_payment_envelope_def example_wire
  by (simp add: example_members example_header_nonempty or_nullish_def example_envelope_def)

lemma example_option: "matching_option example_envelope example_accepts = Inr (hd example_accepts)"
  by (simp add: matching_option_def example_accepts_def on_offer_def example_envelope_def json_member_def member_def)

lemma example_numbers:
  "to_bigint (Some (js_str ''1000'')) = Inr 1000" "to_bigint (Some (JNum (Fin 0))) = Inr 0" "to_bigint (Some (JNum (Fin 9))) = Inr 9"
  "chain_id_of (js ''eip155:8453'') = Inr (Fin 8453)"
  "lower (js ''0xa'') = js ''0xa''" "lower (js ''0xb'') = js ''0xb''" "lower (js ''0xA'') = js ''0xa''" "lower (js ''0xUSDC'') = js ''0xusdc''"
  by code_simp+

definition example_authorization :: json where
  "example_authorization = JObj [(js ''from'', js_str ''0xa''), (js ''to'', js_str ''0xb''), (js ''value'', js_str ''1000''),
     (js ''validAfter'', JNum (Fin 0)), (js ''validBefore'', JNum (Fin 9)), (js ''nonce'', js_str ''0x1'')]"

lemma example_signature: "assert_authorization (pe_payload example_envelope) = Inr (js ''0xA'', example_authorization)"
  by (simp add: assert_authorization_def example_envelope_def example_payment_def example_authorization_def json_member_def member_def is_object_def
      AUTHORIZATION_FIELDS_def ensure_r_def)

lemma example_message:
  "authorization_message example_viem example_authorization = Inr \<lparr>tx_from = js ''0xa'', tx_to = js ''0xb'', tx_value = 1000,
     tx_valid_after = 0, tx_valid_before = 9, tx_nonce = Some (js_str ''0x1'')\<rparr>"
  by (simp add: authorization_message_def example_authorization_def json_member_def member_def example_viem_def example_numbers)

lemma example_domain:
  "challenge_domain example_viem (js ''eip155:8453'') (hd example_accepts) = Inr \<lparr>dm_name = js ''USDC'', dm_version = js ''2'',
     dm_chain_id = Fin 8453, dm_verifying_contract = js ''0xusdc''\<rparr>"
  by (simp add: challenge_domain_def example_accepts_def json_member_def member_def member_of_def or_nullish_def example_viem_def example_numbers)

lemma example_payment_decoded:
  "decode_payment example_viem ec example_header (Some example_accepts) = Inr \<lparr>dp_payer = js ''0xa'', dp_amount = 1000\<rparr>"
proof -
  have "verify_exact example_viem ec example_envelope (hd example_accepts) = Inr \<lparr>dp_payer = js ''0xa'', dp_amount = 1000\<rparr>"
    unfolding verify_exact_def example_signature bind_r_simps prod.case
    by (simp add: example_envelope_def example_domain example_message) (simp add: example_viem_def example_numbers)
  then show ?thesis
    by (simp add: decode_payment_def example_envelope_decodes example_option) (simp add: example_envelope_def)
qed

theorem decoded_payer_signed_witness:
  "decode_payment example_viem None example_header (Some example_accepts) = Inr \<lparr>dp_payer = js ''0xa'', dp_amount = 1000\<rparr> \<and>
   (\<exists>e entry message. signed_by_payer example_viem None e entry message \<and> tx_from message = js ''0xa'')"
  using example_payment_decoded decoded_payer_signed [OF example_payment_decoded] by fastforce

end
