(* ===== verification/Proxy_Config.thy ===== *)
theory Proxy_Config imports Proxy_Http Log_Scan begin

text \<open>
  \<open>proxy/src/config.js\<close>: what the proxy is told by its environment. An empty or blank variable is an
  absent one; a trigger is configured by all four of its variables or not at all.
\<close>

section \<open>The configuration\<close>

record workflow_settings =
  wf_trigger_url :: jstring
  wf_workflow_id :: jstring
  wf_private_key :: jstring
  wf_callback_url :: jstring
  wf_timeout_ms :: jsnum

record genlayer_settings =
  gl_chain_id :: jsnum
  gl_judge_address :: jstring

record proxy_config =
  cf_public_host :: jstring
  cf_ens_cache_ttl_ms :: jsnum
  cf_upstream_timeout_ms :: jsnum
  cf_allow_private_upstream :: bool
  cf_callback_token :: "jstring option"
  cf_workflow :: "workflow_settings option"
  cf_evidence_filing_window_ms :: jsnum
  cf_evidence_adjudication_window_ms :: jsnum
  cf_payment_rpc_urls :: "(nat \<times> jstring) list"
  cf_genlayer :: "genlayer_settings option"
  cf_arc_rpc_url :: "jstring option"
  cf_arc_address :: "jstring option"
  cf_arc_deploy_block :: "int option"

definition PAYMENT_CHAIN_IDS :: "(jstring \<times> nat) list" where
  "PAYMENT_CHAIN_IDS = [(js ''ETHEREUM'', 1), (js ''BNB'', 56), (js ''GNOSIS'', 100), (js ''POLYGON'', 137), (js ''XLAYER'', 196),
     (js ''TEMPO'', 4217), (js ''BASE'', 8453), (js ''ARBITRUM'', 42161), (js ''LINEA'', 59144), (js ''BASE_SEPOLIA'', 84532)]"

text \<open>The judge's record in \<open>deployments/genlayer-studio-devnet.json\<close>.\<close>

definition deployed_chain_id :: jsnum where "deployed_chain_id = Fin 61997"

definition deployed_judge :: jstring where "deployed_judge = js ''0xC9A5c162696C7305c10EBE44791b602d139ea471''"

section \<open>loadConfig\<close>

type_synonym environment = "jstring \<Rightarrow> jstring option"

definition config_env :: "environment \<Rightarrow> jstring \<Rightarrow> jstring option" where
  "config_env source name = (case source name of
     Some value \<Rightarrow> if trim value \<noteq> [] then Some (trim value) else None
   | None \<Rightarrow> None)"

definition env_number :: "environment \<Rightarrow> string \<Rightarrow> int \<Rightarrow> jsnum" where
  \<comment> \<open>\<open>Number(env(name) ?? d)\<close>\<close>
  "env_number source name d = (case config_env source (js name) of Some t \<Rightarrow> number_of_string t | None \<Rightarrow> jsint d)"

definition workflow_config :: "environment \<Rightarrow> workflow_settings option" where
  "workflow_config source =
     (case (config_env source (js ''CRE_TRIGGER_URL''), config_env source (js ''CRE_WORKFLOW_ID''),
            config_env source (js ''CRE_TRIGGER_PRIVATE_KEY''), config_env source (js ''CRE_CALLBACK_URL'')) of
        (Some trigger_url, Some workflow_id, Some private_key, Some callback_url) \<Rightarrow>
          Some \<lparr>wf_trigger_url = trigger_url, wf_workflow_id = workflow_id, wf_private_key = private_key,
            wf_callback_url = callback_url, wf_timeout_ms = env_number source ''PROXY_VERIFY_TIMEOUT_MS'' 45000\<rparr>
      | _ \<Rightarrow> None)"

fun rpc_urls :: "environment \<Rightarrow> (jstring \<times> nat) list \<Rightarrow> (nat \<times> jstring) list" where
  "rpc_urls source [] = []"
| "rpc_urls source ((name, chain_id) # rest) =
     (case config_env source (js ''PAYMENT_'' @ name @ js ''_RPC_URL'') of
        Some url \<Rightarrow> (chain_id, url) # rpc_urls source rest
      | None \<Rightarrow> rpc_urls source rest)"

definition is_safe_integer :: "jsnum \<Rightarrow> bool" where
  "is_safe_integer n = (case n of Fin q \<Rightarrow> is_whole q \<and> \<bar>q\<bar> \<le> 2 ^ 53 - 1 | _ \<Rightarrow> False)"

text \<open>\<open>/^0x[0-9a-fA-F]{n}$/\<close>\<close>

definition hex_word :: "nat \<Rightarrow> jstring \<Rightarrow> bool" where
  "hex_word n s \<longleftrightarrow> starts_with s (js ''0x'') \<and> length s = n + 2 \<and> list_all is_hex (drop 2 s)"

definition genlayer_config :: "environment \<Rightarrow> genlayer_settings option" where
  "genlayer_config source =
     (let chain_id = (case config_env source (js ''GENLAYER_JUDGE_CHAIN_ID'') of
            Some t \<Rightarrow> number_of_string t | None \<Rightarrow> deployed_chain_id);
          judge = (case config_env source (js ''GENLAYER_JUDGE_ADDRESS'') of Some t \<Rightarrow> t | None \<Rightarrow> deployed_judge) in
      if \<not> is_safe_integer chain_id \<or> num_less chain_id (Fin 0) \<or> chain_id = Fin 0 then None
      else if \<not> hex_word 40 judge then None
      else Some \<lparr>gl_chain_id = chain_id, gl_judge_address = judge\<rparr>)"

definition deploy_block :: "environment \<Rightarrow> int option result" where
  "deploy_block source = (case config_env source (js ''VERDIKT_REGISTRY_DEPLOY_BLOCK'') of
     None \<Rightarrow> Inr None
   | Some t \<Rightarrow>
       (case bigint_of_string t of
          Some n \<Rightarrow> Inr (Some n)
        | None \<Rightarrow> Inl (js ''Cannot convert '' @ t @ js '' to a BigInt'')))"

definition load_config :: "environment \<Rightarrow> proxy_config result" where
  "load_config source =
     bind_r (deploy_block source) (\<lambda>block.
     Inr \<lparr>cf_public_host = (case config_env source (js ''PROXY_PUBLIC_HOST'') of Some h \<Rightarrow> h | None \<Rightarrow> js ''verdikt.bond''),
       cf_ens_cache_ttl_ms = env_number source ''PROXY_ENS_CACHE_TTL_MS'' 30000,
       cf_upstream_timeout_ms = env_number source ''PROXY_UPSTREAM_TIMEOUT_MS'' 30000,
       cf_allow_private_upstream = (config_env source (js ''PROXY_ALLOW_PRIVATE_UPSTREAM'') = Some (js ''true'')),
       cf_callback_token = config_env source (js ''CRE_CALLBACK_TOKEN''),
       cf_workflow = workflow_config source,
       cf_evidence_filing_window_ms = env_number source ''PROXY_EVIDENCE_FILING_WINDOW_MS'' 86400000,
       cf_evidence_adjudication_window_ms = env_number source ''PROXY_EVIDENCE_ADJUDICATION_WINDOW_MS'' 86400000,
       cf_payment_rpc_urls = rpc_urls source PAYMENT_CHAIN_IDS,
       cf_genlayer = genlayer_config source,
       cf_arc_rpc_url = config_env source (js ''ARC_RPC_URL''),
       cf_arc_address = config_env source (js ''VERDIKT_REGISTRY_ADDRESS''),
       cf_arc_deploy_block = block\<rparr>)"

section \<open>Lemmas\<close>

lemma config_env_iff: "config_env source name = Some t \<longleftrightarrow> (\<exists>v. source name = Some v \<and> t = trim v \<and> t \<noteq> [])"
  by (auto simp: config_env_def split: option.splits)

lemma workflow_config_all_or_nothing:
  "workflow_config source \<noteq> None \<longleftrightarrow>
     list_all (\<lambda>n. config_env source (js n) \<noteq> None) [''CRE_TRIGGER_URL'', ''CRE_WORKFLOW_ID'', ''CRE_TRIGGER_PRIVATE_KEY'', ''CRE_CALLBACK_URL'']"
  by (auto simp: workflow_config_def split: option.splits)

lemma genlayer_config_reachable:
  "genlayer_config source = Some g \<Longrightarrow> \<exists>q. gl_chain_id g = Fin q \<and> is_whole q \<and> 0 < q \<and> hex_word 40 (gl_judge_address g)"
  by (auto simp: genlayer_config_def Let_def is_safe_integer_def split: if_splits jsnum.splits)

lemma rpc_urls_known:
  "(c, u) \<in> set (rpc_urls source ns) \<Longrightarrow> \<exists>n. (n, c) \<in> set ns \<and> config_env source (js ''PAYMENT_'' @ n @ js ''_RPC_URL'') = Some u"
  by (induction source ns rule: rpc_urls.induct) (auto split: option.splits)


end
