(* ===== verification/Router_Http.thy ===== *)
theory Router_Http imports Payment Proxy_Config Evidence begin

text \<open>
  The HTTP side of \<open>proxy/src/router.js\<close>, and \<open>challenge.js\<close>: building a response (the platform's
  constructor refuses some statuses and header values), the headers that tell an agent what broke,
  reading a 402 challenge, the ownership check and the reader for a payment's chain.
\<close>

section \<open>new Response\<close>

text \<open>What a body is before it is written out.\<close>

datatype content =
    Json_Text json
  | Discovery_Text discovery
  | Listing_Text catalog_entry
  | Envelope_Text envelope
  | Byte_Text "8 word list"
  | Plain_Text jstring

type_synonym headers = "(jstring \<times> jstring) list"

record response =
  rp_status :: nat
  rp_headers :: headers
  rp_content :: content

definition type_error :: jstring where "type_error = js ''TypeError''"

text \<open>A status is an \<open>unsigned short\<close>: truncated and reduced modulo 2 to the 16.\<close>

definition to_status :: "jsnum \<Rightarrow> nat" where
  "to_status n = (case n of Fin q \<Rightarrow> nat ((if 0 \<le> q then \<lfloor>q\<rfloor> else \<lceil>q\<rceil>) mod 65536) | _ \<Rightarrow> 0)"

definition null_body_status :: "nat \<Rightarrow> bool" where
  "null_body_status s \<longleftrightarrow> s \<in> {101, 103, 204, 205, 304}"

definition http_space :: "code_unit \<Rightarrow> bool" where
  "http_space c \<longleftrightarrow> c = 9 \<or> c = 10 \<or> c = 13 \<or> c = 32"

definition header_value_ok :: "jstring \<Rightarrow> bool" where
  "header_value_ok v \<longleftrightarrow> list_all (\<lambda>c. c < 256) v \<and>
     list_all (\<lambda>c. c \<noteq> 0 \<and> c \<noteq> 10 \<and> c \<noteq> 13) (rev (dropWhile http_space (rev (dropWhile http_space v))))"

definition token_unit :: "code_unit \<Rightarrow> bool" where
  "token_unit c \<longleftrightarrow> is_digit c \<or> 65 \<le> c \<and> c \<le> 90 \<or> 97 \<le> c \<and> c \<le> 122 \<or>
     c \<in> {33, 35, 36, 37, 38, 39, 42, 43, 45, 46, 94, 95, 96, 124, 126}"

definition header_ok :: "jstring \<times> jstring \<Rightarrow> bool" where
  "header_ok h \<longleftrightarrow> fst h \<noteq> [] \<and> list_all token_unit (fst h) \<and> header_value_ok (snd h)"

definition new_response :: "content \<Rightarrow> nat \<Rightarrow> headers \<Rightarrow> response result" where
  "new_response content status headers =
     (if \<not> (200 \<le> status \<and> status \<le> 599) then Inl (js ''RangeError'')
      else if \<not> list_all header_ok headers then Inl type_error
      else if null_body_status status then Inl type_error
      else Inr \<lparr>rp_status = status, rp_headers = headers, rp_content = content\<rparr>)"

text \<open>\<open>{ ...a, ...b }\<close>\<close>

definition spread_headers :: "headers \<Rightarrow> headers \<Rightarrow> headers" where
  "spread_headers a b = foldl (\<lambda>acc (k, v). assoc_put k v acc) a b"

definition json_response :: "content \<Rightarrow> nat \<Rightarrow> headers \<Rightarrow> response result" where
  "json_response content status headers =
     new_response content status (spread_headers [(js ''content-type'', js ''application/json'')] headers)"

definition error_body :: "string \<Rightarrow> (string \<times> json) list \<Rightarrow> content" where
  "error_body e rest = Json_Text (JObj ((js ''error'', js_str e) # map (\<lambda>(k, v). (js k, v)) rest))"

section \<open>Headers\<close>

text \<open>\<open>replace(/[\\r\\n]+/g, ' ')\<close>; the flag is whether a line break has just been written.\<close>

fun flatten_breaks :: "bool \<Rightarrow> jstring \<Rightarrow> jstring" where
  "flatten_breaks b [] = []"
| "flatten_breaks b (c # r) =
     (if c = 10 \<or> c = 13 then (if b then flatten_breaks True r else 32 # flatten_breaks True r)
      else c # flatten_breaks False r)"

definition header_safe :: "jstring \<Rightarrow> jstring" where
  "header_safe value =
     (let flat = map (\<lambda>c. if 32 \<le> c \<and> c \<le> 126 then c else 63) (flatten_breaks False value) in
      if length flat > 180 then take 177 flat @ js ''...'' else flat)"

text \<open>\<open>v.k\<close> on a value that may be \<open>null\<close>, and a property handed to \<open>headerSafe\<close>.\<close>

definition property :: "json \<Rightarrow> string \<Rightarrow> json option result" where
  "property v k = (if v = JNull then Inl type_error else Inr (json_member v k))"

definition safe_property :: "json \<Rightarrow> string \<Rightarrow> jstring result" where
  "safe_property v k = bind_r (property v k) (\<lambda>p. case p of Some (JStr s) \<Rightarrow> Inr (header_safe s) | _ \<Rightarrow> Inl type_error)"

fun first_broken :: "json list \<Rightarrow> json option result" where
  "first_broken [] = Inr None"
| "first_broken (c # cs) = bind_r (property c ''pass'') (\<lambda>p. if truthy p then first_broken cs else Inr (Some c))"

definition failure_detail_headers :: "json \<Rightarrow> headers result" where
  "failure_detail_headers clauses = (case clauses of
     JArr cs \<Rightarrow>
       bind_r (first_broken cs) (\<lambda>broke.
       if \<not> truthy broke then Inr []
       else
         (let b = the broke in
          bind_r (safe_property b ''id'') (\<lambda>i.
          bind_r (safe_property b ''type'') (\<lambda>t.
          bind_r (safe_property b ''expected'') (\<lambda>e.
          bind_r (safe_property b ''actual'') (\<lambda>a.
          Inr [(js ''x-verdikt-failed-clause'', i), (js ''x-verdikt-failed-clause-type'', t),
               (js ''x-verdikt-expected'', e), (js ''x-verdikt-actual'', a)]))))))
   | _ \<Rightarrow> Inl type_error)"

section \<open>The challenge\<close>

text \<open>\<open>response.text()\<close> and \<open>response.json()\<close> drop a byte order mark.\<close>

definition decode_text :: "8 word list \<Rightarrow> jstring" where
  "decode_text bytes = utf8_decode (if take 3 bytes = [239, 187, 191] then drop 3 bytes else bytes)"

definition decode_challenge :: "jstring option \<Rightarrow> jstring \<Rightarrow> json" where
  "decode_challenge payment_required body =
     (let from_body = (case json_parse body of Inr v \<Rightarrow> v | Inl _ \<Rightarrow> JNull) in
      case payment_required of
        Some h \<Rightarrow>
          if h = [] then from_body
          else (case json_parse (utf8_decode (base64_decode h)) of Inr v \<Rightarrow> v | Inl _ \<Rightarrow> from_body)
      | None \<Rightarrow> from_body)"

definition accepts_of :: "json \<Rightarrow> json list" where
  "accepts_of challenge = (case json_member challenge ''accepts'' of Some (JArr vs) \<Rightarrow> vs | _ \<Rightarrow> [])"

definition OWNER_MISMATCH :: jstring where "OWNER_MISMATCH = js ''owner_mismatch''"

text \<open>\<open>Some\<close> is the refusal: its reason and its detail.\<close>

definition check_ownership :: "jstring option \<Rightarrow> jstring \<Rightarrow> (jstring \<times> jstring) option" where
  "check_ownership record_owner arc_provider = (case record_owner of
     None \<Rightarrow> None
   | Some owner \<Rightarrow>
       if owner = [] \<or> lower owner = lower arc_provider then None
       else Some (OWNER_MISMATCH,
         js ''the ENS subname is owned by '' @ owner @ js '', but Arc's registered provider is '' @ arc_provider @ [32, 8212] @
         js '' this slug's two claims disagree and cannot be safely routed''))"

section \<open>The chain of a payment\<close>

text \<open>
  One \<open>eth_call\<close>: \<open>rpc\<close> posts a body to a url and gives the status and the text, or throws. A result
  that is no text is one viem's decoder throws on.
\<close>

definition eth_call_body :: "jstring \<Rightarrow> jstring \<Rightarrow> json" where
  "eth_call_body to data = JObj [(js ''jsonrpc'', js_str ''2.0''), (js ''id'', JNum (Fin 1)), (js ''method'', js_str ''eth_call''),
     (js ''params'', JArr [JObj [(js ''to'', JStr to), (js ''data'', JStr data)], js_str ''latest''])]"

definition chain_reader :: "proxy_config \<Rightarrow> (jstring \<Rightarrow> jstring \<Rightarrow> (nat \<times> jstring) result) \<Rightarrow> eth_call" where
  "chain_reader config rpc = (\<lambda>chain_id to data.
     case find (\<lambda>p. dec (fst p) = num_str chain_id) (cf_payment_rpc_urls config) of
       None \<Rightarrow> Inl (js ''no RPC configured for chain '' @ num_str chain_id)
     | Some (c, rpc_url) \<Rightarrow>
         bind_r (rpc rpc_url (stringify (eth_call_body to data))) (\<lambda>(status, text).
         case json_parse text of
           Inl m \<Rightarrow> Inl (js ''answered '' @ dec status @ js '' with non-JSON: '' @ take 120 text)
         | Inr body \<Rightarrow>
             bind_r (property body ''error'') (\<lambda>e.
             if truthy e then Inl (value_text (or_nullish (json_member (the e) ''message'') (Some (js_str ''eth_call failed''))))
             else (case or_nullish (json_member body ''result'') (Some (js_str ''0x'')) of
                     Some (JStr s) \<Rightarrow> Inr s | _ \<Rightarrow> Inl type_error))))"

section \<open>Lemmas\<close>

lemma flatten_breaks_free: "list_all (\<lambda>c. c \<noteq> 10 \<and> c \<noteq> 13) (flatten_breaks b s)"
  by (induction b s rule: flatten_breaks.induct) auto

lemma header_safe_printable: "list_all (\<lambda>c. 32 \<le> c \<and> c \<le> 126) (header_safe s) \<and> length (header_safe s) \<le> 180"
proof -
  define flat where "flat = map (\<lambda>c. if 32 \<le> c \<and> c \<le> 126 then c else (63 :: code_unit)) (flatten_breaks False s)"
  have f: "list_all (\<lambda>c. 32 \<le> c \<and> c \<le> 126) flat" by (auto simp: flat_def list_all_iff)
  then have "list_all (\<lambda>c. 32 \<le> c \<and> c \<le> 126) (take 177 flat)" by (auto simp: list_all_iff dest: in_set_takeD)
  then show ?thesis using f unfolding header_safe_def flat_def [symmetric] Let_def by (auto simp: js_def)
qed

lemma printable_value_ok: "list_all (\<lambda>c. 32 \<le> c \<and> c \<le> 126) v \<Longrightarrow> header_value_ok v"
proof -
  assume v: "list_all (\<lambda>c. 32 \<le> c \<and> c \<le> 126) v"
  have u: "c < 256 \<and> c \<noteq> 0 \<and> c \<noteq> 10 \<and> c \<noteq> 13" if "32 \<le> c" "c \<le> 126" for c :: code_unit
    using that by (auto simp: word_le_nat_alt word_less_nat_alt)
  have "set (rev (dropWhile http_space (rev (dropWhile http_space v)))) \<subseteq> set v"
    by (auto dest!: set_dropWhileD)
  then show ?thesis using v u unfolding header_value_ok_def list_all_iff by blast
qed

lemma header_safe_value_ok: "header_value_ok (header_safe s)"
  using header_safe_printable [of s] by (simp add: printable_value_ok)

lemma header_safe_keeps: "list_all (\<lambda>c. 32 \<le> c \<and> c \<le> 126) s \<Longrightarrow> length s \<le> 180 \<Longrightarrow> header_safe s = s"
proof -
  assume s: "list_all (\<lambda>c. 32 \<le> c \<and> c \<le> 126) s" and l: "length s \<le> 180"
  have "flatten_breaks b s = s" for b using s by (induction s arbitrary: b) auto
  then show ?thesis using s l by (simp add: header_safe_def map_idI list_all_iff)
qed

text \<open>
  Whatever text a clause or a fallback reason quotes, the header made of it is printable ASCII without
  a line break, at most 180 units, accepted by the response constructor, and making it safe again
  changes nothing.
\<close>

theorem header_safe_is_safe:
  "list_all (\<lambda>c. 32 \<le> c \<and> c \<le> 126) (header_safe s) \<and> length (header_safe s) \<le> 180 \<and>
   header_value_ok (header_safe s) \<and> header_safe (header_safe s) = header_safe s"
  using header_safe_printable [of s] header_safe_value_ok [of s] header_safe_keeps [of "header_safe s"] by simp

end
