(* ===== verification/JS_Exact.thy ===== *)
theory JS_Exact imports Json_Wire Discovery begin

text \<open>
  Integers up to 2 to the 53 are exact: as doubles, as text and on the wire.
\<close>

lemma ilog2_le: "n < 2 ^ Suc k \<Longrightarrow> ilog2 n \<le> k"
proof (induction k arbitrary: n)
  case (Suc k)
  show ?case
  proof (cases "n < 2")
    case False
    have "n div 2 < 2 ^ Suc k" using Suc.prems by simp
    then have "ilog2 (n div 2) \<le> k" by (rule Suc.IH)
    then show ?thesis using False by (subst ilog2.simps) simp
  qed (subst ilog2.simps, simp)
qed (subst ilog2.simps, simp)

lemma round_half_even_int: "round_half_even (of_int i) = i"
  by (simp add: round_half_even_def)

lemma to_f64_exact:
  assumes "n < 2 ^ 53"
  shows "to_f64 (of_nat n) = Fin (of_nat n)"
proof (cases "n = 0")
  case False
  define k where "k = 52 - ilog2 n"
  have le: "ilog2 n \<le> 52" using assms by (intro ilog2_le) simp
  have e: "binary_exponent (of_nat n) = int (ilog2 n)" using False by (simp add: binary_exponent_def)
  have ulp: "pow_rat 2 (int (ilog2 n) - 52) = inverse (2 ^ k)"
    using le by (auto simp: pow_rat_def k_def nat_diff_distrib)
  have "of_nat n / inverse (2 ^ k) = (of_int (int n * 2 ^ k) :: rat)" by (simp add: divide_inverse)
  then have r: "round_half_even (of_nat n / inverse (2 ^ k)) = int n * 2 ^ k" by (metis round_half_even_int)
  show ?thesis
    using False le by (simp add: to_f64_def Let_def e ulp r)
qed (simp add: to_f64_def)

section \<open>Decimal text\<close>

lemma digits_parts: "list_all is_digit s \<Longrightarrow> takeWhile is_digit s = s \<and> dropWhile is_digit s = []"
  by (induction s) auto

lemma number_of_digits:
  assumes "s \<noteq> []" "list_all is_digit s" "undec s < 2 ^ 53"
  shows "number_of_string s = Fin (of_nat (undec s))"
proof -
  have h: "hd s \<noteq> 43 \<and> hd s \<noteq> 45 \<and> hd s \<noteq> 73"
    using assms(1,2) by (cases s) (auto simp: is_digit_def)
  have sg: "signed s = (1, s)" using h assms(1) by (cases s) (auto simp: signed_def)
  have inf: "s \<noteq> js ''Infinity''" using h by (auto simp: js_def)
  have lit: "decimal_literal s = Some (of_nat (undec s))"
    unfolding decimal_literal_def digits_parts [OF assms(2), THEN conjunct1] digits_parts [OF assms(2), THEN conjunct2]
    using assms(1) by (simp add: exponent_part_def)
  show ?thesis
    using assms by (simp add: number_of_string_def trim_digits prefixed_literal_digits sg inf lit to_f64_exact)
qed

lemma reads_back_nat:
  assumes "n < 2 ^ 53"
  shows "reads_back (Fin (of_nat n))"
proof -
  have d: "list_all is_digit (dec n)" by (simp add: list_all_iff dec_digits)
  have str: "num_str (Fin (of_nat n)) = dec n" using num_str_nat [of n] assms by simp
  have hd: "hd (dec n) \<noteq> 45" using d dec_neq_Nil [of n] by (cases "dec n") (auto simp: is_digit_def)
  have lead: "hd (dec n) = 48 \<Longrightarrow> dec n = [48]" using decimal_integer_dec [of n] by (simp add: decimal_integer_def)
  have w: "whole_digits (dec n) = dec n"
    using lead digits_parts [OF d] by (cases "dec n") (auto simp: whole_digits_def)
  have "parse_unsigned False (dec n) = Some (Fin (of_nat n), [])"
    using dec_neq_Nil [of n] to_f64_exact [OF assms]
    by (simp add: parse_unsigned_def w parse_fraction_def parse_exponent_def pow_rat_def)
  then have "parse_num (dec n) = Some (Fin (of_nat n), [])"
    using hd dec_neq_Nil [of n] by (cases "dec n") (simp_all add: parse_num_unsigned)
  moreover have "list_all (\<lambda>c. c < 128) (dec n)"
    using d by (auto simp: list_all_iff is_digit_def word_le_nat_alt word_less_nat_alt)
  ultimately show ?thesis unfolding reads_back_def str by simp
qed

end
