(* ===== verification/Ens.thy ===== *)
theory Ens imports JS_Exact Trigger_Jwt begin

text \<open>
  \<open>packages/sdk/ens.js\<close>: a service's records on its \<open>verdikt.eth\<close> subname, the two caches in front of
  them, and the writers of the published scores. viem's hashing, codecs and clients and the chain
  behind them are the record \<open>ens_chain\<close>; what they throw is \<open>Inl\<close>.
\<close>

section \<open>What a read of the chain can answer\<close>

datatype viem_cause = Contract_Reverted | Contract_Zero_Data | Execution_Reverted | Other_Cause

text \<open>An error with the chain of causes that \<open>walk\<close> goes through.\<close>

record viem_error =
  ve_execution_error :: bool \<comment> \<open>\<open>instanceof ContractFunctionExecutionError\<close>\<close>
  ve_causes :: "viem_cause list"
  ve_message :: jstring

definition is_chain_level_refusal :: "viem_error \<Rightarrow> bool" where
  "is_chain_level_refusal e \<longleftrightarrow> ve_execution_error e \<and>
     list_ex (\<lambda>c. c = Contract_Reverted \<or> c = Contract_Zero_Data \<or> c = Execution_Reverted) (ve_causes e)"

text \<open>Resolver calldata, before its ABI encoding.\<close>

datatype record_call = Text_Call jstring jstring | Addr_Call jstring

record ens_chain =
  ch_namehash :: "jstring \<Rightarrow> jstring"
  ch_dns_encode :: "jstring \<Rightarrow> jstring"
  ch_resolve :: "jstring \<Rightarrow> record_call \<Rightarrow> viem_error + (jstring \<times> jstring)"
  ch_decode_text :: "jstring \<Rightarrow> jstring result"
  ch_decode_addr :: "jstring \<Rightarrow> jstring result"
  ch_latest_owner :: "jstring \<Rightarrow> viem_error + jstring"
  ch_primary_name :: "jstring \<Rightarrow> viem_error + jstring option"

section \<open>Names and scores\<close>

definition DEFAULT_PARENT_NAME :: jstring where "DEFAULT_PARENT_NAME = js ''verdikt.eth''"

definition DEFAULT_SEPOLIA_RPC :: jstring where "DEFAULT_SEPOLIA_RPC = js ''https://ethereum-sepolia-rpc.publicnode.com''"

definition PARENT_RESOLVER_ADDRESS :: jstring where "PARENT_RESOLVER_ADDRESS = js ''0x3d411f1bA3B11B630a2405F1Fb51f088Cc2E23C9''"

definition ZERO_ADDRESS :: jstring where "ZERO_ADDRESS = js ''0x0000000000000000000000000000000000000000''"

definition TEXT_KEYS :: "string list" where
  "TEXT_KEYS = [''url'', ''sla'', ''conformance'', ''availability'', ''semanticConformance'']"

definition service_name :: "jstring \<Rightarrow> jstring \<Rightarrow> jstring" where
  "service_name slug parent_name = slug @ js ''.'' @ parent_name"

definition as_score :: "jsnum option \<Rightarrow> jsnum option" where
  "as_score value = (case value of
     Some n \<Rightarrow> if is_integer n \<and> \<not> num_less n (Fin 0) \<and> \<not> num_less (Fin 1000) n then Some n else None
   | None \<Rightarrow> None)"

text \<open>\<open>/^\\d{1,4}$/\<close>\<close>

definition parse_score :: "jstring \<Rightarrow> jsnum option" where
  "parse_score raw =
     (if 1 \<le> length raw \<and> length raw \<le> 4 \<and> list_all is_digit raw then as_score (Some (number_of_string raw)) else None)"

section \<open>One resolution\<close>

datatype ens_backend = V2 | V1 | FIXTURE | Other_Backend jstring

definition backend_name :: "ens_backend \<Rightarrow> jstring" where
  "backend_name b = (case b of V2 \<Rightarrow> js ''ensv2'' | V1 \<Rightarrow> js ''ensv1'' | FIXTURE \<Rightarrow> js ''fixture'' | Other_Backend s \<Rightarrow> s)"

record service_record =
  sr_slug :: jstring
  sr_name :: jstring
  sr_service_id :: jstring
  sr_address :: "jstring option"
  sr_url :: "jstring option"
  sr_sla :: "jstring option"
  sr_conformance :: "jsnum option"
  sr_availability :: "jsnum option"
  sr_semantic_conformance :: "jsnum option"
  sr_owner :: "jstring option"
  sr_backend :: ens_backend
  sr_resolved_at :: int

text \<open>\<open>None\<close> is \<open>null\<close>: no resolver, or no such record.\<close>

definition resolve_data :: "ens_chain \<Rightarrow> jstring \<Rightarrow> record_call \<Rightarrow> jstring option result" where
  "resolve_data chain dns_name data = (case ch_resolve chain dns_name data of
     Inr (value, _) \<Rightarrow> Inr (if value = js ''0x'' then None else Some value)
   | Inl e \<Rightarrow> if is_chain_level_refusal e then Inr None else Inl (ve_message e))"

definition read_text :: "ens_chain \<Rightarrow> jstring \<Rightarrow> string \<Rightarrow> jstring option result" where
  "read_text chain name key =
     bind_r (resolve_data chain (ch_dns_encode chain name) (Text_Call (ch_namehash chain name) (js key))) (\<lambda>data.
     case data of
       None \<Rightarrow> Inr None
     | Some bytes \<Rightarrow> bind_r (ch_decode_text chain bytes) (\<lambda>value. Inr (if value = [] then None else Some value)))"

definition read_addr :: "ens_chain \<Rightarrow> jstring \<Rightarrow> jstring option result" where
  "read_addr chain name =
     bind_r (resolve_data chain (ch_dns_encode chain name) (Addr_Call (ch_namehash chain name))) (\<lambda>data.
     case data of
       None \<Rightarrow> Inr None
     | Some bytes \<Rightarrow> bind_r (ch_decode_addr chain bytes) (\<lambda>value. Inr (if value = ZERO_ADDRESS then None else Some value)))"

definition read_owner :: "ens_chain \<Rightarrow> jstring \<Rightarrow> jstring option result" where
  "read_owner chain service_id = (case ch_latest_owner chain service_id of
     Inl e \<Rightarrow> Inl (ve_message e)
   | Inr owner \<Rightarrow> Inr (if owner = ZERO_ADDRESS then None else Some owner))"

text \<open>
  The seven reads start together and the call fails when one of them does; the message here is the
  first one's in this order, where \<open>Promise.all\<close> has the first one's in time.
\<close>

definition resolve_through_universal_resolver ::
  "ens_chain \<Rightarrow> jstring \<Rightarrow> jstring \<Rightarrow> jstring \<Rightarrow> int \<Rightarrow> service_record result" where
  "resolve_through_universal_resolver chain slug name service_id now =
     bind_r (read_addr chain name) (\<lambda>address.
     bind_r (read_text chain name ''url'') (\<lambda>url.
     bind_r (read_text chain name ''sla'') (\<lambda>sla.
     bind_r (read_text chain name ''conformance'') (\<lambda>conformance.
     bind_r (read_text chain name ''availability'') (\<lambda>availability.
     bind_r (read_text chain name ''semanticConformance'') (\<lambda>semantic.
     bind_r (read_owner chain service_id) (\<lambda>owner.
     Inr \<lparr>sr_slug = slug, sr_name = name, sr_service_id = service_id, sr_address = address, sr_url = url, sr_sla = sla,
       sr_conformance = Option.bind conformance parse_score, sr_availability = Option.bind availability parse_score,
       sr_semantic_conformance = Option.bind semantic parse_score, sr_owner = owner, sr_backend = V2,
       sr_resolved_at = now\<rparr>)))))))"

section \<open>Caches\<close>

text \<open>
  Both caches of the file: a value with the moment it expires. \<open>now\<close> is \<open>Date.now()\<close>; an entry is
  written only for a positive time to live.
\<close>

type_synonym 'v ttl_cache = "jstring \<Rightarrow> ('v \<times> jsnum) option"

definition cached :: "jstring \<Rightarrow> int \<Rightarrow> 'v ttl_cache \<Rightarrow> 'v option" where
  "cached key now cache = (case cache key of
     Some (v, expires_at) \<Rightarrow> if num_less (jsint now) expires_at then Some v else None
   | None \<Rightarrow> None)"

definition remember :: "jstring \<Rightarrow> 'v \<Rightarrow> jsnum \<Rightarrow> int \<Rightarrow> 'v ttl_cache \<Rightarrow> 'v ttl_cache" where
  "remember key v ttl now cache =
     (if num_less (Fin 0) ttl then cache(key \<mapsto> (v, num_plus (jsint now) ttl)) else cache)"

text \<open>\<open>clearServiceRecordCache\<close> and \<open>clearAddressNameCache\<close>\<close>

definition clear_cache :: "'v ttl_cache \<Rightarrow> 'v ttl_cache" where
  "clear_cache _ = Map.empty"

text \<open>One call through a cache: what it asks for, when, and what the chain would answer it.\<close>

record 'v cached_call =
  cc_key :: jstring
  cc_ttl :: jsnum
  cc_now :: int
  cc_later :: int
  cc_fresh :: "'v result"

definition call_through ::
  "(jstring \<Rightarrow> int \<Rightarrow> 'c \<Rightarrow> 'v option) \<Rightarrow> (jstring \<Rightarrow> 'v \<Rightarrow> jsnum \<Rightarrow> int \<Rightarrow> 'c \<Rightarrow> 'c) \<Rightarrow> 'v cached_call \<Rightarrow> 'c \<Rightarrow> 'v result \<times> 'c" where
  "call_through look put c cache = (case look (cc_key c) (cc_now c) cache of
     Some v \<Rightarrow> (Inr v, cache)
   | None \<Rightarrow> (case cc_fresh c of
       Inl e \<Rightarrow> (Inl e, cache)
     | Inr v \<Rightarrow> (Inr v, put (cc_key c) v (cc_ttl c) (cc_later c) cache)))"

definition through_cache :: "'v cached_call \<Rightarrow> 'v ttl_cache \<Rightarrow> 'v result \<times> 'v ttl_cache" where
  "through_cache = call_through cached remember"

record resolve_options =
  ro_parent_name :: "jstring option"
  ro_rpc_url :: "jstring option"
  ro_backend :: "ens_backend option"
  ro_cache_ttl_ms :: "jsnum option"

definition given_or :: "'a option \<Rightarrow> 'a \<Rightarrow> 'a" where
  "given_or a d = (case a of Some v \<Rightarrow> v | None \<Rightarrow> d)"

definition rpc_url_of :: "(jstring \<Rightarrow> jstring option) \<Rightarrow> jstring option \<Rightarrow> jstring" where
  "rpc_url_of process_env given = given_or given (given_or (env process_env (js ''SEPOLIA_RPC_URL'')) DEFAULT_SEPOLIA_RPC)"

text \<open>
  What a resolution runs in: viem's hash and bytes, the environment, the fixture record of
  \<open>packages/fixtures\<close>, and the chain behind each RPC url at this moment.
\<close>

record ens_env =
  ee_keccak :: "8 word list \<Rightarrow> jstring"
  ee_to_bytes :: "jstring \<Rightarrow> 8 word list"
  ee_process_env :: "jstring \<Rightarrow> jstring option"
  ee_fixture :: service_record
  ee_chain_at :: "jstring \<Rightarrow> ens_chain"

definition record_name :: "jstring \<Rightarrow> resolve_options \<Rightarrow> jstring" where
  "record_name slug opts = service_name slug (given_or (ro_parent_name opts) DEFAULT_PARENT_NAME)"

definition record_key :: "ens_env \<Rightarrow> jstring \<Rightarrow> resolve_options \<Rightarrow> jstring" where
  "record_key e slug opts =
     backend_name (given_or (ro_backend opts) V2) @ js ''|'' @ rpc_url_of (ee_process_env e) (ro_rpc_url opts) @ js ''|'' @
     record_name slug opts"

definition fresh_record ::
  "ens_env \<Rightarrow> jstring \<Rightarrow> jstring \<Rightarrow> resolve_options \<Rightarrow> int \<Rightarrow> service_record result" where
  "fresh_record e slug service_id opts now =
     (let name = record_name slug opts; backend = given_or (ro_backend opts) V2 in
      if backend = FIXTURE then
        Inr (ee_fixture e\<lparr>sr_slug := slug, sr_name := name, sr_service_id := service_id, sr_resolved_at := now\<rparr>)
      else if backend = V2 then
        resolve_through_universal_resolver (ee_chain_at e (rpc_url_of (ee_process_env e) (ro_rpc_url opts))) slug name service_id now
      else Inl (js ''resolveServiceRecord: backend \"'' @ backend_name backend @ js ''\" is not implemented (Spike A kept ENSv2)''))"

text \<open>\<open>now\<close> is the moment of the cache lookup, \<open>later\<close> the one of the answer.\<close>

definition resolve_service_record ::
  "ens_env \<Rightarrow> jstring \<Rightarrow> resolve_options \<Rightarrow> int \<Rightarrow> int \<Rightarrow> service_record ttl_cache \<Rightarrow>
   service_record result \<times> service_record ttl_cache" where
  "resolve_service_record e slug opts now later cache =
     (case service_id_of (ee_keccak e) (ee_to_bytes e) slug of
        Inl msg \<Rightarrow> (Inl msg, cache)
      | Inr service_id \<Rightarrow>
          through_cache \<lparr>cc_key = record_key e slug opts, cc_ttl = given_or (ro_cache_ttl_ms opts) (Fin 0),
            cc_now = now, cc_later = later, cc_fresh = fresh_record e slug service_id opts later\<rparr> cache)"

definition resolve_address_name ::
  "ens_env \<Rightarrow> jstring \<Rightarrow> jstring option \<Rightarrow> jsnum option \<Rightarrow> int \<Rightarrow> int \<Rightarrow>
   jstring option ttl_cache \<Rightarrow> jstring option result \<times> jstring option ttl_cache" where
  "resolve_address_name e address rpc_url ttl now later cache =
     (let url = rpc_url_of (ee_process_env e) rpc_url in
      through_cache \<lparr>cc_key = url @ js ''|'' @ lower address, cc_ttl = given_or ttl (Fin 0), cc_now = now, cc_later = later,
        cc_fresh = (case ch_primary_name (ee_chain_at e url) address of Inl err \<Rightarrow> Inl (ve_message err) | Inr name \<Rightarrow> Inr name)\<rparr> cache)"

section \<open>Writers\<close>

text \<open>One \<open>setText\<close>: \<open>wl_send\<close> broadcasts it and gives the hash, \<open>wl_confirm\<close> waits for the receipt.\<close>

record text_write =
  tw_resolver :: jstring
  tw_node :: jstring
  tw_key :: jstring
  tw_value :: jstring

record ens_wallet =
  wl_account :: "jstring \<Rightarrow> unit result"
  wl_send :: "text_write \<Rightarrow> jstring result"
  wl_confirm :: "jstring \<Rightarrow> unit result"

record write_options =
  wo_private_key :: jstring
  wo_parent_name :: "jstring option"
  wo_rpc_url :: "jstring option"
  wo_resolver :: "jstring option"

definition resolver_address_for :: "ens_chain \<Rightarrow> jstring \<Rightarrow> jstring option result" where
  "resolver_address_for chain name =
     (case ch_resolve chain (ch_dns_encode chain name) (Addr_Call (ch_namehash chain name)) of
        Inr (_, resolver) \<Rightarrow> Inr (Some resolver)
      | Inl e \<Rightarrow> if is_chain_level_refusal e then Inr None else Inl (ve_message e))"

text \<open>Where the write goes: the wallet, the name's node and its resolver.\<close>

definition write_target ::
  "string \<Rightarrow> (jstring \<Rightarrow> jstring option) \<Rightarrow> (jstring \<Rightarrow> ens_chain) \<Rightarrow> ens_wallet \<Rightarrow> jstring \<Rightarrow> write_options \<Rightarrow> (jstring \<times> jstring) result" where
  "write_target writer process_env chain_at wallet slug opts =
     (let name = service_name slug (given_or (wo_parent_name opts) DEFAULT_PARENT_NAME);
          chain = chain_at (rpc_url_of process_env (wo_rpc_url opts)) in
      bind_r (wl_account wallet (wo_private_key opts)) (\<lambda>_.
      bind_r (case wo_resolver opts of Some r \<Rightarrow> Inr (Some r) | None \<Rightarrow> resolver_address_for chain name) (\<lambda>resolver.
      case resolver of
        None \<Rightarrow> Inl (js writer @ js '': no resolver found for '' @ name)
      | Some r \<Rightarrow> if r = [] then Inl (js writer @ js '': no resolver found for '' @ name) else Inr (r, ch_namehash chain name))))"

text \<open>The writes that went out, in order, beside the hash or the exception.\<close>

definition write_text :: "ens_wallet \<Rightarrow> jstring \<times> jstring \<Rightarrow> string \<Rightarrow> jstring \<Rightarrow> jstring result \<times> text_write list" where
  "write_text wallet target key value =
     (let w = \<lparr>tw_resolver = fst target, tw_node = snd target, tw_key = js key, tw_value = value\<rparr> in
      case wl_send wallet w of
        Inl e \<Rightarrow> (Inl e, [])
      | Inr hash \<Rightarrow> (bind_r (wl_confirm wallet hash) (\<lambda>_. Inr hash), [w]))"

definition score_error :: "string \<Rightarrow> string \<Rightarrow> jsnum \<Rightarrow> jstring" where
  "score_error writer key value = js writer @ js '': '' @ js key @ js '' must be an integer 0..1000, got '' @ num_str value"

definition write_service_scores ::
  "(jstring \<Rightarrow> jstring option) \<Rightarrow> (jstring \<Rightarrow> ens_chain) \<Rightarrow> ens_wallet \<Rightarrow> jstring \<Rightarrow> jsnum \<Rightarrow> jsnum \<Rightarrow> write_options \<Rightarrow>
   (jstring \<times> jstring) result \<times> text_write list" where
  "write_service_scores process_env chain_at wallet slug conformance availability opts =
     (if as_score (Some conformance) = None then (Inl (score_error ''writeServiceScores'' ''conformance'' conformance), [])
      else if as_score (Some availability) = None then (Inl (score_error ''writeServiceScores'' ''availability'' availability), [])
      else case write_target ''writeServiceScores'' process_env chain_at wallet slug opts of
        Inl e \<Rightarrow> (Inl e, [])
      | Inr target \<Rightarrow>
          (case write_text wallet target ''conformance'' (num_str conformance) of
             (Inl e, sent) \<Rightarrow> (Inl e, sent)
           | (Inr h1, sent) \<Rightarrow>
               (case write_text wallet target ''availability'' (num_str availability) of
                  (Inl e, sent2) \<Rightarrow> (Inl e, sent @ sent2)
                | (Inr h2, sent2) \<Rightarrow> (Inr (h1, h2), sent @ sent2))))"

definition write_semantic_score ::
  "(jstring \<Rightarrow> jstring option) \<Rightarrow> (jstring \<Rightarrow> ens_chain) \<Rightarrow> ens_wallet \<Rightarrow> jstring \<Rightarrow> jsnum \<Rightarrow> write_options \<Rightarrow>
   jstring result \<times> text_write list" where
  "write_semantic_score process_env chain_at wallet slug semantic opts =
     (if as_score (Some semantic) = None then (Inl (score_error ''writeSemanticScore'' ''semanticConformance'' semantic), [])
      else case write_target ''writeSemanticScore'' process_env chain_at wallet slug opts of
        Inl e \<Rightarrow> (Inl e, [])
      | Inr target \<Rightarrow> write_text wallet target ''semanticConformance'' (num_str semantic))"

record unsigned_write =
  uw_to :: jstring
  uw_data :: "jstring \<times> jstring \<times> jstring" \<comment> \<open>node, key and value, before the ABI encoding\<close>
  uw_node :: jstring
  uw_name :: jstring

definition set_text_calldata ::
  "(jstring \<Rightarrow> jstring) \<Rightarrow> jstring \<Rightarrow> jstring \<Rightarrow> jstring \<Rightarrow> jstring option \<Rightarrow> jstring option \<Rightarrow> unsigned_write" where
  "set_text_calldata namehash slug key value parent_name resolver =
     (let name = service_name slug (given_or parent_name DEFAULT_PARENT_NAME); node = namehash name in
      \<lparr>uw_to = given_or resolver PARENT_RESOLVER_ADDRESS, uw_data = (node, key, value), uw_node = node, uw_name = name\<rparr>)"

section \<open>Scores\<close>

lemma as_score_iff:
  "as_score v = Some n \<longleftrightarrow> v = Some n \<and> (\<exists>k \<le> 1000. n = Fin (of_nat k))"
proof -
  have "(is_integer n \<and> \<not> num_less n (Fin 0) \<and> \<not> num_less (Fin 1000) n) = (\<exists>k \<le> 1000. n = Fin (of_nat k))"
  proof (cases n)
    case (Fin q)
    show ?thesis
    proof
      assume a: "is_integer n \<and> \<not> num_less n (Fin 0) \<and> \<not> num_less (Fin 1000) n"
      then obtain i where q: "q = of_int i" using Fin is_wholeE [of q] by auto
      have "0 \<le> i" "i \<le> 1000" using a Fin q by (simp_all add: not_less)
      then show "\<exists>k \<le> 1000. n = Fin (of_nat k)" using Fin q by (intro exI [of _ "nat i"]) auto
    next
      assume "\<exists>k \<le> 1000. n = Fin (of_nat k)"
      then obtain k where "k \<le> 1000" "n = Fin (of_nat k)" by blast
      then show "is_integer n \<and> \<not> num_less n (Fin 0) \<and> \<not> num_less (Fin 1000) n" by (simp add: not_less)
    qed
  qed auto
  then show ?thesis by (auto simp: as_score_def split: option.splits if_splits)
qed

lemma undec_short: "list_all is_digit s \<Longrightarrow> undec s < 10 ^ length s"
proof (induction s rule: rev_induct)
  case (snoc c s)
  then have "undec s < 10 ^ length s" "digit_val c < 10" using digit_unit_val [of c] by auto
  then show ?case by (simp add: undec_snoc)
qed (simp add: undec_def)

lemma parse_score_iff:
  "parse_score raw = Some n \<longleftrightarrow>
     1 \<le> length raw \<and> length raw \<le> 4 \<and> list_all is_digit raw \<and> undec raw \<le> 1000 \<and> n = Fin (of_nat (undec raw))"
proof (cases "1 \<le> length raw \<and> length raw \<le> 4 \<and> list_all is_digit raw")
  case True
  have "undec raw < 10 ^ length raw" using True by (intro undec_short) simp
  also have "\<dots> \<le> 10 ^ 4" using True by (intro power_increasing) auto
  finally have "number_of_string raw = Fin (of_nat (undec raw))" using True by (intro number_of_digits) auto
  then show ?thesis using True by (auto simp: parse_score_def as_score_iff)
qed (auto simp: parse_score_def)

lemma dec_length: "n \<le> 1000 \<Longrightarrow> 1 \<le> length (dec n) \<and> length (dec n) \<le> 4"
proof -
  have step: "m < 10 ^ Suc k \<Longrightarrow> length (dec m) \<le> Suc k" for m k
  proof (induction k arbitrary: m)
    case 0
    then show ?case by (subst dec.simps) simp
  next
    case (Suc k)
    have "m div 10 < 10 ^ Suc k" using Suc.prems by simp
    then have "length (dec (m div 10)) \<le> Suc k" by (rule Suc.IH)
    then show ?case by (subst dec.simps) simp
  qed
  assume "n \<le> 1000"
  then show ?thesis using step [of n 3] dec_neq_Nil [of n] by (cases "dec n") auto
qed

lemma parse_score_dec: "n \<le> 1000 \<Longrightarrow> parse_score (dec n) = Some (Fin (of_nat n))"
  using dec_length [of n] by (auto simp: parse_score_iff list_all_iff dec_digits)

section \<open>A cache with deadlines\<close>

text \<open>
  What the module relies on of its caches: nothing is found at the start, and what is found after a
  write was found before, or is that write's value before its deadline.
\<close>

locale expiring_cache =
  fixes look :: "jstring \<Rightarrow> int \<Rightarrow> 'c \<Rightarrow> 'v option"
    and put :: "jstring \<Rightarrow> 'v \<Rightarrow> jsnum \<Rightarrow> int \<Rightarrow> 'c \<Rightarrow> 'c"
    and start :: 'c
  assumes look_start: "look k t start = None"
    and look_put: "look k t (put k' v ttl now c) = Some w \<Longrightarrow>
      look k t c = Some w \<or> k' = k \<and> v = w \<and> num_less (Fin 0) ttl \<and> num_less (jsint t) (num_plus (jsint now) ttl)"
begin

definition holds :: "(jstring \<Rightarrow> int \<Rightarrow> 'v \<Rightarrow> bool) \<Rightarrow> 'c \<Rightarrow> bool" where
  "holds P c \<longleftrightarrow> (\<forall>k t v. look k t c = Some v \<longrightarrow> P k t v)"

lemma holds_start: "holds P start"
  by (simp add: holds_def look_start)

lemma holds_call:
  assumes "holds P c" "\<And>v t. cc_fresh a = Inr v \<Longrightarrow> num_less (Fin 0) (cc_ttl a) \<Longrightarrow>
    num_less (jsint t) (num_plus (jsint (cc_later a)) (cc_ttl a)) \<Longrightarrow> P (cc_key a) t v"
  shows "holds P (snd (call_through look put a c))"
  using assms by (auto simp: holds_def call_through_def split: option.splits sum.splits dest!: look_put)

lemma call_answer:
  assumes "holds P c" "fst (call_through look put a c) = Inr v"
  shows "cc_fresh a = Inr v \<or> P (cc_key a) (cc_now a) v"
  using assms by (auto simp: holds_def call_through_def split: option.splits sum.splits)

lemma call_failure: "fst (call_through look put a c) = Inl e \<Longrightarrow> cc_fresh a = Inl e"
  by (auto simp: call_through_def split: option.splits sum.splits)

end

interpretation ttl: expiring_cache cached remember Map.empty
  by unfold_locales (auto simp: cached_def remember_def split: if_splits option.splits)

section \<open>Keys\<close>

lemma slug_units: "slug_matches s \<Longrightarrow> list_all (\<lambda>c. c \<noteq> 46 \<and> c \<noteq> 124) s"
proof -
  assume "slug_matches s"
  then obtain c r where s: "s = c # r" and c: "slug_unit c"
    and r: "r = [] \<or> list_all (\<lambda>x. slug_unit x \<or> x = 45) (butlast r) \<and> slug_unit (last r)"
    by (cases s) (auto simp: slug_matches_def)
  have u: "slug_unit x \<or> x = 45 \<Longrightarrow> x \<noteq> 46 \<and> x \<noteq> 124" for x :: code_unit
    by (auto simp: slug_unit_def is_digit_def)
  have "list_all (\<lambda>x. x \<noteq> 46 \<and> x \<noteq> 124) r"
  proof (cases r rule: rev_cases)
    case (snoc q x)
    then show ?thesis using r u by (fastforce simp: list_all_iff)
  qed simp
  then show ?thesis using s c u [of c] by simp
qed

lemma until_first: "list_all (\<lambda>c. c \<noteq> b) xs \<Longrightarrow> takeWhile (\<lambda>c. c \<noteq> b) (xs @ b # ys) = xs"
  by (induction xs) auto

text \<open>With the default parent, the end of a key tells the slug.\<close>

lemma record_key_slug:
  assumes "record_key e s opts = record_key e' s' opts'" "slug_matches s" "slug_matches s'"
    "ro_parent_name opts = None" "ro_parent_name opts' = None"
  shows "s = s'"
proof -
  have bar: "takeWhile (\<lambda>c. c \<noteq> 124) (rev (record_key e s opts)) = rev DEFAULT_PARENT_NAME @ 46 # rev s"
    if "slug_matches s" "ro_parent_name opts = None" for e s opts
  proof -
    have d: "list_all (\<lambda>c. c \<noteq> 124) (rev DEFAULT_PARENT_NAME @ 46 # rev s)"
      using slug_units [OF that(1)] by (auto simp: DEFAULT_PARENT_NAME_def js_def list_all_iff)
    have "rev (record_key e s opts) = (rev DEFAULT_PARENT_NAME @ 46 # rev s) @ 124 #
        rev (backend_name (given_or (ro_backend opts) V2) @ js ''|'' @ rpc_url_of (ee_process_env e) (ro_rpc_url opts))"
      using that(2) by (simp add: record_key_def record_name_def service_name_def given_or_def js_def)
    then show ?thesis using until_first [OF d] by simp
  qed
  show ?thesis using bar [of s opts e] bar [of s' opts' e'] assms by simp
qed

section \<open>What a resolution gives\<close>

lemma resolved_fields:
  assumes "resolve_through_universal_resolver chain slug name service_id now = Inr rec"
  shows "sr_slug rec = slug" "sr_name rec = name" "sr_service_id rec = service_id" "sr_resolved_at rec = now"
  using assms by (auto simp: resolve_through_universal_resolver_def bind_r_Inr_iff)

lemma fresh_fields:
  assumes "fresh_record e slug service_id opts now = Inr rec"
  shows "sr_slug rec = slug \<and> sr_name rec = record_name slug opts \<and> sr_service_id rec = service_id \<and> sr_resolved_at rec = now"
  using assms resolved_fields [of "ee_chain_at e (rpc_url_of (ee_process_env e) (ro_rpc_url opts))" slug "record_name slug opts" service_id now rec]
  by (auto simp: fresh_record_def Let_def split: if_splits)

text \<open>One call of \<open>resolveServiceRecord\<close>, and the cache after a history of them, the latest first.\<close>

record ens_lookup =
  rc_env :: ens_env
  rc_slug :: jstring
  rc_opts :: resolve_options
  rc_now :: int
  rc_later :: int

definition resolve_call :: "ens_lookup \<Rightarrow> service_record ttl_cache \<Rightarrow> service_record result \<times> service_record ttl_cache" where
  "resolve_call a = resolve_service_record (rc_env a) (rc_slug a) (rc_opts a) (rc_now a) (rc_later a)"

fun cache_after :: "ens_lookup list \<Rightarrow> service_record ttl_cache" where
  "cache_after [] = Map.empty"
| "cache_after (a # history) = snd (resolve_call a (cache_after history))"

definition key_of :: "ens_lookup \<Rightarrow> jstring" where
  "key_of a = record_key (rc_env a) (rc_slug a) (rc_opts a)"

definition deadline_of :: "ens_lookup \<Rightarrow> jsnum" where
  "deadline_of a = num_plus (jsint (rc_later a)) (given_or (ro_cache_ttl_ms (rc_opts a)) (Fin 0))"

text \<open>The record is the answer of \<open>b\<close>: its slug, name, id and moment.\<close>

definition answer_of :: "ens_lookup \<Rightarrow> service_record \<Rightarrow> bool" where
  "answer_of b rec \<longleftrightarrow> sr_slug rec = rc_slug b \<and> sr_name rec = record_name (rc_slug b) (rc_opts b) \<and>
     service_id_of (ee_keccak (rc_env b)) (ee_to_bytes (rc_env b)) (rc_slug b) = Inr (sr_service_id rec) \<and>
     sr_resolved_at rec = rc_later b"

definition still_valid :: "ens_lookup list \<Rightarrow> jstring \<Rightarrow> int \<Rightarrow> service_record \<Rightarrow> bool" where
  "still_valid history k t rec \<longleftrightarrow>
     list_ex (\<lambda>b. key_of b = k \<and> answer_of b rec \<and> num_less (jsint t) (deadline_of b)) history"

lemma resolve_call_cases:
  assumes "ttl.holds (still_valid history) c"
  shows "ttl.holds (still_valid (a # history)) (snd (resolve_call a c))"
    and "fst (resolve_call a c) = Inr rec \<Longrightarrow> slug_matches (rc_slug a) \<and>
      (answer_of a rec \<or> still_valid history (key_of a) (rc_now a) rec)"
proof -
  have mono: "ttl.holds (still_valid (a # history)) c"
    using assms by (auto simp: ttl.holds_def still_valid_def)
  show "ttl.holds (still_valid (a # history)) (snd (resolve_call a c))"
  proof (cases "service_id_of (ee_keccak (rc_env a)) (ee_to_bytes (rc_env a)) (rc_slug a)")
    case (Inr i)
    show ?thesis
      unfolding resolve_call_def resolve_service_record_def Inr sum.case through_cache_def
      by (rule ttl.holds_call [OF mono])
        (auto simp: still_valid_def key_of_def answer_of_def deadline_of_def Inr dest: fresh_fields)
  qed (use mono in \<open>simp add: resolve_call_def resolve_service_record_def\<close>)
  assume f: "fst (resolve_call a c) = Inr rec"
  then obtain i where i: "service_id_of (ee_keccak (rc_env a)) (ee_to_bytes (rc_env a)) (rc_slug a) = Inr i"
    by (auto simp: resolve_call_def resolve_service_record_def split: sum.splits)
  have "fresh_record (rc_env a) (rc_slug a) i (rc_opts a) (rc_later a) = Inr rec \<or>
      still_valid history (key_of a) (rc_now a) rec"
    using f ttl.call_answer [OF assms] by (fastforce simp: resolve_call_def resolve_service_record_def i through_cache_def key_of_def)
  moreover have "slug_matches (rc_slug a)" using i by (auto simp: service_id_of_def split: if_splits)
  ultimately show "slug_matches (rc_slug a) \<and> (answer_of a rec \<or> still_valid history (key_of a) (rc_now a) rec)"
    using i by (auto simp: answer_of_def dest: fresh_fields)
qed

lemma cache_after_holds: "ttl.holds (still_valid history) (cache_after history)"
  by (induction history) (simp_all add: ttl.holds_start resolve_call_cases(1))

lemma answer_of_slug: "answer_of b rec \<Longrightarrow> slug_matches (rc_slug b)"
  by (auto simp: answer_of_def service_id_of_def split: if_splits)

lemma resolved_by_own_slug:
  assumes "fst (resolve_call a (cache_after history)) = Inr rec"
    and "list_all (\<lambda>b. ro_parent_name (rc_opts b) = None) (a # history)"
  shows "answer_of a rec \<or>
    list_ex (\<lambda>b. rc_slug b = rc_slug a \<and> key_of b = key_of a \<and> answer_of b rec \<and> num_less (jsint (rc_now a)) (deadline_of b)) history"
proof -
  note cases_a = resolve_call_cases(2) [OF cache_after_holds assms(1)]
  have same: "rc_slug b = rc_slug a" if "b \<in> set history" "key_of b = key_of a" "answer_of b rec" for b
    using that record_key_slug [of "rc_env b" "rc_slug b" "rc_opts b" "rc_env a" "rc_slug a" "rc_opts a"]
      answer_of_slug [OF that(3)] cases_a assms(2) by (auto simp: key_of_def list_all_iff)
  from cases_a have "answer_of a rec \<or> still_valid history (key_of a) (rc_now a) rec" by simp
  then show ?thesis
  proof
    assume "still_valid history (key_of a) (rc_now a) rec"
    then show ?thesis using same by (auto simp: still_valid_def list_ex_iff)
  qed simp
qed

text \<open>
  C12: After any history of calls, each with its own time to live and options, a record that
  \<open>resolveServiceRecord\<close> returns is the one of the slug asked for, with its name; it was resolved
  by this very call, or by an earlier one under the same key whose deadline has not passed.
\<close>

theorem resolved_record_is_current:
  assumes "fst (resolve_call a (cache_after history)) = Inr rec"
    and "list_all (\<lambda>b. ro_parent_name (rc_opts b) = None) (a # history)"
  shows "sr_slug rec = rc_slug a \<and> sr_name rec = service_name (rc_slug a) DEFAULT_PARENT_NAME \<and>
    (sr_resolved_at rec = rc_later a \<or>
     list_ex (\<lambda>b. key_of b = key_of a \<and> sr_resolved_at rec = rc_later b \<and>
       num_less (jsint (rc_now a)) (deadline_of b)) history)"
proof -
  have name: "sr_name rec = service_name (rc_slug b) DEFAULT_PARENT_NAME" if "answer_of b rec" "b \<in> set (a # history)" for b
    using that assms(2) by (auto simp: answer_of_def record_name_def given_or_def list_all_iff)
  from resolved_by_own_slug [OF assms] show ?thesis
  proof
    assume "answer_of a rec"
    then show ?thesis using name [of a] by (simp add: answer_of_def)
  next
    assume "list_ex (\<lambda>b. rc_slug b = rc_slug a \<and> key_of b = key_of a \<and> answer_of b rec \<and>
      num_less (jsint (rc_now a)) (deadline_of b)) history"
    then obtain b where b: "b \<in> set history" "rc_slug b = rc_slug a" "key_of b = key_of a" "answer_of b rec"
      "num_less (jsint (rc_now a)) (deadline_of b)" by (auto simp: list_ex_iff)
    then have "sr_slug rec = rc_slug a" "sr_name rec = service_name (rc_slug a) DEFAULT_PARENT_NAME" "sr_resolved_at rec = rc_later b"
      using name [of b] by (simp_all add: answer_of_def)
    then show ?thesis using b(1,3,5) by (auto simp: list_ex_iff)
  qed
qed

definition example_fixture :: service_record where
  "example_fixture = \<lparr>sr_slug = js ''weather'', sr_name = js ''weather.verdikt.eth'', sr_service_id = js ''0x01'',
     sr_address = None, sr_url = Some (js ''https://api.example.com/v1''), sr_sla = None, sr_conformance = Some (Fin 990),
     sr_availability = None, sr_semantic_conformance = None, sr_owner = Some (js ''0xAB''), sr_backend = FIXTURE,
     sr_resolved_at = 0\<rparr>"

definition example_call :: "int \<Rightarrow> ens_lookup" where
  "example_call t = \<lparr>rc_env = \<lparr>ee_keccak = (\<lambda>_. js ''0x01''), ee_to_bytes = (\<lambda>_. []), ee_process_env = Map.empty,
     ee_fixture = example_fixture, ee_chain_at = (\<lambda>_. undefined)\<rparr>, rc_slug = js ''weather'',
     rc_opts = \<lparr>ro_parent_name = None, ro_rpc_url = None, ro_backend = Some FIXTURE, ro_cache_ttl_ms = Some (Fin 30000)\<rparr>,
     rc_now = t, rc_later = t + 5\<rparr>"

lemma example_slug: "slug_matches (js ''weather'')"
  by code_simp

lemma example_service_name: "service_name (js ''weather'') DEFAULT_PARENT_NAME = js ''weather.verdikt.eth''"
  by (simp add: service_name_def DEFAULT_PARENT_NAME_def js_def)

lemma example_answer:
  "resolve_call (example_call 0) Map.empty =
     (Inr (example_fixture\<lparr>sr_resolved_at := 5\<rparr>),
      Map.empty(key_of (example_call 0) \<mapsto> (example_fixture\<lparr>sr_resolved_at := 5\<rparr>, Fin 30005)))"
  using to_f64_exact [of 30005]
  by (simp add: resolve_call_def example_call_def resolve_service_record_def service_id_of_def example_slug through_cache_def
    call_through_def cached_def remember_def fresh_record_def given_or_def key_of_def record_name_def example_service_name
    example_fixture_def)

lemma resolved_record_is_current_witness:
  "fst (resolve_call (example_call 1000) (cache_after [example_call 0])) = Inr (example_fixture\<lparr>sr_resolved_at := 5\<rparr>) \<and>
   sr_slug (example_fixture\<lparr>sr_resolved_at := 5\<rparr>) = js ''weather''"
proof -
  have c: "cache_after [example_call 0] = Map.empty(key_of (example_call 0) \<mapsto> (example_fixture\<lparr>sr_resolved_at := 5\<rparr>, Fin 30005))"
    by (simp add: example_answer)
  have a: "fst (resolve_call (example_call 1000) (cache_after [example_call 0])) = Inr (example_fixture\<lparr>sr_resolved_at := 5\<rparr>)"
    unfolding c by (simp add: resolve_call_def key_of_def example_call_def resolve_service_record_def service_id_of_def
      example_slug through_cache_def call_through_def cached_def record_key_def)
  then show ?thesis
    using resolved_record_is_current [OF a] by (simp add: example_call_def)
qed

section \<open>Unpublished is not unreachable\<close>

text \<open>A read fails when the chain is not reached, or when its answer is no ABI value of the right type.\<close>

definition read_fails :: "ens_chain \<Rightarrow> jstring \<Rightarrow> record_call \<Rightarrow> bool" where
  "read_fails chain name q = (case ch_resolve chain (ch_dns_encode chain name) q of
     Inl e \<Rightarrow> \<not> is_chain_level_refusal e
   | Inr (v, _) \<Rightarrow> v \<noteq> js ''0x'' \<and> (case q of
       Text_Call _ _ \<Rightarrow> isl (ch_decode_text chain v) | Addr_Call _ \<Rightarrow> isl (ch_decode_addr chain v)))"

definition text_call :: "ens_chain \<Rightarrow> jstring \<Rightarrow> string \<Rightarrow> record_call" where
  "text_call chain name key = Text_Call (ch_namehash chain name) (js key)"

definition unpublished :: "ens_chain \<Rightarrow> jstring \<Rightarrow> string \<Rightarrow> bool" where
  "unpublished chain name key = (case ch_resolve chain (ch_dns_encode chain name) (text_call chain name key) of
     Inl e \<Rightarrow> is_chain_level_refusal e
   | Inr (v, _) \<Rightarrow> v = js ''0x'' \<or> ch_decode_text chain v = Inr [])"

definition record_reads :: "ens_chain \<Rightarrow> jstring \<Rightarrow> record_call list" where
  "record_reads chain name = Addr_Call (ch_namehash chain name) # map (text_call chain name) TEXT_KEYS"

lemma read_text_outcome:
  "case read_text chain name key of
     Inl e \<Rightarrow> read_fails chain name (text_call chain name key)
   | Inr v \<Rightarrow> \<not> read_fails chain name (text_call chain name key) \<and> (v = None \<longleftrightarrow> unpublished chain name key)"
  by (auto simp: read_text_def resolve_data_def read_fails_def text_call_def unpublished_def bind_r_def
    split: sum.splits prod.splits option.splits)

lemma read_addr_outcome: "isl (read_addr chain name) \<longleftrightarrow> read_fails chain name (Addr_Call (ch_namehash chain name))"
  by (auto simp: read_addr_def resolve_data_def read_fails_def bind_r_def split: sum.splits prod.splits option.splits)

lemma read_owner_outcome: "isl (read_owner chain service_id) \<longleftrightarrow> isl (ch_latest_owner chain service_id)"
  by (simp add: read_owner_def split: sum.splits)

lemma read_text_isl: "isl (read_text chain name key) \<longleftrightarrow> read_fails chain name (text_call chain name key)"
  using read_text_outcome [of chain name key] by (auto split: sum.splits)

lemma read_text_None: "read_text chain name key = Inr v \<Longrightarrow> v = None \<longleftrightarrow> unpublished chain name key"
  using read_text_outcome [of chain name key] by simp

lemma isl_bind_r: "isl (bind_r m f) \<longleftrightarrow> isl m \<or> (\<exists>x. m = Inr x \<and> isl (f x))"
  by (cases m) auto

lemma resolution_isl:
  "isl (resolve_through_universal_resolver chain slug name service_id now) \<longleftrightarrow>
     isl (read_addr chain name) \<or> list_ex (\<lambda>k. isl (read_text chain name k)) TEXT_KEYS \<or> isl (read_owner chain service_id)"
  unfolding resolve_through_universal_resolver_def
  by (cases "read_addr chain name"; cases "read_text chain name ''url''"; cases "read_text chain name ''sla''";
      cases "read_text chain name ''conformance''"; cases "read_text chain name ''availability''";
      cases "read_text chain name ''semanticConformance''"; cases "read_owner chain service_id")
    (simp_all add: TEXT_KEYS_def)


section \<open>Published scores\<close>

lemma num_str_score: "k \<le> 1000 \<Longrightarrow> num_str (Fin (of_nat k)) = dec k"
  using num_str_nat [of k] by simp

lemma score_read_back: "as_score (Some n) = Some m \<Longrightarrow> parse_score (num_str n) = Some n"
proof -
  assume "as_score (Some n) = Some m"
  then obtain k where "n = Fin (of_nat k)" "k \<le> 1000" by (auto simp: as_score_iff)
  then show ?thesis using num_str_score [of k] parse_score_dec [of k] by (simp only:)
qed

definition score_write :: "jstring \<times> jstring \<Rightarrow> string \<Rightarrow> jsnum \<Rightarrow> text_write" where
  "score_write target key n = \<lparr>tw_resolver = fst target, tw_node = snd target, tw_key = js key, tw_value = num_str n\<rparr>"

lemma write_text_sent:
  "snd (write_text wallet target key (num_str n)) = (if isl (wl_send wallet (score_write target key n)) then [] else [score_write target key n])"
  "\<not> isl (fst (write_text wallet target key (num_str n))) \<Longrightarrow> \<not> isl (wl_send wallet (score_write target key n))"
  by (auto simp: write_text_def score_write_def Let_def split: sum.splits)

text \<open>
  A score that is no integer in 0..1000 is refused before anything is sent. Otherwise what was sent
  is a beginning of two writes to one node and resolver, \<open>conformance\<close> then \<open>availability\<close>, and both
  when the call returns; \<open>parseScore\<close> reads the two texts back as the scores.
\<close>

theorem published_scores_read_back:
  "case write_service_scores process_env chain_at wallet slug conformance availability opts of
     (r, sent) \<Rightarrow>
       if as_score (Some conformance) = None \<or> as_score (Some availability) = None then isl r \<and> sent = []
       else \<exists>target n. sent = take n [score_write target ''conformance'' conformance, score_write target ''availability'' availability] \<and>
         (if isl r then n \<le> 2 else n = 2) \<and>
         parse_score (tw_value (score_write target ''conformance'' conformance)) = Some conformance \<and>
         parse_score (tw_value (score_write target ''availability'' availability)) = Some availability"
proof (cases "as_score (Some conformance) = None \<or> as_score (Some availability) = None")
  case False
  then have texts: "parse_score (num_str conformance) = Some conformance" "parse_score (num_str availability) = Some availability"
    using score_read_back by auto
  show ?thesis
  proof (cases "write_target ''writeServiceScores'' process_env chain_at wallet slug opts")
    case (Inl e)
    then show ?thesis using False texts by (auto simp: write_service_scores_def score_write_def intro!: exI [of _ "0::nat"])
  next
    case (Inr target)
    let ?w1 = "score_write target ''conformance'' conformance" and ?w2 = "score_write target ''availability'' availability"
    have tw: "tw_value ?w1 = num_str conformance" "tw_value ?w2 = num_str availability" by (simp_all add: score_write_def)
    obtain r sent where run: "write_service_scores process_env chain_at wallet slug conformance availability opts = (r, sent)"
      by fastforce
    have "\<exists>n. snd (write_service_scores process_env chain_at wallet slug conformance availability opts) = take n [?w1, ?w2] \<and>
        (if isl (fst (write_service_scores process_env chain_at wallet slug conformance availability opts)) then n \<le> 2 else n = 2)"
      using False Inr
      by (cases "write_text wallet target ''conformance'' (num_str conformance)";
          cases "write_text wallet target ''availability'' (num_str availability)")
        (use write_text_sent [of wallet target "''conformance''" conformance]
             write_text_sent [of wallet target "''availability''" availability] in
          \<open>auto simp: write_service_scores_def split: sum.splits if_splits
            intro: exI [of _ "0::nat"] exI [of _ "1::nat"] exI [of _ "2::nat"]\<close>)
    then obtain n where n: "sent = take n [?w1, ?w2]" "if isl r then n \<le> 2 else n = 2" by (auto simp: run)
    show ?thesis
      unfolding run prod.case if_not_P [OF False]
      by (rule exI [of _ target], rule exI [of _ n]) (use n texts tw in simp)
  qed
qed (auto simp: write_service_scores_def)

end
