(* ===== verification/Proxy_Router.thy ===== *)
theory Proxy_Router imports Router_Http Ens "HOL-Library.Sublist" begin

text \<open>
  \<open>proxy/src/router.js\<close>: one HTTP request through the proxy. What the proxy calls (ENS, the Arc
  registry, the provider, the workflow, the evidence store, the marketplace) are the fields of
  \<open>proxy_deps\<close>; \<open>Inl\<close> is what they throw. A handler gives its response, or the exception that
  escapes it, and the calls it made in order.
\<close>

section \<open>Requests and dependencies\<close>

text \<open>Header names are lower case, as \<open>Headers\<close> iterates them; \<open>rq_params\<close> is the decoded query.\<close>

record request =
  rq_method :: jstring
  rq_url :: url
  rq_params :: "(jstring \<times> jstring) list"
  rq_headers :: headers
  rq_body :: "8 word list"

record service_state =
  ss_status :: service_status
  ss_provider :: jstring

record upstream_fetch =
  uf_url :: url
  uf_method :: jstring
  uf_headers :: headers
  uf_body :: "8 word list option"
  uf_manual_redirect :: bool

text \<open>The body of a reply is read later, and reading it may throw.\<close>

record fetched =
  ft_status :: nat
  ft_headers :: headers
  ft_body :: "8 word list result"

record verify_request =
  vq_service_id :: jstring
  vq_request_id :: jstring
  vq_provider_url :: jstring
  vq_method :: jstring
  vq_payment_header :: jstring
  vq_payment_header_name :: jstring
  vq_body_hex :: "jstring option"
  vq_content_type :: "jstring option"
  vq_payer :: jstring
  vq_paid_amount :: jstring
  vq_sla :: "jstring option"

record workflow_client =
  wc_verify :: "verify_request \<Rightarrow> thrown + verification_result"
  wc_settle :: "jstring \<Rightarrow> verification_result \<Rightarrow> bool"

text \<open>Storing evidence answers nothing the router reads: it is an action.\<close>

record evidence_client =
  ec_read :: "jstring \<Rightarrow> jsnum \<Rightarrow> envelope option result"

record 'h proxy_deps =
  px_config :: proxy_config
  px_resolve :: "jstring \<Rightarrow> service_record result"
  px_get_service :: "jstring \<Rightarrow> service_state result"
  px_get_verdict :: "jstring \<Rightarrow> stored_verdict option result"
  px_fetch :: "upstream_fetch \<Rightarrow> fetched result"
  px_rpc :: "jstring \<Rightarrow> jstring \<Rightarrow> (nat \<times> jstring) result"
  px_viem :: viem
  px_workflow :: "workflow_client option"
  px_new_request_id :: jstring
  px_marketplace :: "'h listing list result option"
  px_evidence :: "evidence_client option"
  px_parse_url :: "jstring \<Rightarrow> url option"
  px_resolve_url :: "jstring \<Rightarrow> url \<Rightarrow> url option"
  px_href :: "url \<Rightarrow> jstring"
  px_now :: int

text \<open>The resolution behind \<open>px_resolve\<close>: \<open>resolveServiceRecord\<close> with the configured time to live.\<close>

definition proxy_lookup :: "ens_env \<Rightarrow> proxy_config \<Rightarrow> jstring \<Rightarrow> int \<Rightarrow> int \<Rightarrow> ens_lookup" where
  "proxy_lookup e config slug now later = \<lparr>rc_env = e, rc_slug = slug,
     rc_opts = \<lparr>ro_parent_name = None, ro_rpc_url = None, ro_backend = None, ro_cache_ttl_ms = Some (cf_ens_cache_ttl_ms config)\<rparr>,
     rc_now = now, rc_later = later\<rparr>"

datatype action =
    Resolved jstring
  | Read_Service jstring
  | Fetched upstream_fetch
  | Triggered verify_request
  | Stored_Evidence jstring envelope
  | Read_Verdict jstring
  | Read_Evidence jstring
  | Read_Marketplace
  | Settled jstring verification_result

type_synonym handled = "response result \<times> action list"

definition after :: "action list \<Rightarrow> handled \<Rightarrow> handled" where
  "after acts h = (fst h, acts @ snd h)"

definition get_header :: "headers \<Rightarrow> string \<Rightarrow> jstring option" where
  "get_header hs name = map_of hs (js name)"

definition refuse :: "nat \<Rightarrow> string \<Rightarrow> (string \<times> json) list \<Rightarrow> handled" where
  "refuse status e details = (json_response (error_body e details) status [], [])"

section \<open>Where a request goes\<close>

definition PAYMENT_HEADER_NAMES :: "string list" where
  "PAYMENT_HEADER_NAMES = [''payment-signature'', ''x-payment'']"

definition payment_header_of :: "headers \<Rightarrow> (string \<times> jstring) option" where
  "payment_header_of hs =
     (case find (\<lambda>n. get_header hs n \<noteq> None \<and> get_header hs n \<noteq> Some []) PAYMENT_HEADER_NAMES of
        Some n \<Rightarrow> Some (n, the (get_header hs n)) | None \<Rightarrow> None)"

definition on_service_host :: "url \<Rightarrow> proxy_config \<Rightarrow> bool" where
  "on_service_host u config \<longleftrightarrow> ends_with (lower (u_hostname u)) (46 # lower (cf_public_host config))"

definition host_slug :: "url \<Rightarrow> proxy_config \<Rightarrow> jstring option" where
  "host_slug u config =
     (if \<not> on_service_host u config then None
      else (let host = lower (u_hostname u);
                slug = take (length host - (length (cf_public_host config) + 1)) host in
            if slug_matches slug then Some slug else None))"

definition route_of :: "url \<Rightarrow> proxy_config \<Rightarrow> (jstring \<times> jstring) option" where
  "route_of u config =
     (if on_service_host u config then
        (case host_slug u config of
           None \<Rightarrow> None
         | Some slug \<Rightarrow> Some (slug, dropWhile (\<lambda>c. c = 47) (u_pathname u)))
      else (case split_on 47 (u_pathname u) of
              _ # slug # rest \<Rightarrow> if slug_matches slug then Some (slug, join_with [47] rest) else None
            | _ \<Rightarrow> None))"

text \<open>\<open>/^prefix([^/]+)$/\<close>\<close>

definition segment_after :: "string \<Rightarrow> jstring \<Rightarrow> jstring option" where
  "segment_after lead path =
     (let rest = drop (length lead) path in
      if starts_with path (js lead) \<and> rest \<noteq> [] \<and> 47 \<notin> set rest then Some rest else None)"

section \<open>The proxy's own routes\<close>

text \<open>\<open>Object.fromEntries\<close>: the last value of a repeated parameter.\<close>

definition query_of :: "(jstring \<times> jstring) list \<Rightarrow> discovery_query" where
  "query_of params = (let get = (\<lambda>k. map_of (rev params) (js k)) in
     \<lparr>q_min_conformance = get ''minConformance'', q_min_availability = get ''minAvailability'',
      q_max_latency_ms = get ''maxLatencyMs'', q_max_price = get ''maxPriceMinorUnits'', q_status = get ''status''\<rparr>)"

definition discovery_unavailable :: handled where
  "discovery_unavailable = refuse 503 ''discovery_unavailable'' [(''detail'', js_str ''no marketplace reader configured'')]"

definition handle_services :: "'h proxy_deps \<Rightarrow> request \<Rightarrow> handled" where
  "handle_services d rq = (case px_marketplace d of
     None \<Rightarrow> discovery_unavailable
   | Some market \<Rightarrow> after [Read_Marketplace]
       (case bind_r market (\<lambda>services. discover services (query_of (rq_params rq)) (cf_public_host (px_config d))) of
          Inr found \<Rightarrow> (json_response (Discovery_Text found) 200 [], [])
        | Inl m \<Rightarrow> refuse 503 ''marketplace_unavailable'' [(''detail'', JStr m)]))"

text \<open>Here the marketplace is read outside any \<open>try\<close>.\<close>

definition handle_service :: "'h proxy_deps \<Rightarrow> jstring \<Rightarrow> handled" where
  "handle_service d slug = (case px_marketplace d of
     None \<Rightarrow> discovery_unavailable
   | Some market \<Rightarrow> after [Read_Marketplace]
       (case market of
          Inl m \<Rightarrow> (Inl m, [])
        | Inr services \<Rightarrow>
            (case find (\<lambda>l. l_slug l = slug) services of
               None \<Rightarrow> refuse 404 ''unknown_service'' [(''slug'', JStr slug)]
             | Some l \<Rightarrow> (json_response (Listing_Text (to_listing l (cf_public_host (px_config d)))) 200 [], []))))"

definition handle_sla_read :: "'h proxy_deps \<Rightarrow> jstring \<Rightarrow> handled" where
  "handle_sla_read d slug =
     (if \<not> slug_matches slug then refuse 404 ''unknown_service'' [(''slug'', JStr slug), (''detail'', js_str ''not a valid service slug'')]
      else after [Resolved slug] (case px_resolve d slug of
        Inl m \<Rightarrow> refuse 503 ''naming_layer_unavailable'' [(''detail'', JStr m)]
      | Inr rec \<Rightarrow>
          (case sr_sla rec of
             Some sla \<Rightarrow>
               if sla = [] then refuse 404 ''no_sla'' [(''slug'', JStr slug), (''detail'', JStr (slug @ js '' publishes no sla record''))]
               else (json_response (Json_Text (JObj [(js ''slug'', JStr slug), (js ''sla'', JStr sla),
                 (js ''url'', case sr_url rec of Some u \<Rightarrow> JStr u | None \<Rightarrow> JNull)])) 200 [], [])
           | None \<Rightarrow> refuse 404 ''no_sla'' [(''slug'', JStr slug), (''detail'', JStr (slug @ js '' publishes no sla record''))])))"

definition handle_evidence_read :: "'h proxy_deps \<Rightarrow> request \<Rightarrow> jstring \<Rightarrow> handled" where
  "handle_evidence_read d rq path_id = (case px_evidence d of
     None \<Rightarrow> refuse 503 ''evidence_unavailable'' [(''detail'', js_str ''this proxy is not configured with an evidence store'')]
   | Some evidence \<Rightarrow>
       if \<not> hex_word 64 path_id then
         refuse 400 ''bad_request_id'' [(''detail'', js_str ''a request id is 32 bytes as 0x-prefixed hex'')]
       else
         (let request_id = lower path_id in
          after [Read_Verdict request_id]
            (case authorize_disclosure (px_get_verdict d) request_id (get_header (rq_headers rq) ''x-verdikt-evidence-auth'') of
               Inl r \<Rightarrow> (json_response (Json_Text (JObj [(js ''error'', JStr (rf_error r)), (js ''detail'', JStr (rf_detail r))])) (rf_status r) [], [])
             | Inr payer \<Rightarrow> after [Read_Evidence request_id]
                 (case ec_read evidence request_id (cf_evidence_adjudication_window_ms (px_config d)) of
                    Inl m \<Rightarrow> (Inl m, [])
                  | Inr None \<Rightarrow> refuse 404 ''no_evidence'' [(''requestId'', JStr request_id), (''detail'', js_str ''no evidence is cached for this request'')]
                  | Inr (Some envelope) \<Rightarrow> (json_response (Envelope_Text envelope) 200 [], [])))))"

text \<open>The comparison itself is constant-time; its answer is equality of the bytes.\<close>

definition bearer_matches :: "jstring option \<Rightarrow> jstring \<Rightarrow> bool" where
  "bearer_matches header expected = (case header of
     None \<Rightarrow> False
   | Some h \<Rightarrow> starts_with h (js ''Bearer '') \<and> utf8 (drop 7 h) = utf8 expected)"

definition handle_callback :: "'h proxy_deps \<Rightarrow> request \<Rightarrow> handled" where
  "handle_callback d rq =
     (if \<not> (case cf_callback_token (px_config d) of
              Some token \<Rightarrow> token \<noteq> [] \<and> bearer_matches (get_header (rq_headers rq) ''authorization'') token
            | None \<Rightarrow> False)
      then refuse 401 ''unauthorized'' []
      else case json_parse (decode_text (rq_body rq)) of
        Inl _ \<Rightarrow> refuse 400 ''malformed_callback'' []
      | Inr payload \<Rightarrow>
          (case json_member payload ''requestId'' of
             Some (JStr request_id) \<Rightarrow>
               (case px_workflow d of
                  None \<Rightarrow> refuse 409 ''no_such_pending_request'' [(''requestId'', JStr request_id)]
                | Some workflow \<Rightarrow>
                    (case parse_workflow_result payload of
                       Inl e \<Rightarrow> (Inl (thrown_message e), [])
                     | Inr r \<Rightarrow> after [Settled request_id r]
                         (if wc_settle workflow request_id r then (json_response (Json_Text (JObj [(js ''ok'', JBool True)])) 200 [], [])
                          else refuse 409 ''no_such_pending_request'' [(''requestId'', JStr request_id)])))
           | _ \<Rightarrow> refuse 400 ''missing_request_id'' []))"

text \<open>\<open>None\<close> is \<open>null\<close>: not one of these, relay it.\<close>

definition internal_route :: "'h proxy_deps \<Rightarrow> request \<Rightarrow> jstring \<Rightarrow> handled" where
  "internal_route d rq path =
     (if rq_method rq = js ''POST'' \<and> path = js ''/internal/verification-callback'' then handle_callback d rq
      else case (if rq_method rq = js ''GET'' then segment_after ''/internal/sla/'' path else None) of
        Some slug \<Rightarrow> handle_sla_read d slug
      | None \<Rightarrow>
          (case (if rq_method rq = js ''GET'' then segment_after ''/internal/evidence/'' path else None) of
             Some i \<Rightarrow> handle_evidence_read d rq i
           | None \<Rightarrow> refuse 404 ''unknown_internal_route'' [(''detail'', JStr (rq_method rq @ [32] @ path))]))"

definition proxy_route :: "'h proxy_deps \<Rightarrow> request \<Rightarrow> handled option" where
  "proxy_route d rq =
     (let path = u_pathname (rq_url rq); get = (rq_method rq = js ''GET'') in
      if get \<and> path = js ''/healthz'' then Some (json_response (Json_Text (JObj [(js ''ok'', JBool True)])) 200 [], [])
      else if get \<and> path = js ''/services'' then Some (handle_services d rq)
      else case (if get then segment_after ''/services/'' path else None) of
        Some slug \<Rightarrow> Some (handle_service d slug)
      | None \<Rightarrow>
          if path \<noteq> js ''/internal'' \<and> \<not> starts_with path (js ''/internal/'') then None
          else Some (internal_route d rq path))"

section \<open>The unpaid leg\<close>

definition passthrough :: "'h proxy_deps \<Rightarrow> request \<Rightarrow> url \<Rightarrow> 8 word list option \<Rightarrow> handled" where
  "passthrough d rq upstream body =
     (let f = \<lparr>uf_url = upstream, uf_method = rq_method rq,
            uf_headers = forward_request_headers (map (\<lambda>(k, v). (k, One v)) (rq_headers rq)),
            uf_body = body, uf_manual_redirect = True\<rparr> in
      after [Fetched f]
        (case px_fetch d f of
           Inl m \<Rightarrow> refuse 502 ''upstream_unreachable'' [(''detail'', JStr m)]
         | Inr reply \<Rightarrow>
             (bind_r (ft_body reply) (\<lambda>bytes. new_response (Byte_Text bytes) (ft_status reply) (forward_response_headers (ft_headers reply))), [])))"

section \<open>The paid leg\<close>

definition challenge_headers :: "headers \<Rightarrow> headers" where
  "challenge_headers hs = filter (\<lambda>h. fst h \<notin> set (map js PAYMENT_HEADER_NAMES))
     (forward_request_headers (map (\<lambda>(k, v). (k, One v)) hs))"

definition failure_name :: "failure \<Rightarrow> string" where
  "failure_name f = (case f of TIMEOUT \<Rightarrow> ''workflow_timeout'' | TRIGGER_REJECTED \<Rightarrow> ''trigger_rejected'' | RUN_FAILED \<Rightarrow> ''run_failed'')"

definition failure_of :: "thrown \<Rightarrow> failure" where
  "failure_of e = (case e of Verification_Error f m \<Rightarrow> f | Other_Error m \<Rightarrow> RUN_FAILED)"

text \<open>The agent has paid: what went wrong, and the id to dispute it by.\<close>

definition paid_failure :: "jstring \<Rightarrow> thrown \<Rightarrow> handled" where
  "paid_failure request_id e =
     (json_response
        (error_body (failure_name (failure_of e)) [(''detail'', JStr (thrown_message e)), (''requestId'', JStr request_id), (''paid'', JBool True),
           (''advice'', js_str ''the payment settled; the response could not be delivered. Keep this requestId.'')])
        (if failure_of e = TIMEOUT then 504 else 502) [(js ''x-verdikt-request-id'', request_id)], [])"

definition verify_request_of ::
  "'h proxy_deps \<Rightarrow> request \<Rightarrow> service_record \<Rightarrow> url \<Rightarrow> string \<times> jstring \<Rightarrow> 8 word list option \<Rightarrow> decoded_payment \<Rightarrow> verify_request" where
  "verify_request_of d rq rec upstream payment_header body payment =
     \<lparr>vq_service_id = sr_service_id rec, vq_request_id = px_new_request_id d, vq_provider_url = px_href d upstream,
      vq_method = rq_method rq, vq_payment_header = snd payment_header, vq_payment_header_name = js (fst payment_header),
      vq_body_hex = body_to_hex body, vq_content_type = get_header (rq_headers rq) ''content-type'',
      vq_payer = dp_payer payment, vq_paid_amount = dec_int (dp_amount payment), vq_sla = sr_sla rec\<rparr>"

text \<open>What is kept for a dispute; a store that throws is only warned about.\<close>

definition evidence_actions ::
  "'h proxy_deps \<Rightarrow> request \<Rightarrow> service_record \<Rightarrow> url \<Rightarrow> 8 word list option \<Rightarrow> verification_result \<Rightarrow> action list" where
  "evidence_actions d rq rec upstream body result =
     (if px_evidence d \<noteq> None \<and> truthy (Some (vr_outcome result)) then
        [Stored_Evidence (px_new_request_id d)
           (build_envelope decode_text (px_new_request_id d) (sr_slug rec) (rq_method rq) (px_href d upstream) body result (px_now d))]
      else [])"

definition verdict_headers :: "proxy_config \<Rightarrow> jstring \<Rightarrow> verification_result \<Rightarrow> headers result" where
  "verdict_headers config request_id result =
     (let judged = truthy (Some (vr_outcome result)); written = truthy (Some (vr_tx result)) in
      bind_r (failure_detail_headers (vr_clauses result)) (\<lambda>broken.
      bind_r (if truthy (Some (vr_reason result)) then
                (case vr_reason result of JStr s \<Rightarrow> Inr [(js ''x-verdikt-fallback-reason'', header_safe s)] | _ \<Rightarrow> Inl type_error)
              else Inr []) (\<lambda>reason.
      Inr ([(js ''x-verdikt-verdict'', to_str (nullish (Some (vr_outcome result)) (js_str ''NONE''))),
            (js ''x-verdikt-mode'', value_text (vr_mode result)),
            (js ''x-verdikt-request-id'', request_id)] @
           (case cf_genlayer config of
              Some g \<Rightarrow> if judged then [(js ''x-verdikt-judge-chain-id'', num_str (gl_chain_id g)),
                                       (js ''x-verdikt-judge-address'', gl_judge_address g)] else []
            | None \<Rightarrow> []) @
           broken @
           (if written then [(js ''x-verdikt-tx'', to_str (vr_tx result))] else []) @
           (if judged \<and> \<not> written then [(js ''x-verdikt-verdict-unwritten'', js ''true'')] else []) @
           reason @
           (if vr_body_truncated result then [(js ''x-verdikt-body-truncated'', js ''true'')] else [])))))"

text \<open>\<open>{ ...v }\<close> of the headers the workflow sent back.\<close>

definition own_headers :: "json \<Rightarrow> headers" where
  "own_headers v = (case v of
     JObj ps \<Rightarrow> map (\<lambda>(k, w). (k, to_str w)) ps
   | JArr vs \<Rightarrow> zip (map dec [0..<length vs]) (map to_str vs)
   | JStr s \<Rightarrow> zip (map dec [0..<length s]) (map (\<lambda>c. [c]) s)
   | _ \<Rightarrow> [])"

definition deliver :: "proxy_config \<Rightarrow> jstring \<Rightarrow> verification_result \<Rightarrow> response result" where
  "deliver config request_id result =
     bind_r (verdict_headers config request_id result) (\<lambda>headers.
     new_response (Plain_Text (vr_body result)) (case vr_status result of Some n \<Rightarrow> to_status n | None \<Rightarrow> 502)
       (spread_headers (own_headers (vr_headers result)) headers))"

definition verify_payment ::
  "'h proxy_deps \<Rightarrow> request \<Rightarrow> service_record \<Rightarrow> workflow_client \<Rightarrow> url \<Rightarrow> string \<times> jstring \<Rightarrow> 8 word list option \<Rightarrow>
   decoded_payment \<Rightarrow> handled" where
  "verify_payment d rq rec workflow upstream payment_header body payment =
     (let q = verify_request_of d rq rec upstream payment_header body payment in
      after [Triggered q] (case wc_verify workflow q of
        Inl e \<Rightarrow> paid_failure (px_new_request_id d) e
      | Inr result \<Rightarrow>
          (deliver (px_config d) (px_new_request_id d) result, evidence_actions d rq rec upstream body result)))"

definition verified ::
  "'h proxy_deps \<Rightarrow> request \<Rightarrow> service_record \<Rightarrow> url \<Rightarrow> string \<times> jstring \<Rightarrow> 8 word list option \<Rightarrow> handled" where
  "verified d rq rec upstream payment_header body = (case px_workflow d of
     None \<Rightarrow> refuse 503 ''verification_unavailable''
       [(''detail'', js_str ''the proxy is not configured with a workflow endpoint, so no paid call can be verified'')]
   | Some workflow \<Rightarrow>
       (let probe = \<lparr>uf_url = upstream, uf_method = rq_method rq, uf_headers = challenge_headers (rq_headers rq),
              uf_body = body, uf_manual_redirect = False\<rparr> in
        after [Fetched probe]
          (case px_fetch d probe of
             Inl m \<Rightarrow> refuse 502 ''challenge_unavailable''
               [(''detail'', JStr (js ''could not fetch the provider's payment challenge to verify against: '' @ m))]
           | Inr reply \<Rightarrow>
               (let text = (case ft_body reply of Inr bytes \<Rightarrow> decode_text bytes | Inl _ \<Rightarrow> []);
                    accepts = accepts_of (decode_challenge (get_header (ft_headers reply) ''payment-required'') text) in
                case decode_payment (px_viem d) (Some (chain_reader (px_config d) (px_rpc d))) (snd payment_header) (Some accepts) of
                  Inl m \<Rightarrow> refuse 500 ''payment_undecodable'' [(''detail'', JStr m)]
                | Inr payment \<Rightarrow> verify_payment d rq rec workflow upstream payment_header body payment))))"

section \<open>handleRequest\<close>

definition relay :: "'h proxy_deps \<Rightarrow> request \<Rightarrow> service_record \<Rightarrow> url \<Rightarrow> handled" where
  "relay d rq rec upstream =
     (let body = (if rq_method rq = js ''GET'' \<or> rq_method rq = js ''HEAD'' then None else Some (rq_body rq)) in
      case payment_header_of (rq_headers rq) of
        Some payment_header \<Rightarrow> verified d rq rec upstream payment_header body
      | None \<Rightarrow> passthrough d rq upstream body)"

definition relay_service :: "'h proxy_deps \<Rightarrow> request \<Rightarrow> jstring \<Rightarrow> service_record \<Rightarrow> service_state \<Rightarrow> handled" where
  "relay_service d rq rest rec state = (case sr_url rec of
     None \<Rightarrow> refuse 502 ''no_endpoint'' [(''detail'', JStr (sr_name rec @ js '' has published no url record''))]
   | Some raw \<Rightarrow>
       if raw = [] then refuse 502 ''no_endpoint'' [(''detail'', JStr (sr_name rec @ js '' has published no url record''))]
       else case check_ownership (sr_owner rec) (ss_provider state) of
         Some (reason, detail) \<Rightarrow>
           (json_response (Json_Text (JObj [(js ''error'', js_str ''owner_mismatch''), (js ''reason'', JStr reason),
              (js ''detail'', JStr detail), (js ''service'', JStr (sr_name rec))])) 409 [(js ''x-verdikt-block'', reason)], [])
       | None \<Rightarrow>
           if ss_status state \<noteq> ACTIVE then
             refuse 503 ''service_not_active'' [(''status'', JStr (status_name (ss_status state))),
               (''detail'', JStr (if ss_status state = SUSPENDED then
                  js ''refunds drained this service'' @ [8217] @ js ''s bond; it is not routing until topped up''
                else js ''service is '' @ status_name (ss_status state)))]
           else case bind_r (assert_relayable_url (px_parse_url d) raw (cf_allow_private_upstream (px_config d)))
                       (\<lambda>base. join_upstream (px_resolve_url d) base rest (u_search (rq_url rq))) of
             Inl m \<Rightarrow> refuse 502 ''bad_upstream'' [(''detail'', JStr m)]
           | Inr upstream \<Rightarrow> relay d rq rec upstream)"

definition route_request :: "'h proxy_deps \<Rightarrow> request \<Rightarrow> handled" where
  "route_request d rq = (case route_of (rq_url rq) (px_config d) of
     None \<Rightarrow> refuse 404 ''unknown_service'' [(''detail'', js_str ''no valid service slug in the host or path'')]
   | Some (slug, rest) \<Rightarrow> after [Resolved slug]
       (case px_resolve d slug of
          Inl m \<Rightarrow> refuse 503 ''naming_layer_unavailable'' [(''detail'', JStr m)]
        | Inr rec \<Rightarrow> after [Read_Service (sr_service_id rec)]
            (case px_get_service d (sr_service_id rec) of
               Inl m \<Rightarrow> refuse 503 ''registry_unavailable'' [(''detail'', JStr m)]
             | Inr state \<Rightarrow>
                 if ss_status state = NONE then
                   refuse 404 ''unknown_service'' [(''slug'', JStr slug), (''detail'', JStr (slug @ js '' is not a registered service''))]
                 else relay_service d rq rest rec state)))"

definition handle_request :: "'h proxy_deps \<Rightarrow> request \<Rightarrow> handled" where
  "handle_request d rq =
     (case (if on_service_host (rq_url rq) (px_config d) then None else proxy_route d rq) of
        Some own \<Rightarrow> own
      | None \<Rightarrow> route_request d rq)"

section \<open>What reaches the provider\<close>

fun reaches_provider :: "action \<Rightarrow> bool" where
  "reaches_provider (Fetched f) = True"
| "reaches_provider (Triggered q) = True"
| "reaches_provider _ = False"

lemma after_simps [simp]: "fst (after acts h) = fst h" "snd (after acts h) = acts @ snd h"
  by (simp_all add: after_def)

lemma refuse_silent [simp]: "snd (refuse status e details) = []"
  by (simp add: refuse_def)

lemma own_routes_are_silent:
  assumes "proxy_route d rq = Some h" "a \<in> set (snd h)"
  shows "\<not> reaches_provider a"
proof -
  have own: "\<not> reaches_provider a" if "a \<in> set (snd (handle_services d rq))" for a
    using that by (auto simp: handle_services_def discovery_unavailable_def split: option.splits sum.splits)
  have one: "\<not> reaches_provider a" if "a \<in> set (snd (handle_service d s))" for a s
    using that by (auto simp: handle_service_def discovery_unavailable_def split: option.splits sum.splits)
  have sla: "\<not> reaches_provider a" if "a \<in> set (snd (handle_sla_read d s))" for a s
    using that by (auto simp: handle_sla_read_def split: option.splits sum.splits if_splits)
  have ev: "\<not> reaches_provider a" if "a \<in> set (snd (handle_evidence_read d rq i))" for a i
    using that by (auto simp: handle_evidence_read_def Let_def split: option.splits sum.splits if_splits)
  have cb: "\<not> reaches_provider a" if "a \<in> set (snd (handle_callback d rq))" for a
    using that by (auto simp: handle_callback_def split: option.splits sum.splits json.splits if_splits)
  have int: "\<not> reaches_provider a" if "a \<in> set (snd (internal_route d rq p))" for a p
    using that cb sla ev by (auto simp: internal_route_def split: option.splits if_splits)
  show ?thesis
    using assms own one int by (auto simp: proxy_route_def Let_def split: option.splits if_splits)
qed

lemma verified_actions:
  assumes "a \<in> set (snd (verified d rq rec upstream ph body))" "reaches_provider a"
  shows "px_workflow d \<noteq> None \<and>
    (a = Fetched \<lparr>uf_url = upstream, uf_method = rq_method rq, uf_headers = challenge_headers (rq_headers rq), uf_body = body, uf_manual_redirect = False\<rparr> \<or>
     (\<exists>accepts payment. decode_payment (px_viem d) (Some (chain_reader (px_config d) (px_rpc d))) (snd ph) (Some accepts) = Inr payment \<and>
        a = Triggered (verify_request_of d rq rec upstream ph body payment)))"
proof -
  have ev: "\<not> reaches_provider a" if "a \<in> set (evidence_actions d rq rec upstream body r)" for a r
    using that by (auto simp: evidence_actions_def split: if_splits)
  show ?thesis
    using assms ev
    by (auto simp: verified_def verify_payment_def paid_failure_def Let_def split: option.splits sum.splits)
qed

lemma relay_actions:
  assumes "a \<in> set (snd (relay d rq rec upstream))" "reaches_provider a"
  shows "case a of Fetched f \<Rightarrow> uf_url f = upstream
    | Triggered q \<Rightarrow> vq_provider_url q = px_href d upstream \<and> vq_service_id q = sr_service_id rec | _ \<Rightarrow> False"
proof (cases "payment_header_of (rq_headers rq)")
  case None
  then show ?thesis using assms by (auto simp: relay_def passthrough_def Let_def split: sum.splits)
next
  case (Some ph)
  then have "a \<in> set (snd (verified d rq rec upstream ph
      (if rq_method rq = js ''GET'' \<or> rq_method rq = js ''HEAD'' then None else Some (rq_body rq))))"
    using assms(1) by (simp add: relay_def Let_def)
  from verified_actions [OF this assms(2)] show ?thesis by (auto simp: verify_request_of_def)
qed

definition reserved_path :: "jstring \<Rightarrow> bool" where
  "reserved_path path \<longleftrightarrow> path = js ''/internal'' \<or> starts_with path (js ''/internal/'')"

text \<open>The service a request is relayed to: registered, active, owned by one party, at a public url.\<close>

definition relayable_service :: "'h proxy_deps \<Rightarrow> request \<Rightarrow> service_record \<Rightarrow> url \<Rightarrow> bool" where
  "relayable_service d rq rec upstream \<longleftrightarrow>
     (\<exists>slug rest state raw base.
        route_of (rq_url rq) (px_config d) = Some (slug, rest) \<and> slug_matches slug \<and>
        px_resolve d slug = Inr rec \<and> px_get_service d (sr_service_id rec) = Inr state \<and> ss_status state = ACTIVE \<and>
        check_ownership (sr_owner rec) (ss_provider state) = None \<and>
        sr_url rec = Some raw \<and> raw \<noteq> [] \<and>
        assert_relayable_url (px_parse_url d) raw (cf_allow_private_upstream (px_config d)) = Inr base \<and>
        join_upstream (px_resolve_url d) base rest (u_search (rq_url rq)) = Inr upstream)"

lemma route_of_slug: "route_of u config = Some (slug, rest) \<Longrightarrow> slug_matches slug"
  by (auto simp: route_of_def host_slug_def Let_def split: if_splits option.splits list.splits)

lemma relay_service_actions:
  assumes "a \<in> set (snd (relay_service d rq rest rec state))" "reaches_provider a"
  shows "\<exists>raw base upstream. ss_status state = ACTIVE \<and> check_ownership (sr_owner rec) (ss_provider state) = None \<and>
     sr_url rec = Some raw \<and> raw \<noteq> [] \<and>
     assert_relayable_url (px_parse_url d) raw (cf_allow_private_upstream (px_config d)) = Inr base \<and>
     join_upstream (px_resolve_url d) base rest (u_search (rq_url rq)) = Inr upstream \<and> a \<in> set (snd (relay d rq rec upstream))"
proof -
  obtain raw where raw: "sr_url rec = Some raw" "raw \<noteq> []"
    using assms by (cases "sr_url rec") (auto simp: relay_service_def split: if_splits)
  have own: "check_ownership (sr_owner rec) (ss_provider state) = None"
    using assms raw by (cases "check_ownership (sr_owner rec) (ss_provider state)") (auto simp: relay_service_def)
  have active: "ss_status state = ACTIVE" using assms raw own by (auto simp: relay_service_def split: if_splits)
  obtain base where base: "assert_relayable_url (px_parse_url d) raw (cf_allow_private_upstream (px_config d)) = Inr base"
    using assms raw own active by (cases "assert_relayable_url (px_parse_url d) raw (cf_allow_private_upstream (px_config d))") (auto simp: relay_service_def)
  obtain upstream where "join_upstream (px_resolve_url d) base rest (u_search (rq_url rq)) = Inr upstream"
    using assms raw own active base by (cases "join_upstream (px_resolve_url d) base rest (u_search (rq_url rq))") (auto simp: relay_service_def)
  then show ?thesis using assms raw own active base by (auto simp: relay_service_def)
qed

lemma route_request_actions:
  assumes "a \<in> set (snd (route_request d rq))" "reaches_provider a"
  shows "\<exists>rec upstream. relayable_service d rq rec upstream \<and> a \<in> set (snd (relay d rq rec upstream))"
proof -
  obtain slug rest where r: "route_of (rq_url rq) (px_config d) = Some (slug, rest)"
    using assms by (cases "route_of (rq_url rq) (px_config d)") (auto simp: route_request_def)
  obtain rec where rec: "px_resolve d slug = Inr rec"
    using assms r by (cases "px_resolve d slug") (auto simp: route_request_def)
  obtain state where state: "px_get_service d (sr_service_id rec) = Inr state"
    using assms r rec by (cases "px_get_service d (sr_service_id rec)") (auto simp: route_request_def)
  have "a \<in> set (snd (relay_service d rq rest rec state))"
    using assms r rec state by (auto simp: route_request_def split: if_splits)
  from relay_service_actions [OF this assms(2)] show ?thesis
    using r rec state route_of_slug [OF r] unfolding relayable_service_def by blast
qed

lemma handle_request_actions:
  assumes "a \<in> set (snd (handle_request d rq))" "reaches_provider a"
  shows "a \<in> set (snd (route_request d rq)) \<and> (on_service_host (rq_url rq) (px_config d) \<or> \<not> reserved_path (u_pathname (rq_url rq)))"
proof (cases "on_service_host (rq_url rq) (px_config d)")
  case True
  then show ?thesis using assms by (simp add: handle_request_def)
next
  case False
  then have none: "proxy_route d rq = None"
    using assms own_routes_are_silent [of d rq _ a] by (cases "proxy_route d rq") (auto simp: handle_request_def)
  then have "\<not> reserved_path (u_pathname (rq_url rq))"
    by (auto simp: proxy_route_def reserved_path_def Let_def split: option.splits if_splits)
  then show ?thesis using assms none False by (simp add: handle_request_def)
qed

section \<open>A concrete proxy\<close>

definition service_url :: "string \<Rightarrow> string \<Rightarrow> url" where
  "service_url host path = \<lparr>u_protocol = js ''https:'', u_hostname = js host, u_pathname = js path, u_search = [], u_rest = []\<rparr>"

definition example_config :: proxy_config where
  "example_config = \<lparr>cf_public_host = js ''verdikt.bond'', cf_ens_cache_ttl_ms = Fin 30000, cf_upstream_timeout_ms = Fin 30000,
     cf_allow_private_upstream = False, cf_callback_token = Some (js ''secret''), cf_workflow = None,
     cf_evidence_filing_window_ms = Fin 86400000, cf_evidence_adjudication_window_ms = Fin 86400000, cf_payment_rpc_urls = [],
     cf_genlayer = Some \<lparr>gl_chain_id = Fin 61997, gl_judge_address = js ''0xjudge''\<rparr>,
     cf_arc_rpc_url = None, cf_arc_address = None, cf_arc_deploy_block = None\<rparr>"

definition example_chain :: ens_chain where
  "example_chain = \<lparr>ch_namehash = (\<lambda>n. n), ch_dns_encode = (\<lambda>n. n),
     ch_resolve = (\<lambda>_ q. Inr (case q of Text_Call _ k \<Rightarrow> if k = js ''url'' then k else js ''0x'' | Addr_Call _ \<Rightarrow> js ''0x'', js ''0xresolver'')),
     ch_decode_text = (\<lambda>_. Inr (js ''https://api.example.com/v1'')), ch_decode_addr = (\<lambda>_. Inr []),
     ch_latest_owner = (\<lambda>_. Inr (js ''0xAB'')), ch_primary_name = (\<lambda>_. Inr None)\<rparr>"

definition example_env :: ens_env where
  "example_env = rc_env (example_call 0)\<lparr>ee_chain_at := (\<lambda>_. example_chain)\<rparr>"

definition example_record :: service_record where
  "example_record = example_fixture\<lparr>sr_backend := V2, sr_conformance := None, sr_resolved_at := 7\<rparr>"

definition paid_result :: verification_result where
  "paid_result = \<lparr>vr_outcome = js_str ''FAIL'', vr_mode = Some (js_str ''sla''), vr_reason = JNull,
     vr_clauses = JArr [JObj [(js ''id'', js_str ''fast''), (js ''type'', js_str ''latency''), (js ''pass'', JBool False),
       (js ''expected'', js_str ''<= 900 ms''), (js ''actual'', js_str ''1200 ms'')]],
     vr_tx = js_str ''0xfeed'', vr_status = Some (Fin 200), vr_headers = JObj [(js ''content-type'', js_str ''text/plain'')],
     vr_body = js ''sunny'', vr_body_truncated = False\<rparr>"

definition example_challenge :: json where
  "example_challenge = JObj [(js ''accepts'', JArr example_accepts)]"

definition example_deps :: "unit proxy_deps" where
  "example_deps = \<lparr>px_config = example_config,
     px_resolve = (\<lambda>slug. fst (resolve_call (proxy_lookup example_env example_config slug 0 7) Map.empty)),
     px_get_service = (\<lambda>_. Inr \<lparr>ss_status = ACTIVE, ss_provider = js ''0xab''\<rparr>), px_get_verdict = (\<lambda>_. Inr None),
     px_fetch = (\<lambda>f. Inr \<lparr>ft_status = 402, ft_headers = [(js ''payment-required'', base64url_encode (utf8 (stringify example_challenge)))], ft_body = Inr []\<rparr>),
     px_rpc = (\<lambda>_ _. Inl (js ''unreachable'')), px_viem = example_viem,
     px_workflow = Some \<lparr>wc_verify = (\<lambda>_. Inr paid_result), wc_settle = (\<lambda>i _. i = js ''0x2a'')\<rparr>,
     px_new_request_id = js ''0x2a'', px_marketplace = None, px_evidence = None,
     px_parse_url = (\<lambda>_. Some (service_url ''api.example.com'' ''/v1'')),
     px_resolve_url = (\<lambda>p base. Some (base\<lparr>u_pathname := p\<rparr>)), px_href = u_pathname, px_now = 0\<rparr>"

lemma example_reads:
  "ch_resolve example_chain n (Text_Call m (js ''url'')) = Inr (js ''url'', js ''0xresolver'')"
  "k \<noteq> ''url'' \<Longrightarrow> ch_resolve example_chain n (Text_Call m (js k)) = Inr (js ''0x'', js ''0xresolver'')"
  "ch_resolve example_chain n (Addr_Call m) = Inr (js ''0x'', js ''0xresolver'')"
  by (simp_all add: example_chain_def)

lemma example_resolved: "px_resolve example_deps (js ''weather'') = Inr example_record"
proof -
  have u: "js ''url'' \<noteq> js ''0x''" "js ''https://api.example.com/v1'' \<noteq> []" "js ''0xAB'' \<noteq> ZERO_ADDRESS"
    by (simp_all add: js_def ZERO_ADDRESS_def)
  have t: "read_text example_chain n ''url'' = Inr (Some (js ''https://api.example.com/v1''))"
    "k \<noteq> ''url'' \<Longrightarrow> read_text example_chain n k = Inr None" "read_addr example_chain n = Inr None"
    "read_owner example_chain i = Inr (Some (js ''0xAB''))" for n k i
    using u by (simp_all add: read_text_def read_addr_def resolve_data_def example_reads)
      (simp_all add: example_chain_def read_owner_def)
  have "resolve_through_universal_resolver example_chain (js ''weather'') (js ''weather.verdikt.eth'') (js ''0x01'') 7 = Inr example_record"
    by (simp add: resolve_through_universal_resolver_def t example_record_def example_fixture_def)
  then show ?thesis
    by (simp add: example_deps_def proxy_lookup_def resolve_call_def resolve_service_record_def service_id_of_def example_slug
      through_cache_def call_through_def cached_def fresh_record_def given_or_def record_name_def example_service_name
      example_env_def example_call_def)
qed

definition example_request :: request where
  "example_request = \<lparr>rq_method = js ''GET'', rq_url = service_url ''weather.verdikt.bond'' ''/today'', rq_params = [],
     rq_headers = [(js ''payment-signature'', example_header), (js ''accept'', js ''text/plain'')], rq_body = []\<rparr>"

lemma example_challenge_wire:
  "json_parse (utf8_decode (base64_decode (base64url_encode (utf8 (stringify example_challenge))))) = Inr example_challenge"
proof (rule wire_base64)
  have k: "list_all (\<lambda>k. \<not> array_index (js k)) [''accepts'', ''scheme'', ''network'', ''asset'', ''extra'', ''name'', ''version'']" by code_simp
  show "wire example_challenge" using k by (simp add: example_challenge_def example_accepts_def)
qed

lemma example_challenge_header: "base64url_encode (utf8 (stringify example_challenge)) \<noteq> []"
proof
  assume e: "base64url_encode (utf8 (stringify example_challenge)) = []"
  have "json_parse (utf8_decode (base64_decode [])) = Inl syntax_error" by code_simp
  then show False using example_challenge_wire unfolding e by simp
qed

lemma example_route:
  "on_service_host (rq_url example_request) example_config" "route_of (rq_url example_request) example_config = Some (js ''weather'', js ''today'')"
proof -
  have u: "rq_url example_request = service_url ''weather.verdikt.bond'' ''/today''" by (simp add: example_request_def)
  show "on_service_host (rq_url example_request) example_config" unfolding u by code_simp
  show "route_of (rq_url example_request) example_config = Some (js ''weather'', js ''today'')" unfolding u by code_simp
qed

lemma example_upstream:
  "assert_relayable_url (px_parse_url example_deps) (js ''https://api.example.com/v1'') False = Inr (service_url ''api.example.com'' ''/v1'')"
  "join_upstream (px_resolve_url example_deps) (service_url ''api.example.com'' ''/v1'') (js ''today'') [] =
     Inr (service_url ''api.example.com'' ''/v1/today'')"
proof -
  have p: "px_parse_url example_deps = (\<lambda>_. Some (service_url ''api.example.com'' ''/v1''))"
    "px_resolve_url example_deps = (\<lambda>p base. Some (base\<lparr>u_pathname := p\<rparr>))"
    by (simp_all add: example_deps_def)
  show "assert_relayable_url (px_parse_url example_deps) (js ''https://api.example.com/v1'') False = Inr (service_url ''api.example.com'' ''/v1'')"
    unfolding p by code_simp
  show "join_upstream (px_resolve_url example_deps) (service_url ''api.example.com'' ''/v1'') (js ''today'') [] =
     Inr (service_url ''api.example.com'' ''/v1/today'')"
    unfolding p by code_simp
qed

lemma example_payment_header: "payment_header_of (rq_headers example_request) = Some (''payment-signature'', example_header)"
  by (simp add: payment_header_of_def PAYMENT_HEADER_NAMES_def get_header_def example_request_def example_header_nonempty)

lemma example_accepts_offered:
  "accepts_of (decode_challenge (get_header [(js ''payment-required'', base64url_encode (utf8 (stringify example_challenge)))] ''payment-required'') t) =
   example_accepts"
  by (simp add: decode_challenge_def get_header_def example_challenge_header example_challenge_wire Let_def)
    (simp add: accepts_of_def example_challenge_def json_member_def member_def)

definition paid_query :: verify_request where
  "paid_query = verify_request_of example_deps example_request example_record (service_url ''api.example.com'' ''/v1/today'')
     (''payment-signature'', example_header) None \<lparr>dp_payer = js ''0xa'', dp_amount = 1000\<rparr>"

lemma example_owner: "check_ownership (sr_owner example_record) (js ''0xab'') = None"
  by code_simp

lemma example_paid_call: "Triggered paid_query \<in> set (snd (handle_request example_deps example_request))"
proof -
  let ?up = "service_url ''api.example.com'' ''/v1/today''"
  have fields: "px_config example_deps = example_config" "cf_allow_private_upstream example_config = False"
    "sr_url example_record = Some (js ''https://api.example.com/v1'')" "u_search (rq_url example_request) = []"
    "rq_method example_request = js ''GET''"
    by (simp_all add: example_deps_def example_config_def example_record_def example_fixture_def example_request_def service_url_def)
  have state: "px_get_service example_deps i = Inr \<lparr>ss_status = ACTIVE, ss_provider = js ''0xab''\<rparr>" for i
    by (simp_all add: example_deps_def)
  have dep: "px_viem example_deps = example_viem"
    "px_fetch example_deps f = Inr \<lparr>ft_status = 402, ft_headers = [(js ''payment-required'', base64url_encode (utf8 (stringify example_challenge)))], ft_body = Inr []\<rparr>"
    "px_workflow example_deps = Some \<lparr>wc_verify = (\<lambda>_. Inr paid_result), wc_settle = (\<lambda>i _. i = js ''0x2a'')\<rparr>" for f
    by (simp_all add: example_deps_def)
  have "Triggered paid_query \<in> set (snd (verified example_deps example_request example_record ?up (''payment-signature'', example_header) None))"
    by (simp add: verified_def dep Let_def example_accepts_offered example_payment_decoded verify_payment_def paid_query_def)
  then have "Triggered paid_query \<in> set (snd (relay example_deps example_request example_record ?up))"
    by (simp add: relay_def example_payment_header fields)
  then have "Triggered paid_query \<in> set (snd (relay_service example_deps example_request (js ''today'') example_record
      \<lparr>ss_status = ACTIVE, ss_provider = js ''0xab''\<rparr>))"
    by (simp add: relay_service_def fields example_owner example_upstream)
  then have "Triggered paid_query \<in> set (snd (route_request example_deps example_request))"
    by (simp add: route_request_def fields example_route state example_resolved)
  then show ?thesis by (simp add: handle_request_def fields example_route)
qed

section \<open>Properties\<close>





text \<open>The paid response: a result as the enclave reports it, with headers and status a response can carry.\<close>

definition printable :: "jstring \<Rightarrow> bool" where
  "printable s \<longleftrightarrow> list_all (\<lambda>c. 32 \<le> c \<and> c \<le> 126) s"

fun reported_clause :: "json \<Rightarrow> bool" where
  "reported_clause (JObj ps) = ((\<exists>i t e a. member ps ''id'' = Some (JStr i) \<and> member ps ''type'' = Some (JStr t) \<and>
     member ps ''expected'' = Some (JStr e) \<and> member ps ''actual'' = Some (JStr a)))"
| "reported_clause _ = False"

definition deliverable :: "verification_result \<Rightarrow> bool" where
  "deliverable r \<longleftrightarrow>
     (case vr_outcome r of JNull \<Rightarrow> True | JStr s \<Rightarrow> printable s | _ \<Rightarrow> False) \<and>
     (case vr_mode r of Some (JStr s) \<Rightarrow> printable s | _ \<Rightarrow> False) \<and>
     (case vr_reason r of JNull \<Rightarrow> True | JStr s \<Rightarrow> True | _ \<Rightarrow> False) \<and>
     (case vr_clauses r of JArr cs \<Rightarrow> list_all reported_clause cs | _ \<Rightarrow> False) \<and>
     (case vr_tx r of JNull \<Rightarrow> True | JStr s \<Rightarrow> printable s | _ \<Rightarrow> False) \<and>
     (case vr_headers r of JObj ps \<Rightarrow> list_all (\<lambda>h. header_ok h \<and> \<not> starts_with (fst h) (js ''x-verdikt-'')) (own_headers (JObj ps)) | _ \<Rightarrow> False) \<and>
     (case vr_status r of Some n \<Rightarrow> 200 \<le> to_status n \<and> to_status n \<le> 599 \<and> \<not> null_body_status (to_status n) | None \<Rightarrow> True)"

lemma first_broken_shaped:
  "list_all reported_clause cs \<Longrightarrow> first_broken cs = Inr (find (\<lambda>c. \<not> truthy (json_member c ''pass'')) cs)"
proof (induction cs)
  case (Cons c cs)
  then have "c \<noteq> JNull" by auto
  then show ?case using Cons by (simp add: property_def)
qed simp

lemma safe_property_text: "json_member v k = Some (JStr s) \<Longrightarrow> safe_property v k = Inr (header_safe s)"
  by (cases v) (auto simp: safe_property_def property_def json_member_def)

lemma failure_detail_headers_shaped:
  assumes "list_all reported_clause cs"
  shows "\<exists>hs. failure_detail_headers (JArr cs) = Inr hs \<and> list_all header_ok hs \<and>
     (case find (\<lambda>c. \<not> truthy (json_member c ''pass'')) cs of
        None \<Rightarrow> hs = []
      | Some c \<Rightarrow> map fst hs = [js ''x-verdikt-failed-clause'', js ''x-verdikt-failed-clause-type'', js ''x-verdikt-expected'', js ''x-verdikt-actual''] \<and>
          map_of hs (js ''x-verdikt-failed-clause'') = Some (case json_member c ''id'' of Some (JStr i) \<Rightarrow> header_safe i | _ \<Rightarrow> []))"
proof (cases "find (\<lambda>c. \<not> truthy (json_member c ''pass'')) cs")
  case None
  then show ?thesis using first_broken_shaped [OF assms] by (simp add: failure_detail_headers_def truthy_def)
next
  case (Some c)
  then have "reported_clause c" using assms by (auto simp: list_all_iff dest: find_SomeD)
  then obtain ps i t e a where c: "c = JObj ps" "member ps ''id'' = Some (JStr i)" "member ps ''type'' = Some (JStr t)"
    "member ps ''expected'' = Some (JStr e)" "member ps ''actual'' = Some (JStr a)" by (cases c) auto
  have names: "list_all token_unit (js ''x-verdikt-failed-clause'')" "list_all token_unit (js ''x-verdikt-failed-clause-type'')"
    "list_all token_unit (js ''x-verdikt-expected'')" "list_all token_unit (js ''x-verdikt-actual'')" by code_simp+
  have "failure_detail_headers (JArr cs) = Inr [(js ''x-verdikt-failed-clause'', header_safe i), (js ''x-verdikt-failed-clause-type'', header_safe t),
      (js ''x-verdikt-expected'', header_safe e), (js ''x-verdikt-actual'', header_safe a)]"
    using Some c first_broken_shaped [OF assms] by (simp add: failure_detail_headers_def truthy_def safe_property_text json_member_def)
  then show ?thesis using Some c names by (simp add: header_ok_def header_safe_value_ok json_member_def)
qed

lemma spread_headers_lookup: "map_of (spread_headers a b) k = (case map_of (rev b) k of Some v \<Rightarrow> Some v | None \<Rightarrow> map_of a k)"
proof (induction b arbitrary: a)
  case (Cons h b)
  then show ?case by (cases h) (auto simp: spread_headers_def assoc_put_lookup map_of_append split: option.splits)
qed (simp add: spread_headers_def)

lemma assoc_put_all: "P (k, v) \<Longrightarrow> list_all P ps \<Longrightarrow> list_all P (assoc_put k v ps)"
  by (induction ps) auto

lemma spread_headers_ok: "list_all header_ok a \<Longrightarrow> list_all header_ok b \<Longrightarrow> list_all header_ok (spread_headers a b)"
proof (induction b arbitrary: a)
  case (Cons h b)
  then show ?case by (cases h) (simp add: spread_headers_def assoc_put_all)
qed (simp add: spread_headers_def)

definition judge_named :: "proxy_config \<Rightarrow> bool" where
  "judge_named config \<longleftrightarrow> (case cf_genlayer config of None \<Rightarrow> True
     | Some g \<Rightarrow> printable (num_str (gl_chain_id g)) \<and> printable (gl_judge_address g))"

text \<open>The first promise the call broke, in the order of the SLA.\<close>

definition first_failing_clause :: "verification_result \<Rightarrow> json option" where
  "first_failing_clause r = (case vr_clauses r of JArr cs \<Rightarrow> find (\<lambda>c. \<not> truthy (json_member c ''pass'')) cs | _ \<Rightarrow> None)"

lemma header_ok_printable: "list_all token_unit (js n) \<Longrightarrow> n \<noteq> [] \<Longrightarrow> printable v \<Longrightarrow> header_ok (js n, v)"
  by (simp add: header_ok_def printable_def printable_value_ok)

definition VERDICT_HEADERS :: "string list" where
  "VERDICT_HEADERS = [''x-verdikt-verdict'', ''x-verdikt-mode'', ''x-verdikt-request-id'', ''x-verdikt-judge-chain-id'',
     ''x-verdikt-judge-address'', ''x-verdikt-failed-clause'', ''x-verdikt-failed-clause-type'', ''x-verdikt-expected'',
     ''x-verdikt-actual'', ''x-verdikt-tx'', ''x-verdikt-verdict-unwritten'', ''x-verdikt-fallback-reason'', ''x-verdikt-body-truncated'']"

lemma verdict_header_tokens: "n \<in> set VERDICT_HEADERS \<Longrightarrow> list_all token_unit (js n) \<and> n \<noteq> [] \<and> starts_with (js n) (js ''x-verdikt-'')"
proof -
  have "list_all (\<lambda>n. list_all token_unit (js n) \<and> n \<noteq> [] \<and> starts_with (js n) (js ''x-verdikt-'')) VERDICT_HEADERS"
    by (simp add: VERDICT_HEADERS_def token_unit_def is_digit_def js_def starts_with_def)
  then show "n \<in> set VERDICT_HEADERS \<Longrightarrow> ?thesis" by (simp add: list_all_iff)
qed

text \<open>Headers of ours: in the order of the list, none twice, each with a value a response can carry.\<close>

definition ours :: "headers \<Rightarrow> string list \<Rightarrow> bool" where
  "ours hs names \<longleftrightarrow> subseq (map fst hs) (map js names) \<and> list_all (\<lambda>h. header_value_ok (snd h)) hs"

lemma ours_append: "ours hs ms \<Longrightarrow> ours gs ns \<Longrightarrow> ours (hs @ gs) (ms @ ns)"
  by (simp add: ours_def list_emb_append_mono)

lemma ours_if: "(c \<Longrightarrow> ours hs ns) \<Longrightarrow> ours (if c then hs else []) ns"
  by (simp add: ours_def)

lemma subseq_distinct: "subseq xs ys \<Longrightarrow> distinct ys \<Longrightarrow> distinct xs"
proof (induction rule: list_emb.induct)
  case (list_emb_Cons2 x y xs ys)
  then show ?case using list_emb_set [of "(=)" xs ys x] by auto
qed auto

lemma ours_facts:
  assumes "ours hs VERDICT_HEADERS"
  shows "list_all header_ok hs" "distinct (map fst hs)" "list_all (\<lambda>h. starts_with (fst h) (js ''x-verdikt-'')) hs"
proof -
  have sub: "subseq (map fst hs) (map js VERDICT_HEADERS)" using assms by (simp add: ours_def)
  have name: "\<exists>n \<in> set VERDICT_HEADERS. fst h = js n" if "h \<in> set hs" for h
    using list_emb_set [OF sub, of "fst h"] that by auto
  have h: "starts_with (fst h) (js ''x-verdikt-'') \<and> header_ok h" if "h \<in> set hs" for h
  proof -
    obtain n where n: "n \<in> set VERDICT_HEADERS" "fst h = js n" using name [OF \<open>h \<in> set hs\<close>] by blast
    have "header_value_ok (snd h)" using assms that by (simp add: ours_def list_all_iff)
    then show ?thesis using verdict_header_tokens [OF n(1)] n(2) by (simp add: header_ok_def)
  qed
  show "list_all (\<lambda>h. starts_with (fst h) (js ''x-verdikt-'')) hs" "list_all header_ok hs"
    using h by (simp_all add: list_all_iff)
  have "distinct (map js VERDICT_HEADERS)" by (simp add: VERDICT_HEADERS_def)
  then show "distinct (map fst hs)" using sub subseq_distinct by blast
qed

lemma verdict_headers_shaped:
  assumes "deliverable r" "printable request_id" "judge_named config"
  shows "\<exists>hs. verdict_headers config request_id r = Inr hs \<and> ours hs VERDICT_HEADERS \<and>
     (js ''x-verdikt-verdict'', case vr_outcome r of JStr s \<Rightarrow> s | _ \<Rightarrow> js ''NONE'') \<in> set hs \<and>
     (case first_failing_clause r of None \<Rightarrow> True
      | Some c \<Rightarrow> (js ''x-verdikt-failed-clause'', case json_member c ''id'' of Some (JStr i) \<Rightarrow> header_safe i | _ \<Rightarrow> []) \<in> set hs)"
proof -
  obtain cs where cs: "vr_clauses r = JArr cs" "list_all reported_clause cs"
    using assms(1) by (auto simp: deliverable_def split: json.splits)
  define failing where "failing = find (\<lambda>c. \<not> truthy (json_member c ''pass'')) cs"
  define named where "named = (\<lambda>c. case json_member c ''id'' of Some (JStr i) \<Rightarrow> header_safe i | _ \<Rightarrow> [])"
  obtain broken where b: "failure_detail_headers (JArr cs) = Inr broken" "list_all header_ok broken"
    "case failing of None \<Rightarrow> broken = []
      | Some c \<Rightarrow> map fst broken = [js ''x-verdikt-failed-clause'', js ''x-verdikt-failed-clause-type'', js ''x-verdikt-expected'', js ''x-verdikt-actual''] \<and>
          map_of broken (js ''x-verdikt-failed-clause'') = Some (named c)"
    using failure_detail_headers_shaped [OF cs(2)] unfolding failing_def named_def by blast
  have broken: "ours broken [''x-verdikt-failed-clause'', ''x-verdikt-failed-clause-type'', ''x-verdikt-expected'', ''x-verdikt-actual'']"
    using b(2,3) by (cases failing) (auto simp: ours_def list_all_iff header_ok_def)
  obtain mode where mode: "vr_mode r = Some (JStr mode)" "printable mode"
    using assms(1) by (auto simp: deliverable_def split: option.splits json.splits)
  have out: "printable (to_str (nullish (Some (vr_outcome r)) (js_str ''NONE'')))"
    "to_str (nullish (Some (vr_outcome r)) (js_str ''NONE'')) = (case vr_outcome r of JStr s \<Rightarrow> s | _ \<Rightarrow> js ''NONE'')"
    using assms(1) by (auto simp: deliverable_def nullish_def printable_def js_def split: json.splits)
  have first: "ours [(js ''x-verdikt-verdict'', to_str (nullish (Some (vr_outcome r)) (js_str ''NONE''))),
      (js ''x-verdikt-mode'', mode), (js ''x-verdikt-request-id'', request_id)]
      [''x-verdikt-verdict'', ''x-verdikt-mode'', ''x-verdikt-request-id'']"
    using out(1) mode(2) assms(2) by (simp add: ours_def printable_def printable_value_ok)
  define judge where "judge = (case cf_genlayer config of
      Some g \<Rightarrow> if truthy (Some (vr_outcome r)) then [(js ''x-verdikt-judge-chain-id'', num_str (gl_chain_id g)),
                               (js ''x-verdikt-judge-address'', gl_judge_address g)] else []
    | None \<Rightarrow> [])"
  have judge: "ours judge [''x-verdikt-judge-chain-id'', ''x-verdikt-judge-address'']"
    using assms(3) by (auto simp: judge_def judge_named_def ours_def printable_def printable_value_ok split: option.splits)
  define reason where "reason = (case vr_reason r of JStr s \<Rightarrow> (if s = [] then [] else [(js ''x-verdikt-fallback-reason'', header_safe s)]) | _ \<Rightarrow> [])"
  have reason_eq: "(if truthy (Some (vr_reason r)) then
        (case vr_reason r of JStr s \<Rightarrow> Inr [(js ''x-verdikt-fallback-reason'', header_safe s)] | _ \<Rightarrow> Inl type_error)
      else Inr []) = Inr reason"
    using assms(1) by (auto simp: deliverable_def reason_def truthy_def split: json.splits)
  have reason: "ours reason [''x-verdikt-fallback-reason'']"
    by (auto simp: reason_def ours_def header_safe_value_ok split: json.splits)
  have tx: "ours (if truthy (Some (vr_tx r)) then [(js ''x-verdikt-tx'', to_str (vr_tx r))] else []) [''x-verdikt-tx'']"
    using assms(1) by (auto simp: deliverable_def ours_def printable_def printable_value_ok truthy_def split: json.splits)
  have flag: "ours (if c then [(js n, js ''true'')] else []) [n]" for c n
    using printable_value_ok [of "js ''true''"] by (simp add: ours_def js_def)
  define hs where "hs = [(js ''x-verdikt-verdict'', to_str (nullish (Some (vr_outcome r)) (js_str ''NONE''))),
      (js ''x-verdikt-mode'', mode), (js ''x-verdikt-request-id'', request_id)] @ judge @ broken @
      (if truthy (Some (vr_tx r)) then [(js ''x-verdikt-tx'', to_str (vr_tx r))] else []) @
      (if truthy (Some (vr_outcome r)) \<and> \<not> truthy (Some (vr_tx r)) then [(js ''x-verdikt-verdict-unwritten'', js ''true'')] else []) @
      reason @ (if vr_body_truncated r then [(js ''x-verdikt-body-truncated'', js ''true'')] else [])"
  have "verdict_headers config request_id r = Inr hs"
    unfolding hs_def verdict_headers_def Let_def cs(1) b(1) bind_r_simps reason_eq by (simp add: judge_def mode(1) value_text_def)
  moreover have "ours hs VERDICT_HEADERS"
    using ours_append [OF first ours_append [OF judge ours_append [OF broken ours_append [OF tx ours_append [OF flag
      ours_append [OF reason flag]]]]]]
    by (simp add: VERDICT_HEADERS_def hs_def)
  moreover have "(js ''x-verdikt-verdict'', case vr_outcome r of JStr s \<Rightarrow> s | _ \<Rightarrow> js ''NONE'') \<in> set hs"
    by (simp add: hs_def out(2))
  moreover have "(case first_failing_clause r of None \<Rightarrow> True
      | Some c \<Rightarrow> (js ''x-verdikt-failed-clause'', case json_member c ''id'' of Some (JStr i) \<Rightarrow> header_safe i | _ \<Rightarrow> []) \<in> set hs)"
    using b(3) by (auto simp: hs_def first_failing_clause_def cs(1) failing_def [symmetric] named_def split: option.splits dest: map_of_SomeD)
  ultimately show ?thesis by (intro exI [of _ hs] conjI)
qed

lemma deliver_shaped:
  assumes "deliverable r" "printable request_id" "judge_named config"
  shows "\<exists>response. deliver config request_id r = Inr response \<and>
     rp_content response = Plain_Text (vr_body r) \<and>
     rp_status response = (case vr_status r of Some n \<Rightarrow> to_status n | None \<Rightarrow> 502) \<and>
     map_of (rp_headers response) (js ''x-verdikt-verdict'') = Some (case vr_outcome r of JStr s \<Rightarrow> s | _ \<Rightarrow> js ''NONE'') \<and>
     (case first_failing_clause r of None \<Rightarrow> True
      | Some c \<Rightarrow> map_of (rp_headers response) (js ''x-verdikt-failed-clause'') =
          Some (case json_member c ''id'' of Some (JStr i) \<Rightarrow> header_safe i | _ \<Rightarrow> []))"
proof -
  obtain hs where hs: "verdict_headers config request_id r = Inr hs" "ours hs VERDICT_HEADERS"
    "(js ''x-verdikt-verdict'', case vr_outcome r of JStr s \<Rightarrow> s | _ \<Rightarrow> js ''NONE'') \<in> set hs"
    "case first_failing_clause r of None \<Rightarrow> True
     | Some c \<Rightarrow> (js ''x-verdikt-failed-clause'', case json_member c ''id'' of Some (JStr i) \<Rightarrow> header_safe i | _ \<Rightarrow> []) \<in> set hs"
    using verdict_headers_shaped [OF assms] by blast
  have own: "list_all header_ok (own_headers (vr_headers r))"
    using assms(1) by (auto simp: deliverable_def list_all_iff split: json.splits)
  have status: "200 \<le> (case vr_status r of Some n \<Rightarrow> to_status n | None \<Rightarrow> 502) \<and> (case vr_status r of Some n \<Rightarrow> to_status n | None \<Rightarrow> 502) \<le> 599 \<and>
      \<not> null_body_status (case vr_status r of Some n \<Rightarrow> to_status n | None \<Rightarrow> 502)"
    using assms(1) by (auto simp: deliverable_def null_body_status_def split: option.splits)
  have look: "map_of (spread_headers (own_headers (vr_headers r)) hs) k = Some v" if "(k, v) \<in> set hs" for k v
  proof -
    have "distinct (map fst (rev hs))" using ours_facts(2) [OF hs(2)] by (simp add: rev_map [symmetric])
    then have "map_of (rev hs) k = Some v" using that by simp
    then show ?thesis by (simp add: spread_headers_lookup)
  qed
  show ?thesis
    using hs(3,4) look spread_headers_ok [OF own ours_facts(1) [OF hs(2)]] status
    by (auto simp: deliver_def hs(1) new_response_def split: option.splits)
qed

text \<open>
  What was paid for is delivered: for a result as the enclave reports it, the response is built (no
  exception), carries the provider's own status and the body unchanged, names the verdict it got, and
  names the first promise that was broken in the order of the SLA, if one was.
\<close>

theorem paid_payload_is_delivered:
  assumes "deliverable r" "printable request_id" "judge_named config"
  shows "\<exists>response. deliver config request_id r = Inr response \<and>
     rp_content response = Plain_Text (vr_body r) \<and>
     rp_status response = (case vr_status r of Some n \<Rightarrow> to_status n | None \<Rightarrow> 502) \<and>
     map_of (rp_headers response) (js ''x-verdikt-verdict'') = Some (case vr_outcome r of JStr s \<Rightarrow> s | _ \<Rightarrow> js ''NONE'') \<and>
     (case first_failing_clause r of None \<Rightarrow> True
      | Some c \<Rightarrow> map_of (rp_headers response) (js ''x-verdikt-failed-clause'') =
          Some (case json_member c ''id'' of Some (JStr i) \<Rightarrow> header_safe i | _ \<Rightarrow> []))"
  using deliver_shaped [OF assms] .

theorem paid_payload_is_delivered_witness:
  "\<exists>response. deliver example_config (js ''0x2a'') paid_result = Inr response \<and> rp_content response = Plain_Text (js ''sunny'') \<and>
     map_of (rp_headers response) (js ''x-verdikt-failed-clause'') = Some (js ''fast'')"
proof -
  have tok: "header_ok (js ''content-type'', js ''text/plain'')" "\<not> starts_with (js ''content-type'') (js ''x-verdikt-'')"
    "to_status (Fin 200) = 200" "printable (js ''0x2a'')" "printable (num_str (Fin 61997))" "header_safe (js ''fast'') = js ''fast''"
    by code_simp+
  have p: "printable (js ''FAIL'')" "printable (js ''sla'')" "printable (js ''0xfeed'')" "printable (js ''0xjudge'')"
    by (simp_all add: printable_def js_def)
  have d: "deliverable paid_result" using tok p
    by (simp add: deliverable_def paid_result_def member_def own_headers_def null_body_status_def)
  have j: "judge_named example_config" using tok p by (simp add: judge_named_def example_config_def)
  have f: "first_failing_clause paid_result = Some (JObj [(js ''id'', js_str ''fast''), (js ''type'', js_str ''latency''), (js ''pass'', JBool False),
       (js ''expected'', js_str ''<= 900 ms''), (js ''actual'', js_str ''1200 ms'')])"
    by (simp add: first_failing_clause_def paid_result_def truthy_def json_member_def member_def)
  show ?thesis
    using paid_payload_is_delivered [OF d tok(4) j] tok(6) unfolding f
    by (auto simp: json_member_def member_def paid_result_def)
qed


definition example_unpaid :: request where
  "example_unpaid = example_request\<lparr>rq_headers := [(js ''accept'', js ''text/plain'')]\<rparr>"

definition plain_deps :: "unit proxy_deps" where
  "plain_deps = example_deps\<lparr>px_fetch := (\<lambda>_. Inr \<lparr>ft_status = 402, ft_headers = [], ft_body = Inr [112, 97, 121]\<rparr>)\<rparr>"


end
