(* ===== verification/Enclave_Verify.thy ===== *)
theory Enclave_Verify imports Proxy_Router Runner_Gateway Relay_Payload begin

text \<open>
  The per-request workflow, \<open>cre/workflows/verify/workflow.ts\<close>: the agent's payment replayed inside the
  enclave, judged, reported to Arc and pushed back to the proxy; with the trigger of
  \<open>proxy/src/verification.js\<close> that starts it. The CRE SDK and viem are the record \<open>enclave\<close>; what they
  throw is \<open>Inl\<close>.
\<close>

section \<open>The trigger\<close>

definition nullable :: "jstring option \<Rightarrow> json" where
  "nullable v = (case v of Some s \<Rightarrow> JStr s | None \<Rightarrow> JNull)"

definition trigger_input :: "verify_request \<Rightarrow> jstring \<Rightarrow> json" where
  "trigger_input q callback_url = JObj
     [(js ''serviceId'', JStr (vq_service_id q)), (js ''requestId'', JStr (vq_request_id q)),
      (js ''providerUrl'', JStr (vq_provider_url q)), (js ''method'', JStr (vq_method q)),
      (js ''paymentHeader'', JStr (vq_payment_header q)), (js ''paymentHeaderName'', JStr (vq_payment_header_name q)),
      (js ''bodyHex'', nullable (vq_body_hex q)), (js ''contentType'', nullable (vq_content_type q)),
      (js ''payer'', JStr (vq_payer q)), (js ''paidAmountMinorUnits'', JStr (vq_paid_amount q)),
      (js ''sla'', nullable (vq_sla q)), (js ''callbackUrl'', JStr callback_url)]"

definition trigger_envelope :: "jstring \<Rightarrow> jstring \<Rightarrow> verify_request \<Rightarrow> json" where
  "trigger_envelope workflow_id callback_url q = JObj
     [(js ''jsonrpc'', js_str ''2.0''), (js ''id'', JStr (vq_request_id q)), (js ''method'', js_str ''workflows.execute''),
      (js ''params'', JObj [(js ''input'', trigger_input q callback_url),
         (js ''workflow'', JObj [(js ''workflowID'', JStr workflow_id)])])]"

definition trigger_text :: "jstring \<Rightarrow> jstring \<Rightarrow> verify_request \<Rightarrow> jstring" where
  "trigger_text workflow_id callback_url q = stringify (trigger_envelope workflow_id callback_url q)"

section \<open>The request as the enclave reads it\<close>

text \<open>An input of the declared type \<open>VerifyRequest\<close>; \<open>method\<close> and \<open>callbackUrl\<close> may be left out.\<close>

record workflow_input =
  wi_request :: verify_request
  wi_callback_url :: "jstring option"

definition text_field :: "json \<Rightarrow> string \<Rightarrow> jstring option" where
  "text_field v k = (case json_member v k of Some (JStr s) \<Rightarrow> Some s | _ \<Rightarrow> None)"

definition null_field :: "json \<Rightarrow> string \<Rightarrow> jstring option option" where
  "null_field v k = (case json_member v k of Some (JStr s) \<Rightarrow> Some (Some s) | Some JNull \<Rightarrow> Some None | _ \<Rightarrow> None)"

definition read_input :: "json \<Rightarrow> workflow_input option" where
  "read_input v =
     Option.bind (text_field v ''serviceId'') (\<lambda>service_id.
     Option.bind (text_field v ''requestId'') (\<lambda>request_id.
     Option.bind (text_field v ''providerUrl'') (\<lambda>provider_url.
     Option.bind (text_field v ''paymentHeader'') (\<lambda>payment_header.
     Option.bind (text_field v ''paymentHeaderName'') (\<lambda>payment_header_name.
     Option.bind (null_field v ''bodyHex'') (\<lambda>body_hex.
     Option.bind (null_field v ''contentType'') (\<lambda>content_type.
     Option.bind (text_field v ''payer'') (\<lambda>payer.
     Option.bind (text_field v ''paidAmountMinorUnits'') (\<lambda>paid_amount.
     Option.bind (null_field v ''sla'') (\<lambda>sla.
     Some \<lparr>wi_request = \<lparr>vq_service_id = service_id, vq_request_id = request_id, vq_provider_url = provider_url,
             vq_method = (case text_field v ''method'' of Some m \<Rightarrow> m | None \<Rightarrow> js ''GET''),
             vq_payment_header = payment_header, vq_payment_header_name = payment_header_name,
             vq_body_hex = body_hex, vq_content_type = content_type, vq_payer = payer, vq_paid_amount = paid_amount,
             vq_sla = sla\<rparr>,
           wi_callback_url = text_field v ''callbackUrl''\<rparr>))))))))))"

section \<open>What the enclave calls\<close>

record replayed_call =
  rp_url :: jstring
  rp_method :: jstring
  rp_body :: "8 word list option"
  rp_header_values :: "(jstring \<times> jstring) list"

record provider_reply =
  pr_status :: nat
  pr_body :: jstring
  pr_content_type :: "jstring option"

text \<open>What \<open>VerdiktRegistry.onReport\<close> decodes.\<close>

record verdict_report =
  vp_service_id :: jstring
  vp_request_id :: jstring
  vp_outcome :: nat
  vp_payer :: jstring
  vp_paid_amount :: int
  vp_failed_clause :: jstring

record write_answer =
  wa_success :: bool
  wa_tx :: jstring \<comment> \<open>the hash, or the zero word where there is none\<close>
  wa_error :: jstring

record enclave =
  en_token :: "jstring result"
  en_chain_name :: jstring
  en_known_chain :: bool
  en_send :: "replayed_call \<Rightarrow> provider_reply result"
  en_latency_ms :: int
  en_keccak :: "8 word list \<Rightarrow> jstring"
  en_to_bytes :: "jstring \<Rightarrow> 8 word list"
  en_write :: "verdict_report \<Rightarrow> write_answer result"

datatype enclave_action =
    Replayed replayed_call
  | Reported verdict_report
  | Pushed jstring "jstring option" jstring \<comment> \<open>url, bearer token, payload\<close>

definition report_clause :: "enclave \<Rightarrow> jstring option \<Rightarrow> jstring" where
  "report_clause en i = (case i of None \<Rightarrow> NO_CLAUSE | Some c \<Rightarrow> en_keccak en (en_to_bytes en c))"

definition replay_of :: "verify_request \<Rightarrow> 8 word list option \<Rightarrow> replayed_call" where
  "replay_of q body = \<lparr>rp_url = vq_provider_url q, rp_method = vq_method q, rp_body = body,
     rp_header_values = (case vq_content_type q of
       Some t \<Rightarrow> if t = [] then [(vq_payment_header_name q, vq_payment_header q)]
                 else assoc_put (js ''Content-Type'') t [(vq_payment_header_name q, vq_payment_header q)]
     | None \<Rightarrow> [(vq_payment_header_name q, vq_payment_header q)])\<rparr>"

text \<open>Anything thrown before the reply is read is a transport failure.\<close>

definition replay :: "enclave \<Rightarrow> verify_request \<Rightarrow> provider_reply result \<times> enclave_action list" where
  "replay en q = (case request_body_field (vq_body_hex q) of
     Inl m \<Rightarrow> (Inl m, [])
   | Inr body \<Rightarrow> (en_send en (replay_of q body), [Replayed (replay_of q body)]))"

definition seen_by :: "enclave \<Rightarrow> provider_reply result \<Rightarrow> int \<Rightarrow> seen" where
  "seen_by en reply amount =
     \<lparr>s_status = (case reply of Inr r \<Rightarrow> JNum (Fin (of_nat (pr_status r))) | Inl _ \<Rightarrow> JNull), s_headers = None,
      s_body_text = (case reply of Inr r \<Rightarrow> Some (pr_body r) | Inl _ \<Rightarrow> None),
      s_latency_ms = JNum (jsint (en_latency_ms en)), s_paid_amount = BigInt amount,
      s_transport_error = (case reply of Inr _ \<Rightarrow> None | Inl _ \<Rightarrow> Some (js ''request failed inside the enclave''))\<rparr>"

section \<open>The result\<close>

definition clause_json :: "clause_result \<Rightarrow> json" where
  "clause_json c = JObj [(js ''id'', JStr (r_id c)), (js ''type'', JStr (r_type c)), (js ''pass'', JBool (r_pass c)),
     (js ''expected'', JStr (r_expected c)), (js ''actual'', JStr (r_actual c))]"

definition mode_text :: "judgement_mode \<Rightarrow> jstring" where
  "mode_text m = (case m of Sla_Mode \<Rightarrow> js ''sla'' | Status_Only_Mode \<Rightarrow> js ''status-only'')"

definition relay_members :: "provider_reply result \<Rightarrow> members" where
  "relay_members reply = (case reply of
     Inr r \<Rightarrow> [(js ''status'', JNum (Fin (of_nat (pr_status r)))),
       (js ''headers'', JObj (case pr_content_type r of
          Some t \<Rightarrow> if t = [] then [] else [(js ''content-type'', JStr t)] | None \<Rightarrow> [])),
       (js ''body'', JStr (pr_body r))]
   | Inl _ \<Rightarrow> [(js ''status'', JNull), (js ''headers'', JObj []), (js ''body'', JStr [])])"

definition verdict_members :: "judgement \<Rightarrow> json \<Rightarrow> members" where
  "verdict_members j tx =
     [(js ''outcome'', case j_outcome j of Some r \<Rightarrow> JStr (outcome_name r) | None \<Rightarrow> JNull), (js ''mode'', JStr (mode_text (j_mode j))),
      (js ''reason'', nullable (j_fallback_reason j)), (js ''clauses'', JArr (map clause_json (j_clauses j))), (js ''tx'', tx)]"

definition finish :: "verify_request \<Rightarrow> jstring option \<Rightarrow> jstring option \<Rightarrow> members \<Rightarrow> jstring \<times> enclave_action list" where
  "finish q callback_url token result =
     (let payload = fit_to_budget (vq_request_id q) result RESPONSE_BUDGET_BYTES in
      (payload, case callback_url of
         Some url \<Rightarrow> if url = [] then []
           else [Pushed url (case token of Some t \<Rightarrow> if t = [] then None else Some t | None \<Rightarrow> None) payload]
       | None \<Rightarrow> []))"

definition report_of :: "enclave \<Rightarrow> verify_request \<Rightarrow> judgement \<Rightarrow> outcome \<Rightarrow> int \<Rightarrow> verdict_report result" where
  "report_of en q j r amount = bind_r (outcome_to_ordinal (outcome_name r)) (\<lambda>n.
     Inr \<lparr>vp_service_id = vq_service_id q, vp_request_id = vq_request_id q, vp_outcome = n, vp_payer = vq_payer q,
       vp_paid_amount = amount, vp_failed_clause = report_clause en (failed_clause_of j)\<rparr>)"

definition callback_token :: "enclave \<Rightarrow> jstring option \<Rightarrow> jstring option result" where
  "callback_token en callback_url = (case callback_url of
     Some url \<Rightarrow> if url = [] then Inr None else bind_r (en_token en) (\<lambda>t. Inr (Some t))
   | None \<Rightarrow> Inr None)"

text \<open>What follows the judgement: report it unless there is no verdict, then finish.\<close>

definition conclude ::
  "enclave \<Rightarrow> workflow_input \<Rightarrow> jstring option \<Rightarrow> provider_reply result \<Rightarrow> judgement \<Rightarrow> int \<Rightarrow> jstring result \<times> enclave_action list" where
  "conclude en inp token reply j amount =
     (let q = wi_request inp; done_with = (\<lambda>result. finish q (wi_callback_url inp) token (relay_members reply @ result)) in
      case j_outcome j of
        None \<Rightarrow> (let f = done_with (verdict_members j JNull) in (Inr (fst f), snd f))
      | Some r \<Rightarrow> (case report_of en q j r amount of
          Inl m \<Rightarrow> (Inl m, [])
        | Inr report \<Rightarrow> (case en_write en report of
            Inl m \<Rightarrow> (Inl m, [Reported report])
          | Inr w \<Rightarrow>
              (let f = done_with (if wa_success w
                   then verdict_members j (JStr (wa_tx w)) @ [(js ''writeError'', JNull)]
                   else verdict_members j JNull @ [(js ''writeError'', JStr (wa_error w))]) in
               (Inr (fst f), Reported report # snd f)))))"

definition on_verify_request :: "enclave \<Rightarrow> workflow_input \<Rightarrow> jstring result \<times> enclave_action list" where
  "on_verify_request en inp = (case callback_token en (wi_callback_url inp) of
     Inl m \<Rightarrow> (Inl m, [])
   | Inr token \<Rightarrow>
       if \<not> en_known_chain en then (Inl (js ''unknown chain selector name: '' @ en_chain_name en), [])
       else
         (let (reply, acts) = replay en (wi_request inp) in
          case to_bigint (Some (JStr (vq_paid_amount (wi_request inp)))) of
            Inl m \<Rightarrow> (Inl m, acts)
          | Inr amount \<Rightarrow>
              (case judge (vq_sla (wi_request inp)) (observation_from (seen_by en reply amount)) of
                 Inl m \<Rightarrow> (Inl m, acts)
               | Inr j \<Rightarrow>
                   (let f = conclude en inp token reply j amount in (fst f, acts @ snd f)))))"

section \<open>The trigger, read back\<close>

lemma not_index: "k \<noteq> [] \<Longrightarrow> \<not> is_digit (of_char (hd k)) \<Longrightarrow> \<not> array_index (js k)"
  by (cases k) (auto simp: array_index_def decimal_integer_def js_def)

lemma named_keys: "list_all (\<lambda>k. \<not> array_index (js k)) [''serviceId'', ''requestId'', ''providerUrl'', ''method'', ''paymentHeader'',
   ''paymentHeaderName'', ''bodyHex'', ''contentType'', ''payer'', ''paidAmountMinorUnits'', ''sla'', ''callbackUrl'', ''jsonrpc'', ''id'',
   ''params'', ''input'', ''workflow'', ''workflowID'', ''status'', ''headers'', ''body'', ''content-type'', ''outcome'', ''mode'', ''reason'',
   ''clauses'', ''tx'', ''writeError'', ''bodyTruncated'', ''type'', ''pass'', ''expected'', ''actual'']"
  by (simp add: not_index is_digit_def)

lemmas key_names = named_keys [unfolded list.pred_inject]

lemma wire_trigger: "wire (trigger_envelope workflow_id callback_url q)" "wire (trigger_input q callback_url)"
proof -
  have n: "wire (nullable v)" for v by (simp add: nullable_def split: option.split)
  show "wire (trigger_input q callback_url)" using key_names n by (simp add: trigger_input_def)
  then show "wire (trigger_envelope workflow_id callback_url q)" using key_names by (simp add: trigger_envelope_def)
qed

lemma text_field_nullable: "null_field v k = Some x \<longleftrightarrow> json_member v k = Some (nullable x)"
  by (cases x) (auto simp: null_field_def nullable_def split: option.splits json.splits)

lemma read_trigger_input: "read_input (trigger_input q url) = Some \<lparr>wi_request = q, wi_callback_url = Some url\<rparr>"
proof -
  have m: "map (\<lambda>k. json_member (trigger_input q url) k) [''serviceId'', ''requestId'', ''providerUrl'', ''method'', ''paymentHeader'',
       ''paymentHeaderName'', ''bodyHex'', ''contentType'', ''payer'', ''paidAmountMinorUnits'', ''sla'', ''callbackUrl''] =
     map Some [JStr (vq_service_id q), JStr (vq_request_id q), JStr (vq_provider_url q), JStr (vq_method q), JStr (vq_payment_header q),
       JStr (vq_payment_header_name q), nullable (vq_body_hex q), nullable (vq_content_type q), JStr (vq_payer q),
       JStr (vq_paid_amount q), nullable (vq_sla q), JStr url]"
    by (simp add: trigger_input_def json_member_def member_def)
  have nf: "json_member v k = Some (nullable x) \<Longrightarrow> null_field v k = Some x" for v k x by (simp add: text_field_nullable)
  show ?thesis using m by (simp add: read_input_def text_field_def nf)
qed

section \<open>The payload, read back\<close>

lemma fit_to_budget_cut:
  "\<exists>k \<le> length (result_body result). fit_to_budget request_id result budget =
     serialize request_id result (take k (result_body result)) (k < length (result_body result))"
proof (cases "int (utf8_length (serialize request_id result (result_body result) False)) \<le> budget")
  case True
  then show ?thesis by (intro exI [of _ "length (result_body result)"]) (simp add: fit_to_budget_def)
next
  case False
  then show ?thesis using fit_loop_prefix [OF refl, where request_id = request_id and result = result and body = "result_body result" and t = False and n = FIT_ATTEMPTS and budget = budget]
    by (simp add: fit_to_budget_def Let_def)
qed

definition reply_body :: "provider_reply result \<Rightarrow> jstring" where
  "reply_body reply = (case reply of Inr r \<Rightarrow> pr_body r | Inl _ \<Rightarrow> [])"

lemma relay_members_split:
  "\<exists>s h. relay_members reply = [(js ''status'', s), (js ''headers'', h), (js ''body'', JStr (reply_body reply))]"
  by (auto simp: relay_members_def reply_body_def split: sum.splits)

lemma fold_put_append:
  "distinct (map fst (acc @ ps)) \<Longrightarrow> list_all (\<lambda>p. \<not> array_index (fst p)) ps \<Longrightarrow> fold (\<lambda>(k, v). obj_put k v) ps acc = acc @ ps"
proof (induction ps arbitrary: acc)
  case (Cons p ps)
  then have "obj_put (fst p) (snd p) acc = acc @ [p]" by (simp add: obj_put_new)
  then show ?case using Cons by (simp add: case_prod_beta)
qed simp

lemma obj_put_mid: "k \<notin> fst ` set a \<Longrightarrow> k \<notin> fst ` set b \<Longrightarrow> obj_put k v (a @ (k, w) # b) = a @ (k, v) # b"
proof -
  assume k: "k \<notin> fst ` set a" "k \<notin> fst ` set b"
  have "k \<notin> fst ` set xs \<Longrightarrow> map (\<lambda>p. if fst p = k then (k, v) else p) xs = xs" for xs
    by (induction xs) auto
  then show ?thesis using k by (simp add: obj_put_def has_own_def object_keys_def)
qed

lemma serialize_result:
  assumes "relay_members reply = [(js ''status'', s), (js ''headers'', h), (js ''body'', JStr b)]"
    and "map fst extra = [] \<or> map fst extra = [js ''writeError'']"
  shows "serialize request_id (relay_members reply @ verdict_members j tx @ extra) body flag = stringify (JObj
    ([(js ''requestId'', JStr request_id), (js ''status'', s), (js ''headers'', h), (js ''body'', JStr body)] @
     (verdict_members j tx @ extra) @ [(js ''bodyTruncated'', JBool flag)]))"
proof -
  define vs where "vs = verdict_members j tx @ extra"
  define hs where "hs = [(js ''requestId'', JStr request_id), (js ''status'', s), (js ''headers'', h)]"
  have keys: "map fst vs = map js [''outcome'', ''mode'', ''reason'', ''clauses'', ''tx''] @ map fst extra"
    by (simp add: vs_def verdict_members_def)
  have d: "distinct (map fst (hs @ (js ''body'', JStr b) # vs))" "js ''bodyTruncated'' \<notin> set (map fst (hs @ (js ''body'', JStr b) # vs))"
    using assms(2) unfolding map_append list.map keys by (auto simp: hs_def)
  have i: "list_all (\<lambda>k. \<not> array_index k) (map fst vs)" unfolding keys using assms(2) key_names by auto
  have "fold (\<lambda>(k, v). obj_put k v) (relay_members reply @ vs) [(js ''requestId'', JStr request_id)] = hs @ (js ''body'', JStr b) # vs"
    using fold_put_append [of "[(js ''requestId'', JStr request_id)]" "relay_members reply @ vs"] d(1) i key_names
    unfolding assms(1) by (simp add: hs_def list_all_iff)
  moreover have "obj_put (js ''body'') (JStr body) (hs @ (js ''body'', JStr b) # vs) = hs @ (js ''body'', JStr body) # vs"
    using d(1) by (intro obj_put_mid) auto
  moreover have "obj_put (js ''bodyTruncated'') (JBool flag) (hs @ (js ''body'', JStr body) # vs) =
      (hs @ (js ''body'', JStr body) # vs) @ [(js ''bodyTruncated'', JBool flag)]"
    using d(2) key_names by (intro obj_put_new) auto
  ultimately show ?thesis unfolding serialize_def vs_def [symmetric] by (simp add: hs_def)
qed

lemma result_body_result: "result_body (relay_members reply @ extra) = reply_body reply"
  using relay_members_split [of reply] by (auto simp: result_body_def member_def)

lemma clause_json_wire: "wire (clause_json c)"
  using key_names by (simp add: clause_json_def)

definition enclave_result :: "provider_reply result \<Rightarrow> judgement \<Rightarrow> json \<Rightarrow> nat \<Rightarrow> verification_result" where
  "enclave_result reply j tx k =
     \<lparr>vr_outcome = (case j_outcome j of Some r \<Rightarrow> JStr (outcome_name r) | None \<Rightarrow> JNull), vr_mode = Some (JStr (mode_text (j_mode j))),
      vr_reason = nullable (j_fallback_reason j), vr_clauses = JArr (map clause_json (j_clauses j)), vr_tx = tx,
      vr_status = (case reply of Inr r \<Rightarrow> Some (Fin (of_nat (pr_status r))) | Inl _ \<Rightarrow> None),
      vr_headers = JObj (case reply of
        Inr r \<Rightarrow> (case pr_content_type r of Some t \<Rightarrow> if t = [] then [] else [(js ''content-type'', JStr t)] | None \<Rightarrow> [])
      | Inl _ \<Rightarrow> []),
      vr_body = take k (reply_body reply), vr_body_truncated = (k < length (reply_body reply))\<rparr>"

lemma decode_text_object: "wire (JObj ps) \<Longrightarrow> json_parse (decode_text (utf8 (stringify (JObj ps)))) = Inr (JObj ps)"
proof -
  have "take 3 (utf8 (stringify (JObj ps))) \<noteq> [239, 187, 191]"
    by (simp add: js_def high_surrogate_def low_surrogate_def utf8_point_def)
  then show "wire (JObj ps) \<Longrightarrow> ?thesis" unfolding decode_text_def by (simp only: if_False wire_utf8)
qed

definition small_status :: "provider_reply result \<Rightarrow> bool" where
  "small_status reply \<longleftrightarrow> (case reply of Inr r \<Rightarrow> pr_status r < 2 ^ 53 | Inl _ \<Rightarrow> True)"

lemma payload_reads_back:
  assumes status: "small_status reply" and tx: "tx = JNull \<or> (\<exists>t. tx = JStr t)"
    and extra: "extra = [] \<or> (\<exists>e. extra = [(js ''writeError'', e)] \<and> (e = JNull \<or> (\<exists>m. e = JStr m)))"
  shows "\<exists>v. json_parse (decode_text (utf8 (serialize request_id (relay_members reply @ verdict_members j tx @ extra)
       (take k (reply_body reply)) (k < length (reply_body reply))))) = Inr v \<and>
     json_member v ''requestId'' = Some (JStr request_id) \<and> parse_workflow_result v = Inr (enclave_result reply j tx k)"
proof -
  obtain s h where rel: "relay_members reply = [(js ''status'', s), (js ''headers'', h), (js ''body'', JStr (reply_body reply))]"
    using relay_members_split by blast
  define hs where "hs = [(js ''requestId'', JStr request_id), (js ''status'', s), (js ''headers'', h),
      (js ''body'', JStr (take k (reply_body reply)))]"
  define ps where "ps = hs @ (verdict_members j tx @ extra) @ [(js ''bodyTruncated'', JBool (k < length (reply_body reply)))]"
  have fst_extra: "map fst extra = [] \<or> map fst extra = [js ''writeError'']" using extra by auto
  have ser: "serialize request_id (relay_members reply @ verdict_members j tx @ extra) (take k (reply_body reply))
      (k < length (reply_body reply)) = stringify (JObj ps)"
    unfolding ps_def hs_def by (rule serialize_result [OF rel fst_extra])
  have keys: "map fst ps = map js [''requestId'', ''status'', ''headers'', ''body'', ''outcome'', ''mode'', ''reason'', ''clauses'', ''tx''] @
      map fst extra @ [js ''bodyTruncated'']"
    by (simp add: ps_def hs_def verdict_members_def)
  have ws: "wire s" using rel status reads_back_nat by (auto simp: relay_members_def small_status_def split: sum.splits)
  have wh: "wire h" using rel key_names by (auto simp: relay_members_def split: sum.splits option.splits)
  have wn: "wire (nullable x)" for x by (simp add: nullable_def split: option.split)
  have wv: "list_all (\<lambda>p. wire (snd p)) (verdict_members j tx)"
    using tx wn by (auto simp: verdict_members_def clause_json_wire split: option.split)
  have w: "wire (JObj ps)"
  proof -
    have "distinct (map fst ps)" unfolding keys using fst_extra by auto
    moreover have "list_all (\<lambda>k. \<not> array_index k) (map fst ps)" unfolding keys using fst_extra key_names by auto
    moreover have "list_all (\<lambda>p. wire (snd p)) ps" using extra ws wh wv by (auto simp: ps_def hs_def)
    ultimately show ?thesis by (simp add: list_all_iff)
  qed
  have m: "member ps ''requestId'' = Some (JStr request_id)" "member ps ''status'' = Some s" "member ps ''headers'' = Some h"
    "member ps ''body'' = Some (JStr (take k (reply_body reply)))"
    by (simp_all add: ps_def hs_def member_def)
  have v: "member ps ''outcome'' = Some (case j_outcome j of Some r \<Rightarrow> JStr (outcome_name r) | None \<Rightarrow> JNull)"
    "member ps ''mode'' = Some (JStr (mode_text (j_mode j)))" "member ps ''reason'' = Some (nullable (j_fallback_reason j))"
    "member ps ''clauses'' = Some (JArr (map clause_json (j_clauses j)))" "member ps ''tx'' = Some tx"
    by (simp_all add: ps_def hs_def member_def verdict_members_def)
  have t: "member ps ''bodyTruncated'' = Some (JBool (k < length (reply_body reply)))"
    using extra by (auto simp: ps_def hs_def member_def verdict_members_def)
  have n: "nullish (Some (nullable x)) JNull = nullable x" "nullish (Some tx) JNull = tx" for x
    using tx by (auto simp: nullish_def nullable_def split: option.split)
  have o': "nullish (Some (case x of Some r \<Rightarrow> JStr (outcome_name r) | None \<Rightarrow> JNull)) JNull =
      (case x of Some r \<Rightarrow> JStr (outcome_name r) | None \<Rightarrow> JNull)" for x
    by (simp add: nullish_def split: option.split)
  have sh: "(case s of JNum n \<Rightarrow> Some n | _ \<Rightarrow> None) = vr_status (enclave_result reply j tx k)"
    "nullish (Some h) (JObj []) = vr_headers (enclave_result reply j tx k)"
    using rel by (auto simp: relay_members_def enclave_result_def nullish_def split: sum.splits option.splits)
  have "parse_workflow_result (JObj ps) = Inr (enclave_result reply j tx k)"
    using sh unfolding parse_workflow_result_def by (simp add: m v t n o') (simp add: enclave_result_def nullish_def)
  moreover have "json_member (JObj ps) ''requestId'' = Some (JStr request_id)" using m(1) by (simp add: json_member_def)
  ultimately show ?thesis using decode_text_object [OF w] ser by auto
qed

section \<open>What one run does\<close>

text \<open>The replay, the amount and the judgement that a run goes through.\<close>

definition judged :: "enclave \<Rightarrow> verify_request \<Rightarrow> int \<Rightarrow> judgement result" where
  "judged en q amount = judge (vq_sla q) (observation_from (seen_by en (fst (replay en q)) amount))"

fun reports :: "enclave_action list \<Rightarrow> verdict_report list" where
  "reports [] = []"
| "reports (Reported r # as) = r # reports as"
| "reports (_ # as) = reports as"

lemma reports_append: "reports (as @ bs) = reports as @ reports bs"
  by (induction as rule: reports.induct) simp_all

lemma replay_reports: "reports (snd (replay en q)) = []"
  by (simp add: replay_def split: sum.split)

lemma finish_reports: "reports (snd (finish q url token result)) = []"
  by (simp add: finish_def Let_def split: option.split)

lemma run_cases:
  assumes "on_verify_request en inp = (Inr payload, acts)"
  obtains token amount j where "to_bigint (Some (JStr (vq_paid_amount (wi_request inp)))) = Inr amount"
    "judged en (wi_request inp) amount = Inr j"
    "conclude en inp token (fst (replay en (wi_request inp))) j amount = (Inr payload, drop (length (snd (replay en (wi_request inp)))) acts)"
    "acts = snd (replay en (wi_request inp)) @ drop (length (snd (replay en (wi_request inp)))) acts"
proof -
  obtain token where token: "callback_token en (wi_callback_url inp) = Inr token"
    using assms by (cases "callback_token en (wi_callback_url inp)") (auto simp: on_verify_request_def)
  obtain amount where amount: "to_bigint (Some (JStr (vq_paid_amount (wi_request inp)))) = Inr amount"
    using assms token by (cases "to_bigint (Some (JStr (vq_paid_amount (wi_request inp))))") (auto simp: on_verify_request_def case_prod_beta split: if_splits)
  obtain j where j: "judged en (wi_request inp) amount = Inr j"
    using assms token amount by (cases "judged en (wi_request inp) amount") (auto simp: on_verify_request_def judged_def case_prod_beta split: if_splits)
  let ?f = "conclude en inp token (fst (replay en (wi_request inp))) j amount"
  have "payload = payload" "fst ?f = Inr payload" "acts = snd (replay en (wi_request inp)) @ snd ?f"
    using assms token amount j by (auto simp: on_verify_request_def judged_def case_prod_beta Let_def split: if_splits)
  then show thesis using that [OF amount j, of token] by (simp add: prod_eq_iff)
qed

text \<open>A provider's reply that a response can carry.\<close>

definition answerable :: "provider_reply result \<Rightarrow> bool" where
  "answerable reply \<longleftrightarrow> (case reply of
     Inr r \<Rightarrow> 200 \<le> pr_status r \<and> pr_status r \<le> 599 \<and> \<not> null_body_status (pr_status r) \<and>
       (case pr_content_type r of Some t \<Rightarrow> header_value_ok t | None \<Rightarrow> True)
   | Inl _ \<Rightarrow> True)"

definition plain_hashes :: "enclave \<Rightarrow> bool" where
  "plain_hashes en \<longleftrightarrow> (\<forall>report. case en_write en report of Inr w \<Rightarrow> printable (wa_tx w) | Inl _ \<Rightarrow> True)"

lemma conclude_cases:
  assumes "conclude en inp token reply j amount = (Inr payload, acts)"
  obtains tx extra where "payload = fit_to_budget (vq_request_id (wi_request inp)) (relay_members reply @ verdict_members j tx @ extra) RESPONSE_BUDGET_BYTES"
    "tx = JNull \<or> (\<exists>t. tx = JStr t \<and> (plain_hashes en \<longrightarrow> printable t))"
    "extra = [] \<or> (\<exists>e. extra = [(js ''writeError'', e)] \<and> (e = JNull \<or> (\<exists>m. e = JStr m)))"
    "reports acts = (case j_outcome j of None \<Rightarrow> []
      | Some r \<Rightarrow> [\<lparr>vp_service_id = vq_service_id (wi_request inp), vp_request_id = vq_request_id (wi_request inp),
          vp_outcome = (case r of PASS \<Rightarrow> 0 | FAIL \<Rightarrow> 1 | DOWN \<Rightarrow> 2), vp_payer = vq_payer (wi_request inp),
          vp_paid_amount = amount, vp_failed_clause = report_clause en (failed_clause_of j)\<rparr>])"
proof (cases "j_outcome j")
  case None
  then show thesis using assms that [of JNull "[]"] finish_reports by (auto simp: conclude_def Let_def finish_def)
next
  case (Some r)
  have ordinal: "outcome_to_ordinal (outcome_name r) = Inr (case r of PASS \<Rightarrow> 0 | FAIL \<Rightarrow> 1 | DOWN \<Rightarrow> 2)"
    by (cases r) (simp_all add: outcome_to_ordinal_def OUTCOME_ORDINAL_def outcome_name_def)
  obtain report where report: "report_of en (wi_request inp) j r amount = Inr report"
    by (simp add: report_of_def ordinal)
  then obtain w where w: "en_write en report = Inr w"
    using assms Some by (cases "en_write en report") (auto simp: conclude_def Let_def)
  show thesis
  proof (cases "wa_success w")
    case True
    then show thesis
      using assms Some report w that [of "JStr (wa_tx w)" "[(js ''writeError'', JNull)]"] finish_reports
        spec [of "\<lambda>report. case en_write en report of Inr w \<Rightarrow> printable (wa_tx w) | Inl _ \<Rightarrow> True" report]
      by (auto simp: plain_hashes_def conclude_def Let_def finish_def report_of_def ordinal)
  next
    case False
    then show thesis
      using assms Some report w that [of JNull "[(js ''writeError'', JStr (wa_error w))]"] finish_reports
      by (auto simp: conclude_def Let_def finish_def report_of_def ordinal)
  qed
qed

section \<open>The answer of a run\<close>

lemma first_failing_of_result:
  "first_failing_clause (enclave_result reply j tx k) = map_option clause_json (find (\<lambda>c. \<not> r_pass c) (j_clauses j))"
proof -
  have "\<not> truthy (json_member (clause_json c) ''pass'') \<longleftrightarrow> \<not> r_pass c" for c
    by (simp add: clause_json_def json_member_def member_def truthy_def)
  then have "(\<lambda>c. \<not> truthy (json_member c ''pass'')) \<circ> clause_json = (\<lambda>c. \<not> r_pass c)" by (simp add: fun_eq_iff)
  moreover have "find P (map f cs) = map_option f (find (P \<circ> f) cs)" for P :: "json \<Rightarrow> bool" and f :: "clause_result \<Rightarrow> json" and cs
    by (induction cs) auto
  ultimately show ?thesis by (simp add: first_failing_clause_def enclave_result_def)
qed

lemma clause_json_id: "json_member (clause_json c) ''id'' = Some (JStr (r_id c))"
  by (simp add: clause_json_def json_member_def member_def)

lemma to_status_nat: "n \<le> 599 \<Longrightarrow> to_status (Fin (of_nat n)) = n"
  by (simp add: to_status_def)

lemma result_deliverable:
  assumes "answerable reply" "tx = JNull \<or> (\<exists>t. tx = JStr t \<and> printable t)"
  shows "deliverable (enclave_result reply j tx k)"
proof -
  have o1: "case (case j_outcome j of Some r \<Rightarrow> JStr (outcome_name r) | None \<Rightarrow> JNull) of JNull \<Rightarrow> True | JStr s \<Rightarrow> printable s | _ \<Rightarrow> False"
    by (auto simp: outcome_name_def printable_def js_def split: option.split outcome.split)
  have m: "printable (mode_text (j_mode j))"
    by (simp add: mode_text_def printable_def js_def split: judgement_mode.split)
  have c: "list_all reported_clause (map clause_json (j_clauses j))"
    by (simp add: list_all_iff clause_json_def member_def)
  have ct: "list_all token_unit (js ''content-type'')" "\<not> starts_with (js ''content-type'') (js ''x-verdikt-'')"
    by (simp_all add: token_unit_def is_digit_def js_def starts_with_def)
  have r: "case nullable (j_fallback_reason j) of JNull \<Rightarrow> True | JStr s \<Rightarrow> True | _ \<Rightarrow> False"
    by (simp add: nullable_def split: option.split)
  show ?thesis
    unfolding deliverable_def enclave_result_def verification_result.simps
    using assms o1 m c r ct
    by (auto simp: answerable_def own_headers_def header_ok_def to_status_nat split: sum.splits option.splits)
qed

lemma run_concludes:
  assumes "on_verify_request en inp = (Inr payload, acts)" "small_status (fst (replay en (wi_request inp)))"
  obtains amount j tx k v where "judged en (wi_request inp) amount = Inr j"
    "to_bigint (Some (JStr (vq_paid_amount (wi_request inp)))) = Inr amount"
    "k \<le> length (reply_body (fst (replay en (wi_request inp))))"
    "tx = JNull \<or> (\<exists>t. tx = JStr t \<and> (plain_hashes en \<longrightarrow> printable t))"
    "json_parse (decode_text (utf8 payload)) = Inr v" "json_member v ''requestId'' = Some (JStr (vq_request_id (wi_request inp)))"
    "parse_workflow_result v = Inr (enclave_result (fst (replay en (wi_request inp))) j tx k)"
    "reports acts = (case j_outcome j of None \<Rightarrow> []
      | Some r \<Rightarrow> [\<lparr>vp_service_id = vq_service_id (wi_request inp), vp_request_id = vq_request_id (wi_request inp),
          vp_outcome = (case r of PASS \<Rightarrow> 0 | FAIL \<Rightarrow> 1 | DOWN \<Rightarrow> 2), vp_payer = vq_payer (wi_request inp),
          vp_paid_amount = amount, vp_failed_clause = report_clause en (failed_clause_of j)\<rparr>])"
proof -
  obtain token amount j where run: "to_bigint (Some (JStr (vq_paid_amount (wi_request inp)))) = Inr amount"
    "judged en (wi_request inp) amount = Inr j"
    "conclude en inp token (fst (replay en (wi_request inp))) j amount = (Inr payload, drop (length (snd (replay en (wi_request inp)))) acts)"
    "acts = snd (replay en (wi_request inp)) @ drop (length (snd (replay en (wi_request inp)))) acts"
    using run_cases [OF assms(1)] by blast
  let ?reply = "fst (replay en (wi_request inp))"
  obtain tx extra where c: "payload = fit_to_budget (vq_request_id (wi_request inp)) (relay_members ?reply @ verdict_members j tx @ extra) RESPONSE_BUDGET_BYTES"
    "tx = JNull \<or> (\<exists>t. tx = JStr t \<and> (plain_hashes en \<longrightarrow> printable t))" "extra = [] \<or> (\<exists>e. extra = [(js ''writeError'', e)] \<and> (e = JNull \<or> (\<exists>m. e = JStr m)))"
    "reports (drop (length (snd (replay en (wi_request inp)))) acts) = (case j_outcome j of None \<Rightarrow> []
      | Some r \<Rightarrow> [\<lparr>vp_service_id = vq_service_id (wi_request inp), vp_request_id = vq_request_id (wi_request inp),
          vp_outcome = (case r of PASS \<Rightarrow> 0 | FAIL \<Rightarrow> 1 | DOWN \<Rightarrow> 2), vp_payer = vq_payer (wi_request inp),
          vp_paid_amount = amount, vp_failed_clause = report_clause en (failed_clause_of j)\<rparr>])"
    using conclude_cases [OF run(3)] by blast
  obtain k where k: "k \<le> length (reply_body ?reply)" "payload = serialize (vq_request_id (wi_request inp)) (relay_members ?reply @ verdict_members j tx @ extra)
      (take k (reply_body ?reply)) (k < length (reply_body ?reply))"
    using fit_to_budget_cut [of "relay_members ?reply @ verdict_members j tx @ extra"] c(1) unfolding result_body_result by blast
  have tx: "tx = JNull \<or> (\<exists>t. tx = JStr t)" using c(2) by blast
  have "reports acts = reports (drop (length (snd (replay en (wi_request inp)))) acts)"
    by (subst run(4)) (simp add: reports_append replay_reports)
  with c(4) payload_reads_back [OF assms(2) tx c(3), of "vq_request_id (wi_request inp)" j k] k run(1,2) c(2) show thesis
    using that [of amount j k tx] by auto
qed

lemma callback_settles:
  assumes "cf_callback_token (px_config d) = Some token" "token \<noteq> []" "px_workflow d = Some workflow"
    and "get_header (rq_headers rq) ''authorization'' = Some (js ''Bearer '' @ token)"
    and "json_parse (decode_text (rq_body rq)) = Inr v" "json_member v ''requestId'' = Some (JStr i)" "parse_workflow_result v = Inr r"
  shows "snd (handle_callback d rq) = [Settled i r]"
proof -
  have "bearer_matches (Some (js ''Bearer '' @ token)) token" by (simp add: bearer_matches_def starts_with_def js_def)
  then show ?thesis using assms by (simp add: handle_callback_def)
qed

section \<open>Properties\<close>

text \<open>
  C2: The chain, the proxy and the agent hear the same verdict. When a run of the workflow returns, its payload,
  posted to the callback with the shared token, settles the wait of that very request with a result that carries
  the outcome of the enclave's judgement and the provider's body (the whole of it, or a prefix that is marked as
  cut); the first failing clause of that result is the judged one; and the run reported to Arc exactly when
  there was a verdict, once, with that outcome, the hash of that clause and the ids, payer and amount of the request.
\<close>

theorem chain_and_callback_agree:
  assumes "on_verify_request en inp = (Inr payload, acts)" "small_status (fst (replay en (wi_request inp)))"
    and "cf_callback_token (px_config d) = Some token" "token \<noteq> []" "px_workflow d = Some workflow"
    and "get_header (rq_headers rq) ''authorization'' = Some (js ''Bearer '' @ token)" "rq_body rq = utf8 payload"
  shows "\<exists>amount j r k. to_bigint (Some (JStr (vq_paid_amount (wi_request inp)))) = Inr amount \<and>
     judged en (wi_request inp) amount = Inr j \<and>
     snd (handle_callback d rq) = [Settled (vq_request_id (wi_request inp)) r] \<and>
     vr_outcome r = (case j_outcome j of Some res \<Rightarrow> JStr (outcome_name res) | None \<Rightarrow> JNull) \<and>
     k \<le> length (reply_body (fst (replay en (wi_request inp)))) \<and> vr_body r = take k (reply_body (fst (replay en (wi_request inp)))) \<and>
     vr_body_truncated r = (k < length (reply_body (fst (replay en (wi_request inp))))) \<and>
     Option.bind (first_failing_clause r) (\<lambda>c. json_member c ''id'') = map_option JStr (failed_clause_of j) \<and>
     reports acts = (case j_outcome j of None \<Rightarrow> []
       | Some res \<Rightarrow> [\<lparr>vp_service_id = vq_service_id (wi_request inp), vp_request_id = vq_request_id (wi_request inp),
           vp_outcome = (case res of PASS \<Rightarrow> 0 | FAIL \<Rightarrow> 1 | DOWN \<Rightarrow> 2), vp_payer = vq_payer (wi_request inp),
           vp_paid_amount = amount, vp_failed_clause = report_clause en (failed_clause_of j)\<rparr>])"
proof -
  obtain amount j tx k v where run: "judged en (wi_request inp) amount = Inr j"
    "to_bigint (Some (JStr (vq_paid_amount (wi_request inp)))) = Inr amount" "k \<le> length (reply_body (fst (replay en (wi_request inp))))"
    "json_parse (decode_text (utf8 payload)) = Inr v" "json_member v ''requestId'' = Some (JStr (vq_request_id (wi_request inp)))"
    "parse_workflow_result v = Inr (enclave_result (fst (replay en (wi_request inp))) j tx k)"
    "reports acts = (case j_outcome j of None \<Rightarrow> []
       | Some res \<Rightarrow> [\<lparr>vp_service_id = vq_service_id (wi_request inp), vp_request_id = vq_request_id (wi_request inp),
           vp_outcome = (case res of PASS \<Rightarrow> 0 | FAIL \<Rightarrow> 1 | DOWN \<Rightarrow> 2), vp_payer = vq_payer (wi_request inp),
           vp_paid_amount = amount, vp_failed_clause = report_clause en (failed_clause_of j)\<rparr>])"
    using run_concludes [OF assms(1,2)] by metis
  let ?r = "enclave_result (fst (replay en (wi_request inp))) j tx k"
  have "snd (handle_callback d rq) = [Settled (vq_request_id (wi_request inp)) ?r]"
    using run(4) unfolding assms(7) [symmetric] by (rule callback_settles [OF assms(3-6) _ run(5,6)])
  moreover have "Option.bind (first_failing_clause ?r) (\<lambda>c. json_member c ''id'') = map_option JStr (failed_clause_of j)"
    by (cases "find (\<lambda>c. \<not> r_pass c) (j_clauses j)") (simp_all add: first_failing_of_result failed_clause_of_def clause_json_id)
  ultimately show ?thesis using run(1,2,3,7)
    by (intro exI [of _ amount] exI [of _ j] exI [of _ ?r] exI [of _ k]) (simp add: enclave_result_def)
qed


section \<open>A run\<close>

definition example_enclave :: enclave where
  "example_enclave = \<lparr>en_token = Inr (js ''secret''), en_chain_name = js ''arc-testnet'', en_known_chain = True,
     en_send = (\<lambda>_. Inr \<lparr>pr_status = 503, pr_body = js ''busy'', pr_content_type = Some (js ''text/plain'')\<rparr>),
     en_latency_ms = 120, en_keccak = example_hash, en_to_bytes = utf8,
     en_write = (\<lambda>_. Inr \<lparr>wa_success = True, wa_tx = js ''0xfeed'', wa_error = []\<rparr>)\<rparr>"

definition example_input :: workflow_input where
  "example_input = \<lparr>wi_request = paid_query, wi_callback_url = Some (js ''https://verdikt.bond/internal/verification-callback'')\<rparr>"

lemma paid_query_fields:
  "vq_body_hex paid_query = None" "vq_sla paid_query = None" "vq_paid_amount paid_query = js ''1000''" "vq_request_id paid_query = js ''0x2a''"
  by (simp_all add: paid_query_def verify_request_of_def body_to_hex_def example_record_def example_fixture_def example_deps_def)
    code_simp

lemma example_amount: "to_bigint (Some (js_str ''1000'')) = Inr 1000"
  by code_simp

lemma example_reply: "fst (replay example_enclave paid_query) =
    Inr \<lparr>pr_status = 503, pr_body = js ''busy'', pr_content_type = Some (js ''text/plain'')\<rparr>"
  by (simp add: replay_def paid_query_fields request_body_field_def example_enclave_def)

definition example_seen_down :: "int \<Rightarrow> observation" where
  "example_seen_down amount = observation_from (seen_by example_enclave (fst (replay example_enclave paid_query)) amount)"

lemma example_judged_any:
  assumes "0 \<le> amount"
  shows "judged example_enclave paid_query amount = Inr \<lparr>j_mode = Status_Only_Mode, j_outcome = Some FAIL, j_clauses = [],
     j_fallback_reason = Some (js ''sla record unreadable'')\<rparr>"
proof -
  have st: "o_status (example_seen_down amount) = Some (JNum (Fin 503))"
    by (simp add: example_seen_down_def example_reply seen_by_def observation_from_def)
  have latency: "non_negative_integer (JNum (jsint (en_latency_ms example_enclave)))"
    by (simp add: example_enclave_def non_negative_integer_def)
  have v: "valid_observation (example_seen_down amount)"
    using assms latency unfolding valid_observation_def st
    by (simp add: example_seen_down_def seen_by_def observation_from_def http_status_def is_latency_def is_object_def)
  have "judge None (example_seen_down amount) = status_only (example_seen_down amount) (js ''sla record unreadable'')"
    by (simp add: judge_def st PAYMENT_REFUSED_def)
  moreover have "\<not> status_null (example_seen_down amount)" "status_num (example_seen_down amount) = Fin 503"
    by (simp_all add: status_null_def status_num_def st number_of_def)
  ultimately have "judge None (example_seen_down amount) = Inr \<lparr>j_mode = Status_Only_Mode, j_outcome = Some FAIL, j_clauses = [],
     j_fallback_reason = Some (js ''sla record unreadable'')\<rparr>"
    using status_only_valid [OF v] by simp
  then show ?thesis by (simp add: judged_def paid_query_fields example_seen_down_def)
qed

lemma example_run: "\<exists>payload acts. on_verify_request example_enclave example_input = (Inr payload, acts)"
proof -
  let ?j = "\<lparr>j_mode = Status_Only_Mode, j_outcome = Some FAIL, j_clauses = [], j_fallback_reason = Some (js ''sla record unreadable'')\<rparr>"
  have ordinal: "outcome_to_ordinal (outcome_name FAIL) = Inr 1"
    by (simp add: outcome_to_ordinal_def OUTCOME_ORDINAL_def outcome_name_def)
  have w: "en_write example_enclave report = Inr \<lparr>wa_success = True, wa_tx = js ''0xfeed'', wa_error = []\<rparr>" for report
    by (simp add: example_enclave_def)
  have "\<exists>payload acts. conclude example_enclave example_input token reply ?j 1000 = (Inr payload, acts)" for token reply
    by (simp add: conclude_def Let_def report_of_def ordinal w)
  moreover have "callback_token example_enclave (wi_callback_url example_input) = Inr (Some (js ''secret''))"
    by (simp add: callback_token_def example_input_def example_enclave_def js_def)
  moreover have "en_known_chain example_enclave" by (simp add: example_enclave_def)
  ultimately show ?thesis
    using example_judged_any [of 1000] example_amount
    by (simp add: on_verify_request_def example_input_def paid_query_fields judged_def case_prod_beta Let_def prod_eq_iff)
qed

definition callback_request :: "jstring \<Rightarrow> request" where
  "callback_request payload = \<lparr>rq_method = js ''POST'', rq_url = service_url ''verdikt.bond'' ''/internal/verification-callback'',
     rq_params = [], rq_headers = [(js ''authorization'', js ''Bearer '' @ js ''secret'')], rq_body = utf8 payload\<rparr>"

theorem chain_and_callback_agree_witness:
  "\<exists>payload acts r. on_verify_request example_enclave example_input = (Inr payload, acts) \<and>
     snd (handle_callback example_deps (callback_request payload)) = [Settled (js ''0x2a'') r] \<and>
     vr_outcome r = js_str ''FAIL'' \<and> map vp_outcome (reports acts) = [1]"
proof -
  obtain payload acts where run: "on_verify_request example_enclave example_input = (Inr payload, acts)"
    using example_run by blast
  have q: "wi_request example_input = paid_query" by (simp add: example_input_def)
  have small: "small_status (fst (replay example_enclave (wi_request example_input)))"
    by (simp add: q example_reply small_status_def)
  have cb: "cf_callback_token (px_config example_deps) = Some (js ''secret'')" "js ''secret'' \<noteq> []"
    by (simp_all add: example_deps_def example_config_def js_def)
  obtain workflow where w: "px_workflow example_deps = Some workflow" by (simp add: example_deps_def)
  have h: "get_header (rq_headers (callback_request payload)) ''authorization'' = Some (js ''Bearer '' @ js ''secret'')"
    "rq_body (callback_request payload) = utf8 payload"
    by (simp_all add: callback_request_def get_header_def)
  from chain_and_callback_agree [OF run small cb w h]
  obtain amount j r where r: "judged example_enclave paid_query amount = Inr j" "to_bigint (Some (js_str ''1000'')) = Inr amount"
    "snd (handle_callback example_deps (callback_request payload)) = [Settled (js ''0x2a'') r]"
    "vr_outcome r = (case j_outcome j of Some res \<Rightarrow> JStr (outcome_name res) | None \<Rightarrow> JNull)"
    "map vp_outcome (reports acts) = (case j_outcome j of None \<Rightarrow> [] | Some res \<Rightarrow> [case res of PASS \<Rightarrow> 0 | FAIL \<Rightarrow> 1 | DOWN \<Rightarrow> 2])"
    unfolding q paid_query_fields(3,4) by (force split: option.splits)
  moreover have "j_outcome j = Some FAIL"
    using r(1,2) example_judged_any [of 1000] example_amount by auto
  ultimately show ?thesis using run by (auto simp: outcome_name_def)
qed


section \<open>The way to the enclave\<close>

lemma payment_header_name: "payment_header_of hs = Some (n, v) \<Longrightarrow> n \<in> set PAYMENT_HEADER_NAMES"
  by (auto simp: payment_header_of_def split: option.splits dest: find_SomeD)

lemma triggered_by_router:
  assumes "Triggered q \<in> set (snd (handle_request d rq))"
  obtains rec upstream name payment p where "payment_header_of (rq_headers rq) = Some (name, payment)"
    "q = verify_request_of d rq rec upstream (name, payment) (if rq_method rq = js ''GET'' \<or> rq_method rq = js ''HEAD'' then None else Some (rq_body rq)) p"
proof -
  obtain rec upstream where a: "Triggered q \<in> set (snd (relay d rq rec upstream))"
    using handle_request_actions [OF assms] route_request_actions [of "Triggered q" d rq] by auto
  then obtain name payment where h: "payment_header_of (rq_headers rq) = Some (name, payment)"
    by (cases "payment_header_of (rq_headers rq)") (auto simp: relay_def passthrough_def Let_def split: sum.splits)
  then have "Triggered q \<in> set (snd (verified d rq rec upstream (name, payment)
      (if rq_method rq = js ''GET'' \<or> rq_method rq = js ''HEAD'' then None else Some (rq_body rq))))"
    using a by (simp add: relay_def Let_def)
  from verified_actions [OF this] show thesis using that [OF h] by auto
qed

text \<open>
  C6: The enclave replays exactly the call the agent paid for. When a request makes the router trigger the
  workflow and the runner forwards that trigger, what it forwards reads back in the enclave as the very request the
  router built, and the one call the enclave makes is to that url with the agent's method, the agent's payment under
  its own header name and the agent's body, byte for byte (none for GET, HEAD and an empty one).
\<close>

theorem enclave_replays_the_paid_call:
  assumes "Triggered q \<in> set (snd (handle_request d rq))"
    and "ta_forwarded (handle_trigger sha256 verify_message config simulator authorization (trigger_text workflow_id callback_url q) now) = Some sent"
  shows "\<exists>v input call name payment. json_parse sent = Inr v \<and> json_member v ''input'' = Some input \<and>
     read_input input = Some \<lparr>wi_request = q, wi_callback_url = Some callback_url\<rparr> \<and>
     snd (replay en q) = [Replayed call] \<and> rp_url call = vq_provider_url q \<and> rp_method call = rq_method rq \<and>
     rp_body call = (if rq_method rq = js ''GET'' \<or> rq_method rq = js ''HEAD'' \<or> rq_body rq = [] then None else Some (rq_body rq)) \<and>
     payment_header_of (rq_headers rq) = Some (name, payment) \<and> map_of (rp_header_values call) (js name) = Some payment"
proof -
  obtain rec upstream name payment p where q: "payment_header_of (rq_headers rq) = Some (name, payment)"
    "q = verify_request_of d rq rec upstream (name, payment) (if rq_method rq = js ''GET'' \<or> rq_method rq = js ''HEAD'' then None else Some (rq_body rq)) p"
    by (rule triggered_by_router [OF assms(1)])
  obtain input where i: "runnable sha256 verify_message config authorization (trigger_text workflow_id callback_url q) now input"
    "sent = stringify (JObj [(js ''input'', input)])"
  proof (cases rule: handle_trigger_cases [of sha256 verify_message config authorization "trigger_text workflow_id callback_url q" now simulator])
    case (forwarded input rpc_id)
    have "Some sent = Some (stringify (JObj [(js ''input'', input)]))"
      using assms(2) unfolding forwarded(2) forward_trigger_sent(1) by (rule sym)
    then show thesis by (intro that [OF forwarded(1)]) (rule option.inject [THEN iffD1])
  next
    case (refused c b)
    show thesis using assms(2) unfolding refused(3) refuse_trigger_sent by (rule option.distinct(1) [THEN notE])
  qed
  have "json_member (trigger_envelope workflow_id callback_url q) ''params'' =
      Some (JObj [(js ''input'', trigger_input q callback_url), (js ''workflow'', JObj [(js ''workflowID'', JStr workflow_id)])])"
    by (simp add: trigger_envelope_def json_member_def member_def)
  then have "Option.bind (json_member (trigger_envelope workflow_id callback_url q) ''params'') (\<lambda>p. json_member p ''input'') =
      Some (trigger_input q callback_url)"
    by (simp add: json_member_def member_def)
  moreover have "Option.bind (json_member (trigger_envelope workflow_id callback_url q) ''params'') (\<lambda>p. json_member p ''input'') = Some input"
    using i(1) json_roundtrip [OF wire_trigger(1) [of workflow_id callback_url q]] unfolding runnable_def trigger_text_def executable_input_def
    by (elim exE conjE) simp
  ultimately have input: "input = trigger_input q callback_url" by simp
  have "wire (JObj [(js ''input'', input)])" using wire_trigger(2) key_names by (simp add: input)
  then have sent: "json_parse sent = Inr (JObj [(js ''input'', input)])" using json_roundtrip i(2) by blast
  have name: "js name \<noteq> js ''Content-Type''"
    using payment_header_name [OF q(1)] by (auto simp: PAYMENT_HEADER_NAMES_def)
  define body where "body = (if rq_method rq = js ''GET'' \<or> rq_method rq = js ''HEAD'' \<or> rq_body rq = [] then None else Some (rq_body rq))"
  have "request_body_field (vq_body_hex q) = Inr body"
    using request_body_roundtrip by (auto simp: q(2) verify_request_of_def body_def)
  then have "snd (replay en q) = [Replayed (replay_of q body)]" by (simp add: replay_def)
  moreover have "map_of (rp_header_values (replay_of q body)) (js name) = Some payment"
    using name by (auto simp: replay_of_def q(2) verify_request_of_def split: option.split)
  moreover have "rp_method (replay_of q body) = rq_method rq" "rp_url (replay_of q body) = vq_provider_url q" "rp_body (replay_of q body) = body"
    by (simp_all add: replay_of_def q(2) verify_request_of_def)
  moreover have "json_member (JObj [(js ''input'', input)]) ''input'' = Some input" by (simp add: json_member_def member_def)
  moreover have "read_input input = Some \<lparr>wi_request = q, wi_callback_url = Some callback_url\<rparr>"
    unfolding input by (rule read_trigger_input)
  ultimately show ?thesis using sent q(1) unfolding body_def
    by (intro exI [of _ "JObj [(js ''input'', input)]"] exI [of _ input] exI [of _ "replay_of q body"] exI [of _ name] exI [of _ payment])
      (simp add: body_def)
qed

text \<open>A trigger with an accepted token is forwarded.\<close>

lemma trigger_forwarded:
  assumes "is_ok (verify_trigger_jwt sha256 verify_message authorization (trigger_text workflow_id callback_url q) (rc_trigger_address config)
      (rc_jwt_max_age_seconds config) now)"
    and "rc_expected_workflow_id config = None"
  shows "\<exists>sent. ta_forwarded (handle_trigger sha256 verify_message config simulator authorization (trigger_text workflow_id callback_url q) now) = Some sent"
proof -
  let ?e = "trigger_envelope workflow_id callback_url q"
  have m: "json_member ?e ''jsonrpc'' = Some (js_str ''2.0'')" "json_member ?e ''method'' = Some (js_str ''workflows.execute'')"
    "json_member ?e ''params'' = Some (JObj [(js ''input'', trigger_input q callback_url), (js ''workflow'', JObj [(js ''workflowID'', JStr workflow_id)])])"
    by (simp_all add: trigger_envelope_def json_member_def member_def)
  have "executable_input config (js ''workflows.execute'') (json_member ?e ''params'') (trigger_input q callback_url)"
    unfolding m(3) using assms(2) by (simp add: executable_input_def json_member_def member_def trigger_input_def is_object_def)
  moreover have "json_parse (trigger_text workflow_id callback_url q) = Inr ?e"
    unfolding trigger_text_def by (rule json_roundtrip [OF wire_trigger(1)])
  ultimately have run: "runnable sha256 verify_message config authorization (trigger_text workflow_id callback_url q) now (trigger_input q callback_url)"
    using assms(1) m(1,2) unfolding runnable_def by blast
  show ?thesis
  proof (cases rule: handle_trigger_cases [of sha256 verify_message config authorization "trigger_text workflow_id callback_url q" now simulator])
    case (forwarded input rpc_id)
    then show ?thesis unfolding forwarded(2) forward_trigger_sent(1) by blast
  next
    case (refused c b)
    show ?thesis using refused(2) run by (rule notE)
  qed
qed

definition example_runner :: runner_config where
  "example_runner = \<lparr>rc_trigger_address = js ''0xaB'', rc_jwt_max_age_seconds = Fin 300, rc_simulator_url = js ''http://127.0.0.1:2000'',
     rc_expected_workflow_id = None\<rparr>"

lemma example_token_accepted:
  "\<exists>token. is_ok (verify_trigger_jwt (\<lambda>_. []) (\<lambda>iss m s. iss = Some (JStr example_issuer) \<and> s = example_sign m)
     (Some (js ''Bearer '' @ token)) (trigger_text (js ''0x01'') (js ''https://cb'') paid_query) (js ''0xaB'') (Fin 300) (Fin 1059))"
proof -
  let ?body = "trigger_text (js ''0x01'') (js ''https://cb'') paid_query"
  let ?verify = "\<lambda>iss m s. iss = Some (JStr example_issuer) \<and> s = example_sign m"
  have "?body \<noteq> []" by (simp add: trigger_text_def trigger_envelope_def js_def)
  then obtain token where mint: "mint_trigger_jwt (\<lambda>_. []) example_issuer example_sign ?body (Fin 60) (Fin 1000) (js ''j1'') = Inr token"
    by (simp add: mint_trigger_jwt_def Let_def MAX_TTL_SECONDS_def num_le_def num_eq_def)
  have digest: "digest_of (\<lambda>_. []) ?body = js ''0x''" by (simp add: digest_of_def hex_encode_def)
  have survives: "decode_segment (encode_segment (jwt_payload (digest_of (\<lambda>_. []) ?body) example_issuer (Fin 1000) (Fin 60) (js ''j1''))) =
      Inr (jwt_payload (digest_of (\<lambda>_. []) ?body) example_issuer (Fin 1000) (Fin 60) (js ''j1''))"
    unfolding digest by code_simp
  have times: "check_times (num_plus (Fin 1000) (Fin 60)) (Fin 1000) (Fin 300) (Fin 1059) = Inr ()" by code_simp
  have signer: "lower example_issuer = lower (js ''0xaB'')" by code_simp
  have signs: "\<And>m. \<exists>bs. example_sign m = js ''0x'' @ hex_encode bs \<and> ?verify (Some (JStr example_issuer)) m (example_sign m)"
    by (auto simp: example_sign_def)
  show ?thesis
    using minted_token_verifies [where sign = example_sign and verify_message = ?verify, OF mint signs survives times signer]
    by (intro exI [of _ token]) simp
qed

theorem enclave_replays_the_paid_call_witness:
  "\<exists>authorization sent v input call.
     ta_forwarded (handle_trigger (\<lambda>_. []) (\<lambda>iss m s. iss = Some (JStr example_issuer) \<and> s = example_sign m) example_runner Sim_Ok
       (Some authorization) (trigger_text (js ''0x01'') (js ''https://cb'') paid_query) (Fin 1059)) = Some sent \<and>
     json_parse sent = Inr v \<and> json_member v ''input'' = Some input \<and>
     read_input input = Some \<lparr>wi_request = paid_query, wi_callback_url = Some (js ''https://cb'')\<rparr> \<and>
     snd (replay example_enclave paid_query) = [Replayed call] \<and> rp_method call = js ''GET'' \<and>
     map_of (rp_header_values call) (js ''payment-signature'') = Some example_header"
proof -
  let ?body = "trigger_text (js ''0x01'') (js ''https://cb'') paid_query"
  let ?verify = "\<lambda>iss m s. iss = Some (JStr example_issuer) \<and> s = example_sign m"
  obtain token where "is_ok (verify_trigger_jwt (\<lambda>_. []) ?verify (Some (js ''Bearer '' @ token)) ?body (js ''0xaB'') (Fin 300) (Fin 1059))"
    using example_token_accepted by blast
  then have ok: "is_ok (verify_trigger_jwt (\<lambda>_. []) ?verify (Some (js ''Bearer '' @ token)) ?body (rc_trigger_address example_runner)
      (rc_jwt_max_age_seconds example_runner) (Fin 1059))"
    by (simp add: example_runner_def)
  have "rc_expected_workflow_id example_runner = None" by (simp add: example_runner_def)
  from trigger_forwarded [OF ok this, of Sim_Ok] obtain sent where
    sent: "ta_forwarded (handle_trigger (\<lambda>_. []) ?verify example_runner Sim_Ok (Some (js ''Bearer '' @ token)) ?body (Fin 1059)) = Some sent"
    by blast
  have m: "rq_method example_request = js ''GET''" by (simp add: example_request_def)
  from enclave_replays_the_paid_call [OF example_paid_call sent, of example_enclave] sent
  show ?thesis unfolding m example_payment_header by fastforce
qed

end
