(* ===== verification/Sla_Draft.thy ===== *)
theory Sla_Draft imports JS_Exact begin

text \<open>
  \<open>web/src/forms/sla-draft.js\<close>: the form a provider edits an SLA in. A schema becomes a tree of
  fields, the tree becomes a schema again, and amounts in USDC become minor units and come back.
\<close>

section \<open>What the module uses of objects\<close>

text \<open>\<open>k in o\<close> on an object also finds what every object inherits.\<close>

definition OBJECT_PROTOTYPE :: "string list" where
  "OBJECT_PROTOTYPE = [''constructor'', ''__defineGetter__'', ''__defineSetter__'', ''hasOwnProperty'', ''__lookupGetter__'',
     ''__lookupSetter__'', ''isPrototypeOf'', ''propertyIsEnumerable'', ''toString'', ''valueOf'', ''__proto__'', ''toLocaleString'']"

definition in_object :: "jstring \<Rightarrow> members \<Rightarrow> bool" where
  "in_object k ps \<longleftrightarrow> has_own ps k \<or> k \<in> set (map js OBJECT_PROTOTYPE)"

text \<open>\<open>{...o, ...es}\<close>, and \<open>Object.fromEntries(es)\<close> when \<open>o\<close> is empty.\<close>

definition spread :: "members \<Rightarrow> members \<Rightarrow> members" where
  "spread ps es = foldl (\<lambda>acc e. obj_put (fst e) (snd e) acc) ps es"

text \<open>\<open>JSON.stringify(v, null, 2)\<close>\<close>

fun pretty :: "nat \<Rightarrow> json \<Rightarrow> jstring" where
  "pretty n (JArr []) = js ''[]''"
| "pretty n (JArr (v # vs)) =
     js ''['' @ [10] @ join_with (js '','' @ [10]) (map (\<lambda>w. replicate (n + 2) 32 @ pretty (n + 2) w) (v # vs)) @ [10] @
     replicate n 32 @ js '']''"
| "pretty n (JObj []) = js ''{}''"
| "pretty n (JObj (p # ps)) =
     js ''{'' @ [10] @ join_with (js '','' @ [10])
       (map (\<lambda>q. replicate (n + 2) 32 @ quote (fst q) @ js '': '' @ pretty (n + 2) (snd q)) (p # ps)) @ [10] @
     replicate n 32 @ js ''}''"
| "pretty n v = stringify v"

section \<open>The tree\<close>

datatype draft_node = Draft_Node
  (nd_type: jstring) (nd_required: bool) (nd_min: jstring) (nd_max: jstring)
  (nd_properties: "(jstring \<times> draft_node \<times> bool) list") \<comment> \<open>name, node, ignored\<close>
  (nd_items: "draft_node option") (nd_extra: members)

definition BOUND_KEYWORDS :: "(string \<times> string \<times> string) list" where
  "BOUND_KEYWORDS = [(''number'', ''minimum'', ''maximum''), (''integer'', ''minimum'', ''maximum''),
     (''string'', ''minLength'', ''maxLength''), (''array'', ''minItems'', ''maxItems'')]"

definition bound_keywords :: "jstring \<Rightarrow> (string \<times> string) option" where
  "bound_keywords t = map_of (map (\<lambda>(k, lo, hi). (js k, lo, hi)) BOUND_KEYWORDS) t"

definition MODELLED_KEYWORDS :: "string list" where
  "MODELLED_KEYWORDS = [''type'', ''properties'', ''required'', ''items'', ''minimum'', ''maximum'', ''minLength'', ''maxLength'',
     ''minItems'', ''maxItems'']"

definition leaf_node :: "string \<Rightarrow> draft_node" where
  "leaf_node t = Draft_Node (js t) True [] [] [] None []"

fun infer_node :: "json \<Rightarrow> draft_node" where
  "infer_node (JObj ps) =
     Draft_Node (js ''object'') True [] [] (map (\<lambda>p. (fst p, infer_node (snd p), False)) ps) None []"
| "infer_node (JArr []) = leaf_node ''array''"
| "infer_node (JArr (v # vs)) = Draft_Node (js ''array'') True [] [] [] (Some (infer_node v)) []"
| "infer_node (JStr s) = leaf_node ''string''"
| "infer_node (JNum n) = leaf_node ''number''"
| "infer_node (JBool b) = leaf_node ''boolean''"
| "infer_node JNull = leaf_node ''null''"

text \<open>The members \<open>nodeToSchema\<close> sets itself, before it spreads the extras over them.\<close>

definition bound_members :: "draft_node \<Rightarrow> members" where
  "bound_members d = (case bound_keywords (nd_type d) of
     None \<Rightarrow> []
   | Some (lo, hi) \<Rightarrow>
       (if nd_min d \<noteq> [] then [(js lo, JNum (number_of_string (nd_min d)))] else []) @
       (if nd_max d \<noteq> [] then [(js hi, JNum (number_of_string (nd_max d)))] else []))"

definition type_members :: "jstring \<Rightarrow> members" where
  "type_members t = (if t = js ''any'' then [] else [(js ''type'', JStr t)])"

definition required_members :: "jstring list \<Rightarrow> members" where
  "required_members names = (if names \<noteq> [] then [(js ''required'', JArr (map JStr names))] else [])"

definition property_members :: "members \<Rightarrow> members" where
  "property_members ps = (if ps \<noteq> [] then [(js ''properties'', JObj (spread [] ps))] else [])"

definition kept_properties :: "draft_node \<Rightarrow> (jstring \<times> draft_node \<times> bool) list" where
  "kept_properties d = filter (\<lambda>p. \<not> snd (snd p)) (nd_properties d)"

function node_to_schema :: "draft_node \<Rightarrow> members" where
  "node_to_schema d = spread
     (type_members (nd_type d) @
      (if nd_type d = js ''object'' then
         required_members (map fst (filter (\<lambda>p. nd_required (fst (snd p))) (kept_properties d))) @
         property_members (map (\<lambda>p. (fst p, JObj (node_to_schema (fst (snd p))))) (kept_properties d))
       else []) @
      (if nd_type d = js ''array'' then
         (case nd_items d of Some it \<Rightarrow> [(js ''items'', JObj (node_to_schema it))] | None \<Rightarrow> [])
       else []) @
      bound_members d)
     (nd_extra d)"
  by pat_completeness auto

lemma property_node_size: "p \<in> set (nd_properties d) \<Longrightarrow> size (fst (snd p)) < size d"
proof (cases d)
  case (Draft_Node t r lo hi ps it e)
  assume p: "p \<in> set (nd_properties d)"
  have "size (fst (snd p)) < size_list (\<lambda>q. size_prod (\<lambda>_. 0) (size_prod size (\<lambda>_. 0)) q) ps"
    if "p \<in> set ps" for ps :: "(jstring \<times> draft_node \<times> bool) list"
    using that by (induction ps) (auto split: prod.splits)
  then show ?thesis using p Draft_Node by fastforce
qed

lemma items_node_size: "nd_items d = Some it \<Longrightarrow> size it < size d"
  by (cases d) auto

termination node_to_schema
  by (relation "measure size") (auto simp: kept_properties_def dest: items_node_size intro: property_node_size [of "(_, _, _)", simplified])

declare node_to_schema.simps [simp del, code del]

lemma node_to_schema_code [code]:
  "node_to_schema (Draft_Node t r lo hi ps it e) = (let d = Draft_Node t r lo hi ps it e in spread
     (type_members t @
      (if t = js ''object'' then
         required_members (map fst (filter (\<lambda>p. nd_required (fst (snd p))) (kept_properties d))) @
         property_members (map (\<lambda>p. (fst p, JObj (node_to_schema (fst (snd p))))) (kept_properties d))
       else []) @
      (if t = js ''array'' then
         (case it of Some i \<Rightarrow> [(js ''items'', JObj (node_to_schema i))] | None \<Rightarrow> [])
       else []) @
      bound_members d)
     e)"
  by (subst node_to_schema.simps) (simp add: Let_def)

text \<open>
  The reverse mapping. A set of the listed names keeps the first of each; \<open>in\<close> turns a name that is
  no string into one.
\<close>

definition listed_names :: "members \<Rightarrow> json list" where
  "listed_names s = (case member s ''required'' of Some (JArr rs) \<Rightarrow> rs | _ \<Rightarrow> [])"

definition orphan_names :: "members \<Rightarrow> json list" where
  "orphan_names s = rev (remdups (rev (case member s ''properties'' of
     Some (JObj ps) \<Rightarrow> filter (\<lambda>n. \<not> in_object (to_str n) ps) (listed_names s)
   | _ \<Rightarrow> listed_names s)))"

definition named_type :: "members \<Rightarrow> jstring" where
  "named_type s = (case member s ''type'' of Some (JStr t) \<Rightarrow> t | _ \<Rightarrow> js ''any'')"

definition bound_text :: "members \<Rightarrow> string \<Rightarrow> jstring" where
  "bound_text s k = (case member s k of Some v \<Rightarrow> to_str v | None \<Rightarrow> [])"

text \<open>A bound has its own controls; \<open>properties\<close> and \<open>items\<close> have them on their own type only.\<close>

definition is_bound_of :: "jstring \<Rightarrow> jstring \<Rightarrow> bool" where
  "is_bound_of t k = (case bound_keywords t of Some (lo, hi) \<Rightarrow> k = js lo \<or> k = js hi | None \<Rightarrow> False)"

definition carried :: "members \<Rightarrow> jstring \<Rightarrow> bool" where
  "carried s k \<longleftrightarrow> \<not> is_bound_of (named_type s) k \<and>
     (k \<notin> set (map js MODELLED_KEYWORDS) \<or> k = js ''properties'' \<and> named_type s \<noteq> js ''object'' \<or>
      k = js ''items'' \<and> named_type s \<noteq> js ''array'')"

definition extra_members :: "members \<Rightarrow> members" where
  "extra_members s = spread [] (concat (map (\<lambda>(k, v).
     if k = js ''required'' then (if orphan_names s \<noteq> [] then [(k, JArr (orphan_names s))] else [])
     else if carried s k then [(k, v)] else []) s))"

function (sequential) schema_to_node :: "json \<Rightarrow> bool \<Rightarrow> draft_node" where
  "schema_to_node (JObj s) required = Draft_Node (named_type s) required
     (case bound_keywords (named_type s) of Some (lo, _) \<Rightarrow> bound_text s lo | None \<Rightarrow> [])
     (case bound_keywords (named_type s) of Some (_, hi) \<Rightarrow> bound_text s hi | None \<Rightarrow> [])
     (if named_type s = js ''object'' then
        (case member s ''properties'' of
           Some (JObj ps) \<Rightarrow> map (\<lambda>p. (fst p, schema_to_node (snd p) (JStr (fst p) \<in> set (listed_names s)), False)) ps
         | _ \<Rightarrow> [])
      else [])
     (if named_type s = js ''array'' then
        (case member s ''items'' of Some it \<Rightarrow> Some (schema_to_node it True) | None \<Rightarrow> None)
      else None)
     (extra_members s)"
| "schema_to_node _ required = Draft_Node (js ''any'') required [] [] [] None []"
  by pat_completeness auto

lemma member_pair_size: "member s k = Some (JObj ps) \<Longrightarrow> p \<in> set ps \<Longrightarrow> size (snd p) < size (JObj s)"
proof -
  assume a: "member s k = Some (JObj ps)" "p \<in> set ps"
  have "size (snd p) < size (JObj ps)" using a(2) by (induction ps) (auto split: prod.splits)
  then show ?thesis using member_size [OF a(1)] by simp
qed

termination schema_to_node
  by (relation "measure (\<lambda>(v, _). size v)") (auto dest: member_size member_pair_size)

declare schema_to_node.simps(1) [simp del]

definition extra_keywords :: "draft_node \<Rightarrow> jstring list" where
  "extra_keywords d = filter (\<lambda>k. k \<notin> set (map js [''title'', ''description'', ''$comment'', ''examples'', ''default'']))
     (object_keys (nd_extra d))"

section \<open>Amounts in USDC\<close>

definition USDC_DECIMALS :: nat where "USDC_DECIMALS = 6"

definition pad_end :: "nat \<Rightarrow> code_unit \<Rightarrow> jstring \<Rightarrow> jstring" where
  "pad_end n c s = s @ replicate (n - length s) c"

definition pad_start :: "nat \<Rightarrow> code_unit \<Rightarrow> jstring \<Rightarrow> jstring" where
  "pad_start n c s = replicate (n - length s) c @ s"

text \<open>\<open>/^(\\d+)(?:\\.(\\d{1,6}))?$/\<close>, its two groups.\<close>

definition usdc_text :: "jstring \<Rightarrow> (jstring \<times> jstring) option" where
  "usdc_text s =
     (let whole = takeWhile is_digit s; rest = dropWhile is_digit s in
      if whole = [] then None
      else case rest of
        [] \<Rightarrow> Some (whole, [])
      | c # fraction \<Rightarrow>
          if c = 46 \<and> 1 \<le> length fraction \<and> length fraction \<le> 6 \<and> list_all is_digit fraction then Some (whole, fraction) else None)"

definition usdc_to_minor_units :: "jstring \<Rightarrow> jstring option" where
  "usdc_to_minor_units text = (case usdc_text (trim text) of
     None \<Rightarrow> None
   | Some (whole, fraction) \<Rightarrow> Some (dec (undec whole * 10 ^ USDC_DECIMALS + undec (pad_end USDC_DECIMALS 48 fraction))))"

text \<open>\<open>/^(0|[1-9]\\d*)$/\<close> is \<open>decimal_integer\<close>.\<close>

definition minor_units_to_usdc :: "jstring \<Rightarrow> jstring" where
  "minor_units_to_usdc minor_units =
     (if \<not> decimal_integer minor_units then minor_units
      else let padded = pad_start (USDC_DECIMALS + 1) 48 minor_units;
               whole = take (length padded - USDC_DECIMALS) padded;
               fraction = rev (dropWhile (\<lambda>c. c = 48) (rev (drop (length padded - USDC_DECIMALS) padded))) in
           if fraction \<noteq> [] then whole @ js ''.'' @ fraction else whole)"

section \<open>Clauses and their ids\<close>

datatype clause_kind =
    Latency_Draft jstring
  | Price_Draft jstring jstring jstring \<comment> \<open>floor, ceiling, asset\<close>
  | Semantic_Draft jstring
  | Schema_Draft jstring jstring "draft_node option" \<comment> \<open>sample, schema text, tree\<close>

record draft_clause =
  dc_id :: jstring
  dc_id_touched :: bool
  dc_original_id :: "jstring option"
  dc_description :: jstring
  dc_kind :: clause_kind

record sla_draft =
  sd_clauses :: "draft_clause list"
  sd_removed :: "jstring list"

text \<open>\<open>ms % 1000 === 0\<close> and \<open>ms / 1000\<close> on a finite double.\<close>

definition suggest_id :: "clause_kind \<Rightarrow> jstring" where
  "suggest_id kind = (case kind of
     Latency_Draft max_ms \<Rightarrow>
       (case number_of_string max_ms of
          Fin ms \<Rightarrow>
            if max_ms = [] then js ''responds-in-time''
            else if is_whole (ms / 1000) then js ''responds-within-'' @ num_str (to_f64 (ms / 1000)) @ js ''s''
            else js ''responds-within-'' @ num_str (Fin ms) @ js ''ms''
        | _ \<Rightarrow> js ''responds-in-time'')
   | Price_Draft _ _ _ \<Rightarrow> js ''price-band''
   | Semantic_Draft _ \<Rightarrow> js ''meets-criteria''
   | Schema_Draft _ _ _ \<Rightarrow> js ''response-shape'')"

definition numbered :: "jstring \<Rightarrow> nat \<Rightarrow> jstring" where
  "numbered wanted n = wanted @ js ''-'' @ dec n"

function free_number :: "jstring \<Rightarrow> jstring list \<Rightarrow> nat \<Rightarrow> nat" where
  "free_number wanted taken n = (if numbered wanted n \<in> set taken then free_number wanted taken (Suc n) else n)"
  by pat_completeness auto

lemma numbered_inject: "numbered w m = numbered w n \<longleftrightarrow> m = n"
  by (simp add: numbered_def)

lemma finite_numbered: "finite {m. n \<le> m \<and> numbered w m \<in> set taken}"
proof (rule finite_imageD [where f = "numbered w"])
  show "finite (numbered w ` {m. n \<le> m \<and> numbered w m \<in> set taken})"
    by (rule finite_subset [of _ "set taken"]) auto
  show "inj_on (numbered w) {m. n \<le> m \<and> numbered w m \<in> set taken}"
    by (simp add: inj_on_def numbered_inject)
qed

termination free_number
proof (relation "measure (\<lambda>(w, taken, n). card {m. n \<le> m \<and> numbered w m \<in> set taken})")
  fix w taken n
  assume "numbered w n \<in> set taken"
  then have "n \<in> {m. n \<le> m \<and> numbered w m \<in> set taken} - {m. Suc n \<le> m \<and> numbered w m \<in> set taken}" by simp
  moreover have "{m. Suc n \<le> m \<and> numbered w m \<in> set taken} \<subseteq> {m. n \<le> m \<and> numbered w m \<in> set taken}" by auto
  ultimately have "{m. Suc n \<le> m \<and> numbered w m \<in> set taken} \<subset> {m. n \<le> m \<and> numbered w m \<in> set taken}" by blast
  then show "((w, taken, Suc n), (w, taken, n)) \<in> measure (\<lambda>(w, taken, n). card {m. n \<le> m \<and> numbered w m \<in> set taken})"
    using finite_numbered by (simp add: psubset_card_mono)
qed simp

declare free_number.simps [simp del]

definition unique_id :: "jstring \<Rightarrow> jstring list \<Rightarrow> jstring" where
  "unique_id wanted taken = (if wanted \<notin> set taken then wanted else numbered wanted (free_number wanted taken 2))"

datatype kind_name = Kind_Latency | Kind_Price | Kind_Semantic | Kind_Schema

definition new_kind :: "kind_name \<Rightarrow> clause_kind" where
  "new_kind kind = (case kind of
     Kind_Latency \<Rightarrow> Latency_Draft (js ''5000'') | Kind_Price \<Rightarrow> Price_Draft [] [] (js ''USDC'')
   | Kind_Semantic \<Rightarrow> Semantic_Draft [] | Kind_Schema \<Rightarrow> Schema_Draft [] [] None)"

definition new_clause :: "kind_name \<Rightarrow> draft_clause list \<Rightarrow> draft_clause" where
  "new_clause kind siblings = \<lparr>dc_id = unique_id (suggest_id (new_kind kind)) (map dc_id siblings), dc_id_touched = False,
     dc_original_id = None, dc_description = [], dc_kind = new_kind kind\<rparr>"

text \<open>\<open>others\<close> are the siblings that are not the very object \<open>clause\<close>.\<close>

definition refresh_id :: "draft_clause \<Rightarrow> draft_clause list \<Rightarrow> draft_clause" where
  "refresh_id clause others =
     (if dc_id_touched clause then clause
      else clause\<lparr>dc_id := unique_id (suggest_id (dc_kind clause)) (map dc_id others)\<rparr>)"

definition empty_draft :: sla_draft where
  "empty_draft = \<lparr>sd_clauses = [], sd_removed = []\<rparr>"

section \<open>The draft and the document\<close>

definition kind_of_clause :: "members \<Rightarrow> clause_kind" where
  "kind_of_clause c =
     (if text_of c ''type'' = js ''latency'' then Latency_Draft (text_of c ''maxMs'')
      else if text_of c ''type'' = js ''priceRange'' then
        Price_Draft (minor_units_to_usdc (text_of c ''minMinorUnits'')) (minor_units_to_usdc (text_of c ''maxMinorUnits''))
          (text_of c ''asset'')
      else if text_of c ''type'' = js ''semantic'' then Semantic_Draft (text_of c ''criteria'')
      else Schema_Draft [] [] (Some (case member c ''schema'' of
        Some s \<Rightarrow> schema_to_node s True | None \<Rightarrow> Draft_Node (js ''any'') True [] [] [] None [])))"

definition draft_of_clause :: "members \<Rightarrow> draft_clause" where
  "draft_of_clause c = \<lparr>dc_id = text_of c ''id'', dc_id_touched = True, dc_original_id = Some (text_of c ''id''),
     dc_description = (case member c ''description'' of Some v \<Rightarrow> to_str v | None \<Rightarrow> []), dc_kind = kind_of_clause c\<rparr>"

definition draft_of_document :: "json \<Rightarrow> sla_draft" where
  "draft_of_document sla = \<lparr>sd_clauses = map draft_of_clause (sla_clauses sla), sd_removed = []\<rparr>"

definition draft_from_text :: "jstring \<Rightarrow> sla_draft result" where
  "draft_from_text text = bind_r (parse_sla text) (\<lambda>sla. Inr (draft_of_document sla))"

definition head_members :: "draft_clause \<Rightarrow> members" where
  "head_members clause = (js ''id'', JStr (dc_id clause)) #
     (if trim (dc_description clause) \<noteq> [] then [(js ''description'', JStr (trim (dc_description clause)))] else [])"

definition kind_members :: "clause_kind \<Rightarrow> members" where
  "kind_members kind = (case kind of
     Latency_Draft max_ms \<Rightarrow> [(js ''type'', js_str ''latency''),
       (js ''maxMs'', JNum (if max_ms = [] then Fin (-1) else number_of_string max_ms))]
   | Price_Draft lo hi asset \<Rightarrow> [(js ''type'', js_str ''priceRange''),
       (js ''minMinorUnits'', JStr (case usdc_to_minor_units lo of Some m \<Rightarrow> m | None \<Rightarrow> lo)),
       (js ''maxMinorUnits'', JStr (case usdc_to_minor_units hi of Some m \<Rightarrow> m | None \<Rightarrow> hi)), (js ''asset'', JStr asset)]
   | Semantic_Draft criteria \<Rightarrow> [(js ''type'', js_str ''semantic''), (js ''criteria'', JStr (trim criteria))]
   | Schema_Draft _ _ tree \<Rightarrow> [(js ''type'', js_str ''schema''),
       (js ''schema'', JObj (case tree of Some d \<Rightarrow> node_to_schema d | None \<Rightarrow> []))])"

definition clause_of_draft :: "draft_clause \<Rightarrow> json" where
  "clause_of_draft clause = JObj (head_members clause @ kind_members (dc_kind clause))"

definition draft_to_document :: "sla_draft \<Rightarrow> json" where
  "draft_to_document draft = JObj [(js ''version'', JNum (Fin 1)), (js ''clauses'', JArr (map clause_of_draft (sd_clauses draft)))]"

definition draft_to_text :: "sla_draft \<Rightarrow> jstring" where
  "draft_to_text draft = stringify (draft_to_document draft)"

definition draft_to_pretty_text :: "sla_draft \<Rightarrow> jstring" where
  "draft_to_pretty_text draft = pretty 0 (draft_to_document draft)"

definition schema_to_text :: "draft_node \<Rightarrow> jstring" where
  "schema_to_text d = pretty 0 (JObj (node_to_schema d))"

text \<open>\<open>replace\<close> of a string: its first occurrence.\<close>

fun replace_first :: "jstring \<Rightarrow> jstring \<Rightarrow> jstring \<Rightarrow> jstring" where
  "replace_first pat repl [] = (if pat = [] then repl else [])"
| "replace_first pat repl (c # s) =
     (if starts_with (c # s) pat then repl @ drop (length pat) (c # s) else c # replace_first pat repl s)"

definition one_clause_sla :: "json \<Rightarrow> json" where
  "one_clause_sla schema = JObj [(js ''version'', JNum (Fin 1)), (js ''clauses'', JArr [JObj
     [(js ''id'', js_str ''shape''), (js ''type'', js_str ''schema''), (js ''schema'', schema)]])]"

definition schema_from_text :: "jstring \<Rightarrow> draft_node result" where
  "schema_from_text text = (case json_parse text of
     Inl e \<Rightarrow> Inl (js ''Not JSON: '' @ e)
   | Inr schema \<Rightarrow> (case parse_sla (stringify (one_clause_sla schema)) of
       Inl e \<Rightarrow> Inl (replace_first (js ''/clauses/shape/schema'') (js ''the schema'') e)
     | Inr _ \<Rightarrow> Inr (schema_to_node schema True)))"

section \<open>Problems the form points at\<close>

record draft_problem =
  dp_clause :: nat
  dp_field :: jstring
  dp_message :: jstring

definition problem :: "nat \<Rightarrow> jstring \<Rightarrow> jstring \<Rightarrow> draft_problem" where
  "problem clause field message = \<lparr>dp_clause = clause, dp_field = field, dp_message = message\<rparr>"

definition bound_valid :: "jstring \<Rightarrow> jstring \<Rightarrow> bool" where
  "bound_valid t text =
     (if t \<noteq> js ''number'' then decimal_integer text else is_finite (number_of_string text) \<and> trim text \<noteq> [])"

definition bound_problems :: "draft_node \<Rightarrow> jstring \<Rightarrow> nat \<Rightarrow> draft_problem list" where
  "bound_problems d path clause =
     (if bound_keywords (nd_type d) = None then []
      else
        (let valid = bound_valid (nd_type d);
             message = (if nd_type d \<noteq> js ''number'' then js ''A whole number, 0 or more.'' else js ''A number.'') in
         (if nd_min d \<noteq> [] \<and> \<not> valid (nd_min d) then [problem clause (path @ js ''.min'') message] else []) @
         (if nd_max d \<noteq> [] \<and> \<not> valid (nd_max d) then [problem clause (path @ js ''.max'') message] else []) @
         (if nd_min d \<noteq> [] \<and> nd_max d \<noteq> [] \<and> valid (nd_min d) \<and> valid (nd_max d) \<and>
             num_less (number_of_string (nd_max d)) (number_of_string (nd_min d))
          then [problem clause (path @ js ''.max'') (js ''The upper bound is below the lower one.'')] else [])))"

function node_problems :: "draft_node \<Rightarrow> jstring \<Rightarrow> nat \<Rightarrow> draft_problem list" where
  "node_problems d path clause =
     bound_problems d path clause @
     concat (map (\<lambda>p. if snd (snd p) then [] else node_problems (fst (snd p)) (path @ js ''/'' @ fst p) clause) (nd_properties d)) @
     (case nd_items d of Some it \<Rightarrow> node_problems it (path @ js ''/[]'') clause | None \<Rightarrow> [])"
  by pat_completeness auto
termination
  by (relation "measure (\<lambda>(d, _). size d)") (auto dest: items_node_size intro: property_node_size [of "(_, _, _)", simplified])

declare node_problems.simps [simp del]

definition id_problems :: "jstring \<Rightarrow> jstring list \<Rightarrow> nat \<Rightarrow> draft_problem list" where
  "id_problems i seen clause =
     (if i = [] then [problem clause (js ''id'') (js ''Every clause needs an id '' @ [8212] @ js '' a verdict cites it.'')]
      else if i = js ''delivery'' then
        [problem clause (js ''id'') ([8220] @ js ''delivery'' @ [8221] @ js '' is the implicit clause; it cannot be declared.'')]
      else if i \<in> set seen then [problem clause (js ''id'') (js ''Another clause already has this id.'')]
      else [])"

definition kind_problems :: "clause_kind \<Rightarrow> nat \<Rightarrow> draft_problem list" where
  "kind_problems kind clause = (case kind of
     Latency_Draft max_ms \<Rightarrow>
       (if \<not> decimal_integer max_ms \<or> num_less (Fin 600000) (number_of_string max_ms)
        then [problem clause (js ''maxMs'') (js ''Whole milliseconds, up to 600000.'')] else [])
   | Price_Draft lo hi _ \<Rightarrow>
       (if usdc_to_minor_units lo = None then [problem clause (js ''min'') (js ''An amount in USDC, up to six decimals.'')] else []) @
       (if usdc_to_minor_units hi = None then [problem clause (js ''max'') (js ''An amount in USDC, up to six decimals.'')] else []) @
       (case (usdc_to_minor_units lo, usdc_to_minor_units hi) of
          (Some m, Some n) \<Rightarrow> if undec n < undec m then [problem clause (js ''max'') (js ''The ceiling is below the floor.'')] else []
        | _ \<Rightarrow> [])
   | Schema_Draft _ _ tree \<Rightarrow>
       (case tree of
          None \<Rightarrow> [problem clause (js ''shape'') (js ''Read the shape from a sample response or a JSON Schema.'')]
        | Some d \<Rightarrow> node_problems d [] clause)
   | Semantic_Draft criteria \<Rightarrow>
       (if trim criteria = [] then [problem clause (js ''criteria'') (js ''Say what the response must mean, in plain language.'')]
        else if 2048 < length (trim criteria) then [problem clause (js ''criteria'') (js ''Up to 2048 characters.'')]
        else []))"

fun clause_problems :: "jstring list \<Rightarrow> nat \<Rightarrow> draft_clause list \<Rightarrow> draft_problem list" where
  "clause_problems seen n [] = []"
| "clause_problems seen n (c # cs) =
     id_problems (trim (dc_id c)) seen n @ kind_problems (dc_kind c) n @ clause_problems (trim (dc_id c) # seen) (Suc n) cs"

definition draft_problems :: "sla_draft \<Rightarrow> draft_problem list" where
  "draft_problems draft = clause_problems [] 0 (sd_clauses draft)"

section \<open>Looking up in spread objects\<close>

lemma map_of_spread: "map_of (spread ps es) = map_of ps ++ map_of (rev es)"
  unfolding spread_def by (induction es arbitrary: ps) (simp_all add: map_of_obj_put map_add_upd_left)

lemma map_of_spread_distinct: "distinct (map fst es) \<Longrightarrow> map_of (spread ps es) = map_of ps ++ map_of es"
proof -
  assume d: "distinct (map fst es)"
  have "map_of (rev es) = map_of es" by (rule map_of_mset_eq) (simp_all add: d rev_map [symmetric])
  then show ?thesis by (simp add: map_of_spread)
qed

lemma map_of_from_entries: "distinct (map fst es) \<Longrightarrow> map_of (spread [] es) = map_of es"
  by (simp add: map_of_spread_distinct)

section \<open>A schema by the kind of value it meets\<close>

definition meets_common :: "members \<Rightarrow> json \<Rightarrow> bool" where
  "meets_common s v \<longleftrightarrow>
     (\<forall>t. member s ''type'' = Some t \<longrightarrow> (\<exists>n\<in>set (type_names t). matches_type v n)) \<and>
     (\<forall>c. member s ''const'' = Some c \<longrightarrow> deep_equal v c) \<and>
     (\<forall>options. member s ''enum'' = Some (JArr options) \<longrightarrow> (\<exists>c\<in>set options. deep_equal v c)) \<and>
     (case one_of s of None \<Rightarrow> True | Some bs \<Rightarrow> length (filter (\<lambda>b. conforms b v) bs) = 1)"

definition in_bounds :: "members \<Rightarrow> string \<Rightarrow> string \<Rightarrow> jsnum \<Rightarrow> bool" where
  "in_bounds s lo hi n \<longleftrightarrow> (\<forall>b. number_member s lo = Some b \<longrightarrow> \<not> num_less n b) \<and>
     (\<forall>b. number_member s hi = Some b \<longrightarrow> \<not> num_less b n)"

definition meets_member :: "members \<Rightarrow> jstring \<times> json \<Rightarrow> bool" where
  "meets_member s = (\<lambda>(k, x). case map_of (schema_properties s) k of
     Some sub \<Rightarrow> conforms sub x
   | None \<Rightarrow> (case member s ''additionalProperties'' of None \<Rightarrow> True
       | Some a \<Rightarrow> a = JBool True \<or> a \<noteq> JBool False \<and> conforms a x))"

definition meets_own :: "members \<Rightarrow> json \<Rightarrow> bool" where
  "meets_own s v = (case v of
     JNum n \<Rightarrow> in_bounds s ''minimum'' ''maximum'' n
   | JStr t \<Rightarrow> in_bounds s ''minLength'' ''maxLength'' (len_num t)
   | JArr vs \<Rightarrow> in_bounds s ''minItems'' ''maxItems'' (len_num vs) \<and>
       (case member s ''items'' of None \<Rightarrow> True | Some it \<Rightarrow> list_all (conforms it) vs)
   | JObj qs \<Rightarrow> (\<forall>names. member s ''required'' = Some (JArr names) \<longrightarrow> (\<forall>n\<in>set names. has_own qs (to_str n))) \<and>
       list_all (meets_member s) qs
   | _ \<Rightarrow> True)"

lemma conforms_split: "conforms (JObj s) v \<longleftrightarrow> meets_common s v \<and> meets_own s v"
  unfolding conforms.simps(1) conforms_here_def meets_common_def meets_own_def in_bounds_def meets_member_def
  by (cases v) (simp_all, blast+)

lemma meets_common_cong:
  assumes "\<And>k. k \<in> {''type'', ''const'', ''enum'', ''oneOf''} \<Longrightarrow> member s k = member s' k"
  shows "meets_common s v = meets_common s' v"
  using assms by (simp add: meets_common_def one_of_def)

lemma meets_common_type: "meets_common s v \<Longrightarrow> member s ''type'' = Some (JStr t) \<Longrightarrow> matches_type v (JStr t)"
  unfolding meets_common_def type_names_def by (auto simp del: matches_type.simps)

lemma in_bounds_cong:
  assumes "member s lo = member s' lo" "member s hi = member s' hi"
  shows "in_bounds s lo hi n = in_bounds s' lo hi n"
  by (simp add: in_bounds_def number_member_def assms)

text \<open>The type names that \<open>assertSchema\<close> accepts, and the values of each.\<close>

lemma type_cases:
  assumes "matches_type v (JStr t)"
  obtains (null) "v = JNull" | (bool) b where "v = JBool b"
  | (num) n where "v = JNum n" "t = js ''number'' \<or> t = js ''integer''"
  | (str) x where "v = JStr x" "t = js ''string''"
  | (arr) vs where "v = JArr vs" "t = js ''array''"
  | (obj) qs where "v = JObj qs" "t = js ''object''"
  using assms by (cases v) (auto split: if_splits simp: is_string_def)

section \<open>The keywords of a schema that went through the form\<close>

lemma distinct_spread: "distinct (map fst ps) \<Longrightarrow> distinct (map fst (spread ps es))"
  unfolding spread_def by (induction es arbitrary: ps) (simp_all add: distinct_obj_put)

lemma map_of_concat_keyed:
  assumes "distinct (map fst s)" "\<And>k v. f (k, v) = [] \<or> (\<exists>w. f (k, v) = [(k, w)])"
  shows "map_of (concat (map f s)) k = (case map_of s k of None \<Rightarrow> None | Some v \<Rightarrow> map_of (f (k, v)) k)"
    and "distinct (map fst (concat (map f s)))"
proof -
  have key: "x \<in> fst ` set (f p) \<Longrightarrow> x = fst p" for x p
    using assms(2) [of "fst p" "snd p"] by auto
  have keys: "fst ` set (concat (map f s)) \<subseteq> fst ` set s" for s
    by (induction s) (auto dest!: key [OF imageI])
  show "map_of (concat (map f s)) k = (case map_of s k of None \<Rightarrow> None | Some v \<Rightarrow> map_of (f (k, v)) k)"
    using assms(1)
  proof (induction s)
    case (Cons p s)
    obtain k' v where p: "p = (k', v)" by fastforce
    have "k' \<notin> fst ` set (concat (map f s))" using keys [of s] Cons.prems p by auto
    then have none: "map_of (concat (map f s)) k' = None" by (simp add: map_of_eq_None_iff)
    show ?case
      using Cons none assms(2) [of k' v] by (auto simp: p map_add_def split: option.splits)
  qed simp
  show "distinct (map fst (concat (map f s)))"
    using assms(1)
  proof (induction s)
    case (Cons p s)
    obtain k' v where p: "p = (k', v)" by fastforce
    have "k' \<notin> fst ` set (concat (map f s))" using keys [of s] Cons.prems p by auto
    then have "(k', w) \<notin> set (concat (map f s))" for w by (metis fst_conv imageI)
    then show ?case using Cons assms(2) [of k' v] by (auto simp: p simp del: set_concat)
  qed simp
qed

lemma extra_lookup:
  assumes "distinct (map fst s)"
  shows "map_of (extra_members s) k =
     (if k = js ''required'' then (if map_of s k \<noteq> None \<and> orphan_names s \<noteq> [] then Some (JArr (orphan_names s)) else None)
      else if carried s k then map_of s k else None)"
    and "distinct (map fst (extra_members s))"
proof -
  let ?f = "\<lambda>(k, v). if k = js ''required'' then (if orphan_names s \<noteq> [] then [(k, JArr (orphan_names s))] else [])
     else if carried s k then [(k, v)] else []"
  have f: "?f (k, v) = [] \<or> (\<exists>w. ?f (k, v) = [(k, w)])" for k v by simp
  note lookup = map_of_concat_keyed [where f = ?f, OF assms f]
  show "distinct (map fst (extra_members s))" unfolding extra_members_def by (rule distinct_spread) simp
  show "map_of (extra_members s) k =
     (if k = js ''required'' then (if map_of s k \<noteq> None \<and> orphan_names s \<noteq> [] then Some (JArr (orphan_names s)) else None)
      else if carried s k then map_of s k else None)"
    unfolding extra_members_def map_of_spread_distinct [OF lookup(2)] lookup(1)
    by (cases "map_of s k"; cases "k = js ''required''") simp_all
qed

definition own_members :: "draft_node \<Rightarrow> members" where
  "own_members d = type_members (nd_type d) @
      (if nd_type d = js ''object'' then
         required_members (map fst (filter (\<lambda>p. nd_required (fst (snd p))) (kept_properties d))) @
         property_members (map (\<lambda>p. (fst p, JObj (node_to_schema (fst (snd p))))) (kept_properties d))
       else []) @
      (if nd_type d = js ''array'' then
         (case nd_items d of Some it \<Rightarrow> [(js ''items'', JObj (node_to_schema it))] | None \<Rightarrow> [])
       else []) @
      bound_members d"

lemma schema_lookup:
  "distinct (map fst (nd_extra d)) \<Longrightarrow> map_of (node_to_schema d) = map_of (own_members d) ++ map_of (nd_extra d)"
  by (subst node_to_schema.simps) (simp only: own_members_def [symmetric] map_of_spread_distinct)

lemmas own_defs = own_members_def type_members_def required_members_def property_members_def bound_members_def member_def

definition BOUNDS :: "string list" where
  "BOUNDS = [''minimum'', ''maximum'', ''minLength'', ''maxLength'', ''minItems'', ''maxItems'']"

lemma bound_keywords_cases:
  assumes "bound_keywords t = Some (lo, hi)"
  shows "(t = js ''number'' \<or> t = js ''integer'') \<and> lo = ''minimum'' \<and> hi = ''maximum'' \<or>
    t = js ''string'' \<and> lo = ''minLength'' \<and> hi = ''maxLength'' \<or> t = js ''array'' \<and> lo = ''minItems'' \<and> hi = ''maxItems''"
  using assms by (auto simp: bound_keywords_def BOUND_KEYWORDS_def split: if_splits)

lemma bound_keywords_simps [simp]:
  "bound_keywords (js ''number'') = Some (''minimum'', ''maximum'')" "bound_keywords (js ''integer'') = Some (''minimum'', ''maximum'')"
  "bound_keywords (js ''string'') = Some (''minLength'', ''maxLength'')" "bound_keywords (js ''array'') = Some (''minItems'', ''maxItems'')"
  "bound_keywords (js ''object'') = None" "bound_keywords (js ''boolean'') = None" "bound_keywords (js ''null'') = None"
  "bound_keywords (js ''any'') = None"
  by (simp_all add: bound_keywords_def BOUND_KEYWORDS_def)

lemma own_type: "member (own_members d) ''type'' = (if nd_type d = js ''any'' then None else Some (JStr (nd_type d)))"
  by (cases "bound_keywords (nd_type d)") (auto simp: own_defs split: option.splits dest!: bound_keywords_cases)

lemma keyed_if: "(b \<Longrightarrow> fst ` set xs \<subseteq> K) \<Longrightarrow> fst ` set (if b then xs else []) \<subseteq> K"
  by (cases b) simp_all

lemma own_keys: "fst ` set (own_members d) \<subseteq> js ` ({''type'', ''required'', ''properties'', ''items''} \<union> set BOUNDS)"
  (is "_ \<subseteq> ?K")
proof -
  have one: "fst ` set (bound_members d) \<subseteq> ?K"
  proof (cases "bound_keywords (nd_type d)")
    case (Some b)
    obtain lo hi where b: "b = (lo, hi)" by fastforce
    have "lo \<in> set BOUNDS \<and> hi \<in> set BOUNDS"
      using bound_keywords_cases [OF Some [unfolded b]] by (auto simp: BOUNDS_def)
    then show ?thesis using Some b by (cases "nd_min d = []"; cases "nd_max d = []") (simp_all add: bound_members_def)
  qed (simp add: bound_members_def)
  have t: "fst ` set (type_members t) \<subseteq> ?K" for t by (cases "t = js ''any''") (simp_all add: type_members_def)
  have r: "fst ` set (required_members ns) \<subseteq> ?K" for ns by (cases "ns = []") (simp_all add: required_members_def)
  have p: "fst ` set (property_members ps) \<subseteq> ?K" for ps by (cases "ps = []") (simp_all add: property_members_def)
  have i: "fst ` set (case nd_items d of Some it \<Rightarrow> [(js ''items'', JObj (node_to_schema it))] | None \<Rightarrow> []) \<subseteq> ?K"
    by (cases "nd_items d") simp_all
  have o: "fst ` set (required_members ns @ property_members ps) \<subseteq> ?K" for ns ps
    unfolding set_append image_Un [of fst] by (intro Un_least r p)
  show ?thesis
    unfolding own_members_def set_append [of "type_members _"] set_append [of "if _ then _ else _"] image_Un [of fst]
    by (intro Un_least keyed_if one t i o)
qed

lemma own_other: "k \<notin> {''type'', ''required'', ''properties'', ''items''} \<union> set BOUNDS \<Longrightarrow> member (own_members d) k = None"
proof -
  assume k: "k \<notin> {''type'', ''required'', ''properties'', ''items''} \<union> set BOUNDS"
  have "js k \<notin> js ` ({''type'', ''required'', ''properties'', ''items''} \<union> set BOUNDS)"
    using k by (simp only: image_iff js_inject) blast
  then have "js k \<notin> fst ` set (own_members d)" using own_keys [of d] by blast
  then show ?thesis by (simp add: member_def map_of_eq_None_iff)
qed

lemma own_items: "nd_type d = js ''array'' \<Longrightarrow> member (own_members d) ''items'' = map_option (JObj \<circ> node_to_schema) (nd_items d)"
  by (simp add: own_defs split: option.splits)

lemma own_object:
  assumes "nd_type d = js ''object''"
  shows "member (own_members d) ''required'' =
      (case map fst (filter (\<lambda>p. nd_required (fst (snd p))) (kept_properties d)) of [] \<Rightarrow> None | names \<Rightarrow> Some (JArr (map JStr names)))"
    and "member (own_members d) ''properties'' = (if kept_properties d = [] then None
      else Some (JObj (spread [] (map (\<lambda>p. (fst p, JObj (node_to_schema (fst (snd p))))) (kept_properties d)))))"
  using assms by (auto simp: own_defs split: list.splits)

lemma own_bounds:
  assumes "bound_keywords (nd_type d) = Some (lo, hi)"
  shows "member (own_members d) lo = (if nd_min d = [] then None else Some (JNum (number_of_string (nd_min d))))"
    and "member (own_members d) hi = (if nd_max d = [] then None else Some (JNum (number_of_string (nd_max d))))"
  using bound_keywords_cases [OF assms] assms by (elim disjE conjE; simp add: own_defs split: option.split)+

section \<open>The schemas the form keeps the meaning of\<close>

text \<open>
  The bounds print and read back, a single type is named, and of an object's required names either
  all are listed properties or none is. Without a named type, no bound and no listed required name.
\<close>

definition prints_back :: "members \<Rightarrow> string \<Rightarrow> bool" where
  "prints_back s k = (case number_member s k of Some n \<Rightarrow> number_of_string (num_str n) = n | None \<Rightarrow> True)"

function (sequential) editable :: "json \<Rightarrow> bool" where
  "editable (JObj s) = (case member s ''type'' of
     Some (JStr t) \<Rightarrow>
       (case bound_keywords t of Some (lo, hi) \<Rightarrow> prints_back s lo \<and> prints_back s hi | None \<Rightarrow> True) \<and>
       (if t = js ''object'' then
          (case member s ''properties'' of
             Some (JObj ps) \<Rightarrow>
               (list_all (\<lambda>n. has_own ps (to_str n)) (listed_names s) \<or>
                list_all (\<lambda>n. \<not> in_object (to_str n) ps) (listed_names s)) \<and> list_all (\<lambda>p. editable (snd p)) ps
           | _ \<Rightarrow> True)
        else True) \<and>
       (if t = js ''array'' then (case member s ''items'' of Some it \<Rightarrow> editable it | None \<Rightarrow> True) else True)
   | Some _ \<Rightarrow> False
   | None \<Rightarrow> list_all (\<lambda>k. member s k = None) BOUNDS \<and>
       (case member s ''properties'' of Some (JObj ps) \<Rightarrow> list_all (\<lambda>n. \<not> in_object (to_str n) ps) (listed_names s) | _ \<Rightarrow> True))"
| "editable _ = False"
  by pat_completeness auto
termination
  by (relation "measure size") (auto dest: member_size member_pair_size)

declare editable.simps(1) [simp del]

section \<open>Through the form and back\<close>

lemma schema_to_node_fields:
  "nd_type (schema_to_node (JObj s) r) = named_type s" "nd_extra (schema_to_node (JObj s) r) = extra_members s"
  "nd_required (schema_to_node v r) = r"
  by (cases v; simp add: schema_to_node.simps(1))+

lemma schema_to_node_bounds:
  "bound_keywords (named_type s) = Some (lo, hi) \<Longrightarrow> nd_min (schema_to_node (JObj s) r) = bound_text s lo"
  "bound_keywords (named_type s) = Some (lo, hi) \<Longrightarrow> nd_max (schema_to_node (JObj s) r) = bound_text s hi"
  by (simp_all add: schema_to_node.simps(1))

definition republished :: "members \<Rightarrow> bool \<Rightarrow> members" where
  "republished s r = node_to_schema (schema_to_node (JObj s) r)"

lemma republished_lookup:
  assumes "distinct (map fst s)"
  shows "member (republished s r) k = (case map_of (extra_members s) (js k) of
     Some v \<Rightarrow> Some v | None \<Rightarrow> member (own_members (schema_to_node (JObj s) r)) k)"
  using schema_lookup [of "schema_to_node (JObj s) r"] extra_lookup(2) [OF assms]
  by (simp add: republished_def schema_to_node_fields member_def map_add_def split: option.split)

lemma modelled_iff: "k \<in> set MODELLED_KEYWORDS \<longleftrightarrow> k \<in> {''type'', ''required'', ''properties'', ''items''} \<union> set BOUNDS"
  by (auto simp: MODELLED_KEYWORDS_def BOUNDS_def)

lemma is_bound_of_iff: "is_bound_of t (js k) \<Longrightarrow> k \<in> set BOUNDS"
  by (auto simp: is_bound_of_def BOUNDS_def split: option.splits dest!: bound_keywords_cases)

lemma modelled_js: "js k \<in> set (map js MODELLED_KEYWORDS) \<longleftrightarrow> k \<in> set MODELLED_KEYWORDS"
  by auto

lemma carried_iff:
  "carried s (js k) \<longleftrightarrow> k \<notin> set MODELLED_KEYWORDS \<or> k = ''properties'' \<and> named_type s \<noteq> js ''object'' \<or>
     k = ''items'' \<and> named_type s \<noteq> js ''array''"
proof -
  have "set BOUNDS \<subseteq> set MODELLED_KEYWORDS" "''properties'' \<notin> set BOUNDS" "''items'' \<notin> set BOUNDS"
    by (simp_all add: BOUNDS_def MODELLED_KEYWORDS_def)
  then show ?thesis
    unfolding carried_def modelled_js js_inject using is_bound_of_iff [of "named_type s" k] by blast
qed

lemma republished_other:
  assumes "distinct (map fst s)" "k \<notin> set MODELLED_KEYWORDS"
  shows "member (republished s r) k = member s k"
proof -
  have "k \<noteq> ''required''" using assms(2) by (auto simp: modelled_iff)
  then have "map_of (extra_members s) (js k) = member s k"
    using assms by (simp add: extra_lookup carried_iff member_def)
  moreover have "member (own_members (schema_to_node (JObj s) r)) k = None"
    using assms(2) by (intro own_other) (simp add: modelled_iff)
  ultimately show ?thesis using assms(1) by (simp add: republished_lookup split: option.split)
qed

lemma republished_type:
  assumes "distinct (map fst s)"
  shows "member (republished s r) ''type'' = (if named_type s = js ''any'' then None else Some (JStr (named_type s)))"
  using assms by (simp add: republished_lookup extra_lookup carried_iff modelled_iff own_type schema_to_node_fields)

lemma republished_bounds:
  assumes "distinct (map fst s)" "bound_keywords (named_type s) = Some (lo, hi)" "k = lo \<or> k = hi"
  shows "member (republished s r) k = (if bound_text s k = [] then None else Some (JNum (number_of_string (bound_text s k))))"
proof -
  have "k \<in> set BOUNDS" using bound_keywords_cases [OF assms(2)] assms(3) by (auto simp: BOUNDS_def)
  then have k: "k \<noteq> ''required''" "\<not> carried s (js k)" by (auto simp: carried_iff modelled_iff BOUNDS_def)
  have "member (own_members (schema_to_node (JObj s) r)) k =
      (if bound_text s k = [] then None else Some (JNum (number_of_string (bound_text s k))))"
    using assms(3) own_bounds [of "schema_to_node (JObj s) r" lo hi] assms(2)
    by (auto simp: schema_to_node_fields schema_to_node_bounds)
  then show ?thesis using k assms(1) by (simp add: republished_lookup extra_lookup)
qed

lemma prints_back_nonempty: "number_of_string (num_str n) = n \<Longrightarrow> num_str n \<noteq> []"
proof
  assume "number_of_string (num_str n) = n" "num_str n = []"
  moreover have "number_of_string [] = Fin 0" by code_simp
  ultimately show False by auto
qed

lemma republished_number:
  assumes "distinct (map fst s)" "bound_keywords (named_type s) = Some (lo, hi)" "k = lo \<or> k = hi"
    "prints_back s k" "\<And>v. member s k = Some v \<Longrightarrow> \<exists>n. v = JNum n"
  shows "number_member (republished s r) k = number_member s k"
proof (cases "member s k")
  case None
  then show ?thesis using republished_bounds [OF assms(1-3), of r] by (simp add: number_member_def bound_text_def)
next
  case (Some v)
  then obtain n where v: "v = JNum n" using assms(5) by blast
  then show ?thesis
    using republished_bounds [OF assms(1-3), of r] assms(4) Some v prints_back_nonempty [of n]
    by (simp add: number_member_def bound_text_def prints_back_def)
qed

lemma meets_own_object:
  "meets_own s (JObj qs) \<longleftrightarrow> (\<forall>n\<in>set (listed_names s). has_own qs (to_str n)) \<and> list_all (meets_member s) qs"
proof (cases "member s ''required''")
  case (Some v)
  then show ?thesis by (cases v) (simp_all add: meets_own_def listed_names_def)
qed (simp add: meets_own_def listed_names_def)

lemma set_orphans:
  "set (orphan_names s) = (case member s ''properties'' of
     Some (JObj ps) \<Rightarrow> {n \<in> set (listed_names s). \<not> in_object (to_str n) ps} | _ \<Rightarrow> set (listed_names s))"
  by (auto simp: orphan_names_def split: option.splits json.splits)

lemma listed_required: "listed_names s \<noteq> [] \<Longrightarrow> member s ''required'' \<noteq> None"
  by (auto simp: listed_names_def split: option.splits)

lemma republished_required:
  assumes "distinct (map fst s)"
  shows "member (republished s r) ''required'' =
     (if orphan_names s \<noteq> [] then Some (JArr (orphan_names s)) else member (own_members (schema_to_node (JObj s) r)) ''required'')"
proof (cases "orphan_names s = []")
  case False
  then have "set (orphan_names s) \<noteq> {}" by simp
  then have "listed_names s \<noteq> []" by (auto simp: set_orphans split: option.splits json.splits)
  then have "map_of s (js ''required'') \<noteq> None" using listed_required [of s] by (simp only: member_def) simp
  then show ?thesis using False by (simp only: republished_lookup [OF assms] extra_lookup(1) [OF assms]) simp
qed (use assms in \<open>simp add: republished_lookup extra_lookup\<close>)

lemma untyped_own: "nd_type d = js ''any'' \<Longrightarrow> own_members d = []"
  by (simp add: own_members_def type_members_def bound_members_def)

lemma object_properties:
  assumes "named_type s = js ''object''"
  shows "kept_properties (schema_to_node (JObj s) r) = (case member s ''properties'' of
     Some (JObj ps) \<Rightarrow> map (\<lambda>p. (fst p, schema_to_node (snd p) (JStr (fst p) \<in> set (listed_names s)), False)) ps | _ \<Rightarrow> [])"
  using assms by (simp add: kept_properties_def schema_to_node.simps(1) filter_map comp_def split: option.split json.split)

lemma object_required:
  assumes "distinct (map fst s)" "member s ''type'' = Some (js_str ''object'')" "editable (JObj s)"
    "\<forall>n\<in>set (listed_names s). is_string n" "\<forall>p. member s ''properties'' = Some p \<longrightarrow> is_plain_object p"
  shows "set (listed_names (republished s r)) = set (listed_names s)"
proof -
  have t: "named_type s = js ''object''" using assms(2) by (simp add: named_type_def)
  note own = own_object(1) [of "schema_to_node (JObj s) r", unfolded schema_to_node_fields, OF t]
  show ?thesis
  proof (cases "orphan_names s = []")
    case False
    have "set (orphan_names s) = set (listed_names s)"
    proof (cases "member s ''properties''")
      case (Some v)
      then obtain ps where v: "v = JObj ps" using assms(5) by (cases v) auto
      have "list_all (\<lambda>n. has_own ps (to_str n)) (listed_names s) \<or> list_all (\<lambda>n. \<not> in_object (to_str n) ps) (listed_names s)"
        using assms(2,3) Some v by (simp add: editable.simps(1))
      moreover have "\<not> list_all (\<lambda>n. has_own ps (to_str n)) (listed_names s)"
      proof
        assume "list_all (\<lambda>n. has_own ps (to_str n)) (listed_names s)"
        then have "set (orphan_names s) = {}" using Some v by (auto simp: set_orphans in_object_def list_all_iff)
        then show False using False by simp
      qed
      ultimately show ?thesis using Some v by (auto simp: set_orphans list_all_iff)
    qed (simp add: set_orphans)
    then show ?thesis using False republished_required [OF assms(1), of r] by (simp add: listed_names_def)
  next
    case True
    have names: "map fst (filter (\<lambda>p. nd_required (fst (snd p))) (kept_properties (schema_to_node (JObj s) r))) =
        (case member s ''properties'' of Some (JObj ps) \<Rightarrow> filter (\<lambda>k. JStr k \<in> set (listed_names s)) (map fst ps) | _ \<Rightarrow> [])"
      unfolding object_properties [OF t]
      by (simp add: filter_map comp_def schema_to_node_fields split: option.split json.split)
    have "listed_names (republished s r) = map JStr (case member s ''properties'' of
        Some (JObj ps) \<Rightarrow> filter (\<lambda>k. JStr k \<in> set (listed_names s)) (map fst ps) | _ \<Rightarrow> [])"
      unfolding listed_names_def [of "republished s r"] republished_required [OF assms(1)] own names
      using True by (simp split: list.split)
    moreover have "\<exists>ps. member s ''properties'' = Some (JObj ps) \<and> n \<in> JStr ` set (map fst ps)" if n: "n \<in> set (listed_names s)" for n
    proof -
      have "set (orphan_names s) = {}" using True by simp
      obtain v where v: "member s ''properties'' = Some v"
        using n \<open>set (orphan_names s) = {}\<close> by (cases "member s ''properties''") (auto simp: set_orphans)
      then obtain ps where "v = JObj ps" using assms(5) by (cases v) auto
      then have ps: "member s ''properties'' = Some (JObj ps)" "in_object (to_str n) ps"
        using v n \<open>set (orphan_names s) = {}\<close> by (auto simp: set_orphans)
      have "list_all (\<lambda>n. has_own ps (to_str n)) (listed_names s) \<or> list_all (\<lambda>n. \<not> in_object (to_str n) ps) (listed_names s)"
        using assms(2,3) ps by (simp add: editable.simps(1))
      then have "has_own ps (to_str n)" using n ps(2) by (auto simp: list_all_iff)
      moreover have "is_string n" using n assms(4) by blast
      then obtain x where "n = JStr x" by (cases n) (simp_all add: is_string_def)
      ultimately show ?thesis using ps(1) by (auto simp: has_own_def object_keys_def)
    qed
    ultimately show ?thesis by (fastforce simp: image_iff)
  qed
qed

lemma map_of_members: "map_of (map (\<lambda>p. (fst p, f (fst p) (snd p))) ps) k = map_option (f k) (map_of ps k)"
  by (induction ps) auto

lemma republished_properties:
  assumes "distinct (map fst s)" "named_type s = js ''object''" "\<forall>p. member s ''properties'' = Some p \<longrightarrow> is_plain_object p"
    "wf_json (JObj s)"
  shows "map_of (schema_properties (republished s r)) k =
     map_option (\<lambda>sub. JObj (node_to_schema (schema_to_node sub (JStr k \<in> set (listed_names s))))) (map_of (schema_properties s) k)"
proof -
  let ?sub = "\<lambda>k sub. JObj (node_to_schema (schema_to_node sub (JStr k \<in> set (listed_names s))))"
  have kept: "map (\<lambda>p. (fst p, JObj (node_to_schema (fst (snd p))))) (kept_properties (schema_to_node (JObj s) r)) =
      map (\<lambda>p. (fst p, ?sub (fst p) (snd p))) (schema_properties s)"
    by (simp add: object_properties [OF assms(2)] schema_properties_def split: option.split json.split)
  have d: "distinct (map fst (schema_properties s))"
    using assms(4) by (auto simp: schema_properties_def member_def split: option.splits json.splits dest: wf_map_of)
  have e: "member (republished s r) ''properties'' = member (own_members (schema_to_node (JObj s) r)) ''properties''"
    using assms(1,2) by (simp add: republished_lookup extra_lookup carried_iff modelled_iff)
  have "map_of (spread [] (map (\<lambda>p. (fst p, ?sub (fst p) (snd p))) (schema_properties s))) k =
      map_option (?sub k) (map_of (schema_properties s) k)"
  proof -
    have "distinct (map fst (map (\<lambda>p. (fst p, ?sub (fst p) (snd p))) (schema_properties s)))" using d by (simp add: comp_def)
    from fun_cong [OF map_of_from_entries [OF this]] show ?thesis by (rule trans) (rule map_of_members [where f = ?sub])
  qed
  moreover have "kept_properties (schema_to_node (JObj s) r) = [] \<longleftrightarrow> schema_properties s = []"
    using arg_cong [OF kept, of length] by (simp only: length_map length_0_conv [symmetric])
  moreover have "schema_properties (republished s r) = (if schema_properties s = [] then []
      else spread [] (map (\<lambda>p. (fst p, ?sub (fst p) (snd p))) (schema_properties s)))"
    if "kept_properties (schema_to_node (JObj s) r) = [] \<longleftrightarrow> schema_properties s = []"
    unfolding schema_properties_def [of "republished s r"] e
      own_object(2) [of "schema_to_node (JObj s) r", unfolded schema_to_node_fields kept, OF assms(2)] that
    by (cases "schema_properties s = []") simp_all
  ultimately show ?thesis by (cases "schema_properties s = []") simp_all
qed

lemma republished_items:
  assumes "distinct (map fst s)" "named_type s = js ''array''"
  shows "member (republished s r) ''items'' = map_option (\<lambda>it. JObj (node_to_schema (schema_to_node it True))) (member s ''items'')"
proof -
  have "member (republished s r) ''items'' = member (own_members (schema_to_node (JObj s) r)) ''items''"
    using assms by (simp add: republished_lookup extra_lookup carried_iff modelled_iff)
  also have "\<dots> = map_option (\<lambda>it. JObj (node_to_schema (schema_to_node it True))) (member s ''items'')"
    using own_items [of "schema_to_node (JObj s) r"] assms(2)
    by (simp add: schema_to_node_fields) (simp add: schema_to_node.simps(1) split: option.split)
  finally show ?thesis .
qed

lemma republished_common: "distinct (map fst s) \<Longrightarrow> member s ''type'' = Some (JStr t) \<Longrightarrow> t \<noteq> js ''any'' \<Longrightarrow>
    meets_common (republished s r) v = meets_common s v"
  by (rule meets_common_cong) (auto simp: republished_other republished_type modelled_iff BOUNDS_def named_type_def)

lemma untyped_republished:
  assumes "distinct (map fst s)" "member s ''type'' = None" "editable (JObj s)"
    "\<forall>p. member s ''properties'' = Some p \<longrightarrow> is_plain_object p"
  shows "k \<noteq> ''required'' \<Longrightarrow> member (republished s r) k = member s k"
    and "set (listed_names (republished s r)) = set (listed_names s)"
proof -
  have t: "named_type s = js ''any''" using assms(2) by (simp add: named_type_def)
  have own: "member (own_members (schema_to_node (JObj s) r)) k = None" for k
    by (simp add: untyped_own schema_to_node_fields t member_def)
  have none: "k \<in> set BOUNDS \<Longrightarrow> member s k = None" for k
    using assms(2,3) by (simp add: editable.simps(1) list_all_iff)
  show "member (republished s r) k = member s k" if "k \<noteq> ''required''" for k
  proof (cases "k \<in> set MODELLED_KEYWORDS")
    case True
    have none_own: "map_of (own_members (schema_to_node (JObj s) r)) (js k) = None" using own [of k] by (simp add: member_def)
    have look: "member (republished s r) k = (if carried s (js k) then member s k else None)"
      using that none_own by (simp add: republished_lookup [OF assms(1)] extra_lookup(1) [OF assms(1)])
        (simp add: member_def split: option.split)
    have c: "carried s (js k) \<longleftrightarrow> k = ''properties'' \<or> k = ''items''"
      using True by (simp only: carried_iff t js_inject) simp
    have "k = ''type'' \<or> k = ''properties'' \<or> k = ''items'' \<or> k \<in> set BOUNDS"
      using True that by (simp only: modelled_iff) blast
    then show ?thesis using look none [of k] assms(2) by (simp only: c) (elim disjE; simp)
  qed (use assms(1) in \<open>simp add: republished_other\<close>)
  have "set (orphan_names s) = set (listed_names s)"
  proof (cases "member s ''properties''")
    case (Some v)
    then obtain ps where v: "v = JObj ps" using assms(4) by (cases v) auto
    then have "list_all (\<lambda>n. \<not> in_object (to_str n) ps) (listed_names s)"
      using assms(2,3) Some by (simp add: editable.simps(1))
    then show ?thesis using Some v by (auto simp: set_orphans list_all_iff)
  qed (simp add: set_orphans)
  moreover have "listed_names (republished s r) = orphan_names s"
    using republished_required [OF assms(1), of r] own by (simp add: listed_names_def)
  ultimately show "set (listed_names (republished s r)) = set (listed_names s)" by simp
qed

lemma supported_facts:
  assumes "supported (JObj s)"
  shows "\<forall>n\<in>set (listed_names s). is_string n" "\<forall>p. member s ''properties'' = Some p \<longrightarrow> is_plain_object p"
    "member s ''type'' = Some (JStr t) \<Longrightarrow> t \<noteq> js ''any''"
    "k \<in> set BOUNDS \<Longrightarrow> member s k = Some w \<Longrightarrow> \<exists>n. w = JNum n"
    "member s ''items'' = Some i \<Longrightarrow> supported i" "map_of (schema_properties s) x = Some sub \<Longrightarrow> supported sub"
proof -
  have l: "local_ok s" and p: "\<And>q. member s ''properties'' = Some q \<Longrightarrow> \<exists>ps. q = JObj ps"
    using assms by (auto simp: supported_JObj)
  show "\<forall>n\<in>set (listed_names s). is_string n"
  proof (cases "member s ''required''")
    case (Some v)
    then obtain names where "v = JArr names" "\<forall>n\<in>set names. is_string n" using l unfolding local_ok_def by blast
    then show ?thesis using Some by (simp add: listed_names_def)
  qed (simp add: listed_names_def)
  show "\<forall>p. member s ''properties'' = Some p \<longrightarrow> is_plain_object p" using p by fastforce
  show "t \<noteq> js ''any''" if "member s ''type'' = Some (JStr t)"
    using l that by (auto simp: local_ok_def type_names_def type_name_ok_def TYPE_NAMES_def)
  show "\<exists>n. w = JNum n" if "k \<in> set BOUNDS" "member s k = Some w"
  proof -
    have "non_negative_integer w \<or> finite_number w"
      using l that by (auto simp: local_ok_def BOUNDS_def NON_NEGATIVE_INTEGER_KEYWORDS_def FINITE_NUMBER_KEYWORDS_def)
    then show ?thesis by (cases w) (auto simp: non_negative_integer_def finite_number_def)
  qed
  show "supported i" if "member s ''items'' = Some i" using assms that by (auto simp: supported_JObj)
  show "supported sub" if "map_of (schema_properties s) x = Some sub" using supported_property [OF assms that] .
qed

lemma editable_type: "editable (JObj s) \<Longrightarrow> member s ''type'' = Some t \<Longrightarrow> \<exists>x. t = JStr x"
  by (cases t) (simp_all add: editable.simps(1))

lemma editable_sub:
  assumes "editable (JObj s)"
  shows "member s ''type'' = Some (js_str ''object'') \<Longrightarrow> map_of (schema_properties s) k = Some sub \<Longrightarrow> editable sub"
    and "member s ''type'' = Some (js_str ''array'') \<Longrightarrow> member s ''items'' = Some it \<Longrightarrow> editable it"
    and "member s ''type'' = Some (JStr t) \<Longrightarrow> bound_keywords t = Some (lo, hi) \<Longrightarrow> prints_back s lo \<and> prints_back s hi"
proof -
  show "editable sub" if t: "member s ''type'' = Some (js_str ''object'')" and k: "map_of (schema_properties s) k = Some sub"
  proof -
    obtain ps where ps: "member s ''properties'' = Some (JObj ps)" "map_of ps k = Some sub"
      using k by (auto simp: schema_properties_def split: option.splits json.splits)
    then have "list_all (\<lambda>p. editable (snd p)) ps" using assms t by (simp add: editable.simps(1))
    then show ?thesis using map_of_SomeD [OF ps(2)] by (auto simp: list_all_iff)
  qed
  show "editable it" if "member s ''type'' = Some (js_str ''array'')" "member s ''items'' = Some it"
    using assms that by (simp add: editable.simps(1))
  show "prints_back s lo \<and> prints_back s hi" if "member s ''type'' = Some (JStr t)" "bound_keywords t = Some (lo, hi)"
    using assms that by (simp add: editable.simps(1))
qed

lemma republished_in_bounds:
  assumes "distinct (map fst s)" "supported (JObj s)" "editable (JObj s)" "member s ''type'' = Some (JStr t)"
    "bound_keywords t = Some (lo, hi)"
  shows "in_bounds (republished s r) lo hi n = in_bounds s lo hi n"
proof -
  have t: "named_type s = t" using assms(4) by (simp add: named_type_def)
  have b: "lo \<in> set BOUNDS" "hi \<in> set BOUNDS" using bound_keywords_cases [OF assms(5)] by (auto simp: BOUNDS_def)
  have "number_member (republished s r) k = number_member s k" if "k = lo \<or> k = hi" for k
  proof (rule republished_number [OF assms(1) _ that])
    show "bound_keywords (named_type s) = Some (lo, hi)" using assms(5) t by simp
    show "prints_back s k" using editable_sub(3) [OF assms(3,4,5)] that by blast
    show "\<exists>n. v = JNum n" if "member s k = Some v" for v
      using supported_facts(4) [OF assms(2) _ that] b \<open>k = lo \<or> k = hi\<close> by blast
  qed
  then show ?thesis by (simp add: in_bounds_def)
qed

lemma form_keeps_meaning:
  "supported schema \<Longrightarrow> wf_json schema \<Longrightarrow> editable schema \<Longrightarrow>
     conforms (JObj (node_to_schema (schema_to_node schema r))) v = conforms schema v"
proof (induction schema arbitrary: r v rule: measure_induct_rule [where f = size])
  case (less schema)
  then obtain s where s: "schema = JObj s" using supported_is_object by blast
  have d: "distinct (map fst s)" using less.prems(2) s by simp
  note prems = less.prems [unfolded s]
  note facts = supported_facts [OF prems(1)]
  have addl: "member (republished s r) ''additionalProperties'' = member s ''additionalProperties''"
    using d by (simp add: republished_other modelled_iff BOUNDS_def)
  have "meets_common (republished s r) v \<and> meets_own (republished s r) v \<longleftrightarrow> meets_common s v \<and> meets_own s v"
  proof (cases "member s ''type''")
    case None
    note same = untyped_republished [OF d None prems(3) facts(2)]
    have k: "k \<noteq> ''required'' \<Longrightarrow> member (republished s r) k = member s k" for k using same(1) by simp
    have c: "meets_common (republished s r) w = meets_common s w" for w by (rule meets_common_cong) (auto simp: k)
    have sp: "schema_properties (republished s r) = schema_properties s" by (simp add: schema_properties_def k)
    have m: "meets_member (republished s r) = meets_member s" by (simp only: meets_member_def sp addl)
    show ?thesis
    proof (cases v)
      case (JObj qs)
      then show ?thesis using same(2) by (simp add: c meets_own_object m)
    qed (simp_all add: c meets_own_def in_bounds_def number_member_def k)
  next
    case (Some tv)
    then obtain t where t: "member s ''type'' = Some (JStr t)" using editable_type [OF prems(3)] by blast
    then have n: "named_type s = t" by (simp add: named_type_def)
    have c: "meets_common (republished s r) v = meets_common s v" using republished_common [OF d t facts(3) [OF t]] .
    note bounds = republished_in_bounds [OF d prems(1,3) t]
    have "meets_own (republished s r) v = meets_own s v" if "meets_common s v"
      using meets_common_type [OF that t]
    proof (cases rule: type_cases)
      case (arr vs)
      have "member (republished s r) ''items'' = map_option (\<lambda>it. JObj (node_to_schema (schema_to_node it True))) (member s ''items'')"
        using republished_items [OF d] n arr by simp
      moreover have "conforms (JObj (node_to_schema (schema_to_node it True))) = conforms it" if "member s ''items'' = Some it" for it
      proof (rule ext, rule less.IH)
        show "size it < size schema" using member_size [OF that] s by simp
        show "supported it" using facts(5) [OF that] .
        show "editable it" using editable_sub(2) [OF prems(3) _ that] t arr by simp
        show "wf_json it" using wf_map_of [OF prems(2) that [unfolded member_def]] .
      qed
      moreover have "in_bounds (republished s r) ''minItems'' ''maxItems'' n = in_bounds s ''minItems'' ''maxItems'' n" for n
        using bounds arr by simp
      ultimately show ?thesis using arr by (cases "member s ''items''") (simp_all add: meets_own_def)
    next
      case (obj qs)
      have req: "set (listed_names (republished s r)) = set (listed_names s)"
        using object_required [OF d _ prems(3) facts(1,2)] t obj by simp
      have "conforms (JObj (node_to_schema (schema_to_node sub b))) x = conforms sub x"
        if sub: "map_of (schema_properties s) k = Some sub" for k sub b x
      proof (rule less.IH)
        show "size sub < size schema" using schema_properties_size [OF sub] s by simp
        show "supported sub" using facts(6) [OF sub] .
        show "editable sub" using editable_sub(1) [OF prems(3) _ sub] t obj by simp
        obtain ps where "member s ''properties'' = Some (JObj ps)" "map_of ps k = Some sub"
          using sub by (auto simp: schema_properties_def split: option.splits json.splits)
        then show "wf_json sub" using wf_map_of [OF prems(2)] wf_map_of by (fastforce simp: member_def)
      qed
      then have "meets_member (republished s r) p = meets_member s p" for p
        using republished_properties [OF d _ facts(2) prems(2), of r "fst p"] n obj
        by (cases p) (auto simp: meets_member_def addl split: option.split)
      then have "meets_member (republished s r) = meets_member s" by blast
      then show ?thesis using obj req by (simp add: meets_own_object)
    qed (use bounds in \<open>auto simp: meets_own_def\<close>)
    then show ?thesis using c by blast
  qed
  then show ?case by (simp add: s republished_def [symmetric] conforms_split)
qed

section \<open>A republished schema is one the verifier accepts\<close>

lemma own_bound_other:
  assumes "k \<in> set BOUNDS" "\<not> is_bound_of (nd_type d) (js k)"
  shows "member (own_members d) k = None"
proof -
  have k: "k \<notin> {''type'', ''required'', ''properties'', ''items''}" using assms(1) by (auto simp: BOUNDS_def)
  have b: "map_of (bound_members d) (js k) = None"
    using assms(2) by (cases "bound_keywords (nd_type d)") (auto simp: bound_members_def is_bound_of_def)
  have "map_of (type_members t) (js k) = None" for t using k by (simp add: type_members_def)
  moreover have "map_of (required_members ns) (js k) = None" for ns using k by (simp add: required_members_def)
  moreover have "map_of (property_members ps) (js k) = None" for ps using k by (simp add: property_members_def)
  moreover have "map_of (case nd_items d of Some it \<Rightarrow> [(js ''items'', JObj (node_to_schema it))] | None \<Rightarrow> []) (js k) = None"
    using k by (cases "nd_items d") simp_all
  ultimately show ?thesis using b by (simp add: member_def own_members_def map_add_def)
qed

lemma republished_bound_kept:
  assumes "distinct (map fst s)" "supported (JObj s)" "editable (JObj s)" "k \<in> set BOUNDS"
  shows "member (republished s r) k = None \<or> member (republished s r) k = member s k"
proof (cases "is_bound_of (named_type s) (js k)")
  case True
  then obtain lo hi where b: "bound_keywords (named_type s) = Some (lo, hi)" "k = lo \<or> k = hi"
    by (auto simp: is_bound_of_def split: option.splits)
  then obtain t where t: "member s ''type'' = Some (JStr t)" "named_type s = t"
    by (cases "member s ''type''") (auto simp: named_type_def split: json.splits)
  have pb: "prints_back s k" using editable_sub(3) [OF assms(3) t(1)] b t(2) by blast
  have "\<exists>n. v = JNum n" if "member s k = Some v" for v using supported_facts(4) [OF assms(2,4) that] .
  then show ?thesis
    using republished_bounds [OF assms(1) b, of r] pb prints_back_nonempty
    by (cases "member s k") (fastforce simp: bound_text_def prints_back_def number_member_def)+
next
  case False
  have "\<not> carried s (js k)" "k \<noteq> ''required''" using assms(4) by (auto simp: carried_iff modelled_iff BOUNDS_def)
  then have "map_of (extra_members s) (js k) = None" using assms(1) by (simp add: extra_lookup)
  moreover have "member (own_members (schema_to_node (JObj s) r)) k = None"
    using own_bound_other [OF assms(4)] False by (simp add: schema_to_node_fields)
  ultimately show ?thesis using assms(1) by (simp add: republished_lookup)
qed

lemma republished_keys:
  assumes "distinct (map fst s)" "local_ok s"
  shows "set (object_keys (republished s r)) \<subseteq> set ANNOTATION_KEYWORDS \<union> set SUPPORTED_KEYWORDS"
proof
  fix k assume "k \<in> set (object_keys (republished s r))"
  then have "map_of (republished s r) k \<noteq> None" by (simp add: object_keys_def map_of_eq_None_iff)
  then have "map_of (extra_members s) k \<noteq> None \<or> map_of (own_members (schema_to_node (JObj s) r)) k \<noteq> None"
    using schema_lookup [of "schema_to_node (JObj s) r"] extra_lookup(2) [OF assms(1)]
    by (auto simp: republished_def schema_to_node_fields map_add_def split: option.splits)
  then show "k \<in> set ANNOTATION_KEYWORDS \<union> set SUPPORTED_KEYWORDS"
  proof
    assume "map_of (extra_members s) k \<noteq> None"
    then have "map_of s k \<noteq> None" by (auto simp: extra_lookup(1) [OF assms(1)] split: if_splits)
    then have "k \<in> set (object_keys s)" by (simp add: object_keys_def map_of_eq_None_iff)
    then show ?thesis using assms(2) by (auto simp: local_ok_def)
  next
    assume "map_of (own_members (schema_to_node (JObj s) r)) k \<noteq> None"
    then have "k \<in> fst ` set (own_members (schema_to_node (JObj s) r))" by (simp add: map_of_eq_None_iff)
    then show ?thesis using own_keys by (fastforce simp: SUPPORTED_KEYWORDS_def BOUNDS_def)
  qed
qed

lemma parts_none:
  "k \<noteq> ''type'' \<Longrightarrow> map_of (type_members t) (js k) = None"
  "k \<noteq> ''required'' \<Longrightarrow> map_of (required_members ns) (js k) = None"
  "k \<noteq> ''properties'' \<Longrightarrow> map_of (property_members ps) (js k) = None"
  "k \<notin> set BOUNDS \<Longrightarrow> map_of (bound_members d) (js k) = None"
  by (simp_all add: type_members_def required_members_def property_members_def)
    (cases "bound_keywords (nd_type d)", auto simp: bound_members_def BOUNDS_def dest!: bound_keywords_cases)

lemma own_required_other: "nd_type d \<noteq> js ''object'' \<Longrightarrow> member (own_members d) ''required'' = None"
  by (cases "nd_type d = js ''array''"; cases "nd_items d"; simp add: member_def own_members_def map_add_def parts_none BOUNDS_def)

lemma own_properties_other: "nd_type d \<noteq> js ''object'' \<Longrightarrow> member (own_members d) ''properties'' = None"
  by (cases "nd_type d = js ''array''"; cases "nd_items d"; simp add: member_def own_members_def map_add_def parts_none BOUNDS_def)

lemma own_items_other: "nd_type d \<noteq> js ''array'' \<Longrightarrow> member (own_members d) ''items'' = None"
  by (simp add: member_def own_members_def map_add_def parts_none BOUNDS_def)

lemma republished_names:
  assumes "distinct (map fst s)" "supported (JObj s)" "member (republished s r) ''required'' = Some v"
  shows "\<exists>names. v = JArr names \<and> (\<forall>n\<in>set names. is_string n)"
proof (cases "orphan_names s = []")
  case False
  have "set (orphan_names s) \<subseteq> set (listed_names s)" by (auto simp: set_orphans split: option.splits json.splits)
  then show ?thesis
    using False assms(3) supported_facts(1) [OF assms(2)] by (auto simp: republished_required [OF assms(1)])
next
  case True
  then have own: "member (own_members (schema_to_node (JObj s) r)) ''required'' = Some v"
    using assms(3) by (simp add: republished_required [OF assms(1)])
  show ?thesis
  proof (cases "named_type s = js ''object''")
    case True
    then show ?thesis
      using own own_object(1) [of "schema_to_node (JObj s) r"]
      by (auto simp: schema_to_node_fields is_string_def split: list.splits)
  next
    case False
    then show ?thesis using own own_required_other [of "schema_to_node (JObj s) r"] by (simp add: schema_to_node_fields)
  qed
qed

lemma republished_local_ok:
  assumes "distinct (map fst s)" "supported (JObj s)" "editable (JObj s)"
  shows "local_ok (republished s r)"
proof -
  have l: "local_ok s" using assms(2) by (simp add: supported_JObj)
  have same: "member (republished s r) ''enum'' = member s ''enum''"
    using assms(1) by (simp add: republished_other modelled_iff BOUNDS_def)
  have type: "member (republished s r) ''type'' = Some t \<Longrightarrow> member s ''type'' = Some t" for t
    using assms(1) editable_type [OF assms(3)]
    by (cases "member s ''type''") (auto simp: republished_type named_type_def split: if_splits json.splits)
  have bound: "member (republished s r) k = Some b \<Longrightarrow> k \<in> set BOUNDS \<Longrightarrow> member s k = Some b" for k b
    using republished_bound_kept [OF assms, of k r] by auto
  have b: "set NON_NEGATIVE_INTEGER_KEYWORDS \<subseteq> set BOUNDS" "set FINITE_NUMBER_KEYWORDS \<subseteq> set BOUNDS"
    by (simp_all add: NON_NEGATIVE_INTEGER_KEYWORDS_def FINITE_NUMBER_KEYWORDS_def BOUNDS_def)
  show ?thesis
    unfolding local_ok_def
  proof (intro conjI allI impI ballI)
    show "set (object_keys (republished s r)) \<subseteq> set ANNOTATION_KEYWORDS \<union> set SUPPORTED_KEYWORDS"
      by (rule republished_keys [OF assms(1) l])
    show "\<exists>names. v = JArr names \<and> (\<forall>n\<in>set names. is_string n)" if "member (republished s r) ''required'' = Some v" for v
      by (rule republished_names [OF assms(1,2) that])
    show "\<exists>vs. e = JArr vs \<and> vs \<noteq> []" if "member (republished s r) ''enum'' = Some e" for e
      using l that unfolding same local_ok_def by blast
    show "type_names t \<noteq> []" if "member (republished s r) ''type'' = Some t" for t
      using l type [OF that] unfolding local_ok_def by blast
    show "type_name_ok n" if "member (republished s r) ''type'' = Some t" "n \<in> set (type_names t)" for t n
      using l type [OF that(1)] that(2) unfolding local_ok_def by blast
    show "non_negative_integer v" if "k \<in> set NON_NEGATIVE_INTEGER_KEYWORDS" "member (republished s r) k = Some v" for k v
    proof -
      have "member s k = Some v" using bound [OF that(2)] that(1) b(1) by blast
      then show ?thesis using l that(1) unfolding local_ok_def by blast
    qed
    show "finite_number v" if "k \<in> set FINITE_NUMBER_KEYWORDS" "member (republished s r) k = Some v" for k v
    proof -
      have "member s k = Some v" using bound [OF that(2)] that(1) b(2) by blast
      then show ?thesis using l that(1) unfolding local_ok_def by blast
    qed
  qed
qed

lemma form_keeps_supported:
  "supported schema \<Longrightarrow> wf_json schema \<Longrightarrow> editable schema \<Longrightarrow> supported (JObj (node_to_schema (schema_to_node schema r)))"
proof (induction schema arbitrary: r rule: measure_induct_rule [where f = size])
  case (less schema)
  then obtain s where s: "schema = JObj s" using supported_is_object by blast
  have d: "distinct (map fst s)" using less.prems(2) s by simp
  note prems = less.prems [unfolded s]
  note facts = supported_facts [OF prems(1)]
  have other: "member (republished s r) k = member s k" if "k \<in> {''additionalProperties'', ''oneOf''}" for k
    using d that by (auto simp: republished_other modelled_iff BOUNDS_def)
  have sup: "supported a" if "member s ''additionalProperties'' = Some a" "\<nexists>b. a = JBool b" for a
    using prems(1) that by (auto simp: supported_JObj)
  have items: "supported i" if i: "member (republished s r) ''items'' = Some i" for i
  proof (cases "named_type s = js ''array''")
    case True
    then have t: "member s ''type'' = Some (js_str ''array'')"
      by (auto simp: named_type_def split: option.splits json.splits)
    obtain it where it: "member s ''items'' = Some it" "i = JObj (node_to_schema (schema_to_node it True))"
      using i republished_items [OF d True] by auto
    show ?thesis unfolding it(2)
    proof (rule less.IH)
      show "size it < size schema" using member_size [OF it(1)] s by simp
      show "supported it" using facts(5) [OF it(1)] .
      show "editable it" using editable_sub(2) [OF prems(3) t it(1)] .
      show "wf_json it" using wf_map_of [OF prems(2) it(1) [unfolded member_def]] .
    qed
  next
    case False
    have "member (own_members (schema_to_node (JObj s) r)) ''items'' = None"
      using False own_items_other [of "schema_to_node (JObj s) r"] by (simp add: schema_to_node_fields)
    moreover have "map_of (extra_members s) (js ''items'') = member s ''items''"
      using False by (simp add: extra_lookup(1) [OF d] carried_iff member_def)
    ultimately have "member s ''items'' = Some i"
      using i by (simp add: republished_lookup [OF d] split: option.splits)
    then show ?thesis by (rule facts(5))
  qed
  have properties: "\<exists>ps. q = JObj ps \<and> (\<forall>k sub. map_of ps k = Some sub \<longrightarrow> supported sub)"
    if q: "member (republished s r) ''properties'' = Some q" for q
  proof (cases "named_type s = js ''object''")
    case True
    then have t: "member s ''type'' = Some (js_str ''object'')"
      by (auto simp: named_type_def split: option.splits json.splits)
    have "member (own_members (schema_to_node (JObj s) r)) ''properties'' = Some q"
      using q d True by (simp add: republished_lookup extra_lookup carried_iff modelled_iff)
    then obtain ps where ps: "q = JObj ps"
      using own_object(2) [of "schema_to_node (JObj s) r"] True by (auto simp: schema_to_node_fields split: if_splits)
    have "supported sub" if sub: "map_of ps k = Some sub" for k sub
    proof -
      have "map_of (schema_properties (republished s r)) k = Some sub" using q ps sub by (simp add: schema_properties_def)
      then obtain sub0 where sub0: "map_of (schema_properties s) k = Some sub0"
        "sub = JObj (node_to_schema (schema_to_node sub0 (JStr k \<in> set (listed_names s))))"
        using republished_properties [OF d True facts(2) prems(2), of r k] by auto
      show ?thesis unfolding sub0(2)
      proof (rule less.IH)
        show "size sub0 < size schema" using schema_properties_size [OF sub0(1)] s by simp
        show "supported sub0" using facts(6) [OF sub0(1)] .
        show "editable sub0" using editable_sub(1) [OF prems(3) t sub0(1)] .
        obtain qs where "member s ''properties'' = Some (JObj qs)" "map_of qs k = Some sub0"
          using sub0(1) by (auto simp: schema_properties_def split: option.splits json.splits)
        then show "wf_json sub0" using wf_map_of [OF prems(2)] wf_map_of by (fastforce simp: member_def)
      qed
    qed
    then show ?thesis using ps by blast
  next
    case False
    have "member (own_members (schema_to_node (JObj s) r)) ''properties'' = None"
      using False own_properties_other [of "schema_to_node (JObj s) r"] by (simp add: schema_to_node_fields)
    moreover have "map_of (extra_members s) (js ''properties'') = member s ''properties''"
      using False by (simp add: extra_lookup(1) [OF d] carried_iff member_def)
    ultimately have "member s ''properties'' = Some q"
      using q by (simp add: republished_lookup [OF d] split: option.splits)
    then show ?thesis using prems(1) by (simp add: supported_JObj)
  qed
  have "supported (JObj (republished s r))"
    unfolding supported_JObj
    using republished_local_ok [OF d prems(1,3)] properties items other sup prems(1)
    by (simp add: supported_JObj)
  then show ?case by (simp add: s republished_def)
qed

section \<open>The schema read off a sample\<close>

text \<open>The elements of every array meet what the first one shows, and numbers are finite.\<close>

fun uniform :: "json \<Rightarrow> bool" where
  "uniform (JNum n) = is_finite n"
| "uniform (JArr []) = True"
| "uniform (JArr (v # vs)) = (uniform v \<and> list_all (conforms (JObj (node_to_schema (infer_node v)))) vs)"
| "uniform (JObj ps) = list_all (\<lambda>p. uniform (snd p)) ps"
| "uniform _ = True"

lemma infer_extra: "nd_extra (infer_node v) = []"
  by (cases v rule: infer_node.cases) (simp_all add: leaf_node_def)

lemma infer_min_max: "nd_min (infer_node v) = []" "nd_max (infer_node v) = []"
  by (cases v rule: infer_node.cases; simp add: leaf_node_def)+

lemma infer_required: "nd_required (infer_node v)"
  by (cases v rule: infer_node.cases) (simp_all add: leaf_node_def)

lemma infer_type: "nd_type (infer_node v) = js (case v of
    JObj _ \<Rightarrow> ''object'' | JArr _ \<Rightarrow> ''array'' | JStr _ \<Rightarrow> ''string'' | JNum _ \<Rightarrow> ''number'' | JBool _ \<Rightarrow> ''boolean'' | JNull \<Rightarrow> ''null'')"
  by (cases v rule: infer_node.cases) (simp_all add: leaf_node_def)

declare infer_node.simps [simp del]

lemma inferred_lookup: "member (node_to_schema (infer_node v)) k = member (own_members (infer_node v)) k"
  using schema_lookup [of "infer_node v"] by (simp add: infer_extra member_def)

lemma inferred_bounds: "k \<in> set BOUNDS \<Longrightarrow> member (node_to_schema (infer_node v)) k = None"
proof -
  assume k: "k \<in> set BOUNDS"
  have "bound_members (infer_node v) = []"
    by (simp add: bound_members_def infer_min_max split: option.split)
  moreover have "k \<notin> {''type'', ''required'', ''properties'', ''items''}" using k by (auto simp: BOUNDS_def)
  moreover have "map_of (case nd_items d of Some it \<Rightarrow> [(js ''items'', JObj (node_to_schema it))] | None \<Rightarrow> []) (js k) = None"
    if "k \<noteq> ''items''" for d using that by (cases "nd_items d") simp_all
  ultimately show ?thesis by (simp only: inferred_lookup) (simp add: member_def own_members_def map_add_def parts_none)
qed

lemma inferred_common: "meets_common (node_to_schema (infer_node v)) w \<longleftrightarrow> matches_type w (JStr (nd_type (infer_node v)))"
proof -
  have t: "nd_type (infer_node v) \<noteq> js ''any''" by (cases v) (simp_all add: infer_type)
  have "member (node_to_schema (infer_node v)) k = None" if "k \<in> {''const'', ''enum'', ''oneOf''}" for k
    using that own_other [of k "infer_node v"] by (auto simp: inferred_lookup BOUNDS_def)
  moreover have "member (node_to_schema (infer_node v)) ''type'' = Some (JStr (nd_type (infer_node v)))"
    using t by (simp add: inferred_lookup own_type)
  ultimately show ?thesis by (simp add: meets_common_def one_of_def type_names_def)
qed

lemma inferred_bounds_met: "{lo, hi} \<subseteq> set BOUNDS \<Longrightarrow> in_bounds (node_to_schema (infer_node v)) lo hi n"
  by (simp add: in_bounds_def number_member_def inferred_bounds)

lemma inferred_object:
  assumes "distinct (map fst ps)"
  shows "set (listed_names (node_to_schema (infer_node (JObj ps)))) = JStr ` fst ` set ps"
    and "map_of (schema_properties (node_to_schema (infer_node (JObj ps)))) k =
      map_option (\<lambda>v. JObj (node_to_schema (infer_node v))) (map_of ps k)"
    and "member (node_to_schema (infer_node (JObj ps))) ''additionalProperties'' = None"
proof -
  let ?d = "infer_node (JObj ps)" and ?sub = "\<lambda>k v. JObj (node_to_schema (infer_node v))"
  have kept: "kept_properties ?d = map (\<lambda>p. (fst p, infer_node (snd p), False)) ps"
    by (simp add: kept_properties_def filter_map comp_def infer_node.simps)
  have t: "nd_type ?d = js ''object''" by (simp add: infer_type)
  note own = own_object [of ?d, unfolded kept, OF t]
  have n: "map fst (filter (\<lambda>p. nd_required (fst (snd p))) (map (\<lambda>p. (fst p, infer_node (snd p), False)) ps)) = map fst ps"
    by (simp add: filter_map comp_def infer_required)
  have "listed_names (node_to_schema ?d) = map JStr (map fst ps)"
    using own(1) unfolding n by (cases ps) (simp_all add: listed_names_def inferred_lookup)
  then show "set (listed_names (node_to_schema ?d)) = JStr ` fst ` set ps" by (simp add: image_image)
  have "map_of (map (\<lambda>p. (fst p, ?sub (fst p) (snd p))) ps) k = map_option (?sub k) (map_of ps k)"
    by (rule map_of_members [where f = ?sub])
  moreover have "distinct (map fst (map (\<lambda>p. (fst p, ?sub (fst p) (snd p))) ps))" using assms by (simp add: comp_def)
  ultimately show "map_of (schema_properties (node_to_schema ?d)) k = map_option (?sub k) (map_of ps k)"
    using own(2) by (cases "ps = []") (simp_all add: schema_properties_def inferred_lookup map_of_from_entries comp_def)
  show "member (node_to_schema ?d) ''additionalProperties'' = None"
    using own_other [of "''additionalProperties''" ?d] by (simp add: inferred_lookup BOUNDS_def)
qed

lemma inferred_iff_uniform: "wf_json v \<Longrightarrow> conforms (JObj (node_to_schema (infer_node v))) v \<longleftrightarrow> uniform v"
proof (induction v rule: uniform.induct)
  case (2)
  have "member (node_to_schema (infer_node (JArr []))) ''items'' = None"
    using own_items [of "infer_node (JArr [])"] by (simp only: inferred_lookup) (simp add: infer_type infer_node.simps leaf_node_def)
  then show ?case by (simp add: conforms_split inferred_common infer_type meets_own_def inferred_bounds_met BOUNDS_def)
next
  case (3 v vs)
  have "member (node_to_schema (infer_node (JArr (v # vs)))) ''items'' = Some (JObj (node_to_schema (infer_node v)))"
    using own_items [of "infer_node (JArr (v # vs))"] by (simp only: inferred_lookup) (simp add: infer_type infer_node.simps)
  moreover have "meets_common (node_to_schema (infer_node (JArr (v # vs)))) (JArr (v # vs))" by (simp add: inferred_common infer_type)
  moreover have "in_bounds (node_to_schema (infer_node (JArr (v # vs)))) ''minItems'' ''maxItems'' n" for n
    by (simp add: inferred_bounds_met BOUNDS_def)
  ultimately have "conforms (JObj (node_to_schema (infer_node (JArr (v # vs))))) (JArr (v # vs)) \<longleftrightarrow>
      list_all (conforms (JObj (node_to_schema (infer_node v)))) (v # vs)"
    unfolding conforms_split [of "node_to_schema (infer_node (JArr (v # vs)))"] by (simp only: meets_own_def) simp
  then show ?case using 3 by simp
next
  case (4 ps)
  have d: "distinct (map fst ps)" using 4 by simp
  note obj = inferred_object [OF d]
  have "meets_member (node_to_schema (infer_node (JObj ps))) p = uniform (snd p)" if "p \<in> set ps" for p
  proof -
    obtain k x where p: "p = (k, x)" by fastforce
    then have "map_of ps k = Some x" using d that by (simp add: map_of_eq_Some_iff)
    then show ?thesis using 4 that p obj(2) [of k] by (auto simp: meets_member_def)
  qed
  then show ?case
    using obj(1) by (simp only: conforms_split meets_own_object inferred_common)
      (auto simp: infer_type list_all_iff has_own_def object_keys_def)
qed (simp_all add: conforms_split inferred_common infer_type meets_own_def inferred_bounds_met BOUNDS_def is_string_def)

section \<open>Amounts\<close>

lemma undec_append: "undec (a @ b) = undec a * 10 ^ length b + undec b"
proof (induction b rule: rev_induct)
  case (snoc c b)
  have "undec (a @ b @ [c]) = 10 * undec (a @ b) + digit_val c" using undec_snoc [of "a @ b" c] by simp
  then show ?case using snoc by (simp add: undec_snoc algebra_simps)
qed (simp add: undec_def)

lemma undec_zeros: "undec (replicate k 48) = 0"
proof (induction k)
  case (Suc k)
  have "undec (replicate (Suc k) 48) = undec ([48] @ replicate k 48)" by simp
  also have "\<dots> = 0" using Suc by (simp only: undec_append) (simp add: undec_def digit_val_def)
  finally show ?case .
qed (simp add: undec_def)

lemma trim_stay: "s \<noteq> [] \<Longrightarrow> \<not> is_space (hd s) \<Longrightarrow> \<not> is_space (last s) \<Longrightarrow> trim s = s"
proof -
  assume s: "s \<noteq> []" "\<not> is_space (hd s)" "\<not> is_space (last s)"
  have "dropWhile is_space s = s" using s(1,2) by (cases s) auto
  moreover have "dropWhile is_space (rev s) = rev s" using s(1,3) by (cases s rule: rev_cases) auto
  ultimately show ?thesis by (simp add: trim_def)
qed

lemma digit_not_space: "is_digit c \<Longrightarrow> \<not> is_space c"
  by (auto simp: is_digit_def is_space_def word_le_nat_alt)

lemma takeWhile_digits: "list_all is_digit a \<Longrightarrow> takeWhile is_digit (a @ 46 # b) = a \<and> dropWhile is_digit (a @ 46 # b) = 46 # b"
  by (induction a) (auto simp: is_digit_def)

lemma strip_zeros:
  obtains k where "w = rev (dropWhile (\<lambda>c. c = 48) (rev w)) @ replicate k (48 :: code_unit)"
proof -
  have "takeWhile (\<lambda>c. c = 48) (rev w) = replicate (length (takeWhile (\<lambda>c. c = 48) (rev w))) 48"
    by (rule replicate_eqI) (auto dest: set_takeWhileD)
  then have "rev w = replicate (length (takeWhile (\<lambda>c. c = 48) (rev w))) 48 @ dropWhile (\<lambda>c. c = 48) (rev w)"
    by (metis takeWhile_dropWhile_id)
  then have "w = rev (dropWhile (\<lambda>c. c = 48) (rev w)) @ replicate (length (takeWhile (\<lambda>c. c = 48) (rev w))) 48"
    by (metis rev_append rev_replicate rev_rev_ident)
  then show thesis by (rule that)
qed

lemma minor_units_parts:
  assumes "decimal_integer m"
  obtains w f where "w \<noteq> []" "list_all is_digit w" "list_all is_digit f" "length f \<le> 6"
    "undec w * 10 ^ 6 + undec (pad_end 6 48 f) = undec m"
    "minor_units_to_usdc m = (if f \<noteq> [] then w @ 46 # f else w)"
proof -
  let ?p = "pad_start 7 48 m"
  define w where "w = take (length ?p - 6) ?p"
  define g where "g = drop (length ?p - 6) ?p"
  define f where "f = rev (dropWhile (\<lambda>c. c = 48) (rev g))"
  have len: "7 \<le> length ?p" by (simp add: pad_start_def)
  have digits: "list_all is_digit ?p" using assms by (auto simp: pad_start_def decimal_integer_def list_all_iff is_digit_def)
  obtain k where k: "g = f @ replicate k 48" using strip_zeros [of g] unfolding f_def by blast
  have g: "length g = 6" using len by (simp add: g_def)
  then have f: "length f + k = 6" using k by (metis length_append length_replicate)
  have pad: "pad_end 6 48 f = g" using f k by (simp add: pad_end_def)
  have p: "?p = w @ g" by (simp add: w_def g_def)
  have "undec ?p = undec m" by (simp add: pad_start_def undec_append undec_zeros)
  then have sum: "undec w * 10 ^ 6 + undec g = undec m" using p g by (simp add: undec_append)
  show thesis
  proof (rule that [of w f])
    show "w \<noteq> []" using len by (auto simp: w_def)
    show "list_all is_digit w" "list_all is_digit f" using digits p k by auto
    show "length f \<le> 6" using f by simp
    show "undec w * 10 ^ 6 + undec (pad_end 6 48 f) = undec m" using pad sum by simp
    show "minor_units_to_usdc m = (if f \<noteq> [] then w @ 46 # f else w)"
      using assms by (simp add: minor_units_to_usdc_def USDC_DECIMALS_def Let_def w_def g_def f_def js_def)
  qed
qed

lemma minor_units_shown_back:
  assumes "decimal_integer m"
  shows "usdc_to_minor_units (minor_units_to_usdc m) = Some m"
proof -
  obtain w f where wf: "w \<noteq> []" "list_all is_digit w" "list_all is_digit f" "length f \<le> 6"
    "undec w * 10 ^ 6 + undec (pad_end 6 48 f) = undec m" "minor_units_to_usdc m = (if f \<noteq> [] then w @ 46 # f else w)"
    using minor_units_parts [OF assms] by blast
  have hd: "\<not> is_space (hd w)" "\<not> is_space (last w)" "f \<noteq> [] \<Longrightarrow> \<not> is_space (last f)"
    using wf(1-3) hd_in_set [of w] last_in_set [of w] last_in_set [of f] digit_not_space by (simp_all add: list_all_iff)
  have t: "trim (minor_units_to_usdc m) = minor_units_to_usdc m"
    using wf(1,6) hd by (cases "f = []") (simp_all add: trim_stay)
  have "usdc_text (minor_units_to_usdc m) = Some (w, f)"
  proof (cases f)
    case Nil
    have "usdc_text w = Some (w, [])"
      unfolding usdc_text_def Let_def digits_parts [OF wf(2), THEN conjunct1] digits_parts [OF wf(2), THEN conjunct2]
      using wf(1) by simp
    then show ?thesis using wf(6) Nil by simp
  next
    case (Cons c f')
    then show ?thesis using wf(1,3,4,6) takeWhile_digits [OF wf(2), of f] by (simp add: usdc_text_def Let_def)
  qed
  then show ?thesis
    using wf(5) dec_undec [OF assms] by (simp add: usdc_to_minor_units_def t USDC_DECIMALS_def)
qed

text \<open>An amount in minor units, shown in USDC and read back, is the same text.\<close>

theorem amount_survives_the_form:
  assumes "decimal_integer m"
  shows "usdc_to_minor_units (minor_units_to_usdc m) = Some m"
  by (rule minor_units_shown_back [OF assms])

theorem amount_survives_the_form_witness: "minor_units_to_usdc (js ''2500'') = js ''0.0025'' \<and>
    usdc_to_minor_units (minor_units_to_usdc (js ''2500'')) = Some (js ''2500'')"
proof
  show "minor_units_to_usdc (js ''2500'') = js ''0.0025''" by code_simp
  have "decimal_integer (js ''2500'')" by code_simp
  then show "usdc_to_minor_units (minor_units_to_usdc (js ''2500'')) = Some (js ''2500'')" by (rule amount_survives_the_form)
qed

section \<open>Ids\<close>

lemma free_number_free: "numbered w (free_number w taken n) \<notin> set taken"
  by (induction w taken n rule: free_number.induct) (subst free_number.simps, simp)

lemma free_number_least: "n \<le> m \<Longrightarrow> m < free_number w taken n \<Longrightarrow> numbered w m \<in> set taken"
proof (induction w taken n rule: free_number.induct)
  case (1 w taken n)
  show ?case
  proof (cases "numbered w n \<in> set taken")
    case True
    then have "free_number w taken n = free_number w taken (Suc n)" by (subst free_number.simps) simp
    then show ?thesis using 1 True by (cases "m = n") auto
  next
    case False
    then have "free_number w taken n = n" by (subst free_number.simps) simp
    then show ?thesis using "1.prems" by simp
  qed
qed

text \<open>
  The search for a free id ends: it is fresh, it is the wanted one when that is free, and otherwise
  the wanted one with the smallest free number from 2 on.
\<close>

theorem unique_id_is_fresh:
  "unique_id wanted taken \<notin> set taken \<and>
   (unique_id wanted taken = wanted \<or>
    (\<exists>n\<ge>2. unique_id wanted taken = numbered wanted n \<and> {wanted} \<union> numbered wanted ` {2..<n} \<subseteq> set taken))"
proof (cases "wanted \<in> set taken")
  case True
  have "2 \<le> free_number w t n" if "2 \<le> n" for w t n
    using that by (induction w t n rule: free_number.induct) (subst free_number.simps, simp)
  then have "2 \<le> free_number wanted taken 2" by simp
  moreover have "numbered wanted ` {2..<free_number wanted taken 2} \<subseteq> set taken"
    using free_number_least [of 2 _ wanted taken] by auto
  ultimately show ?thesis using True free_number_free [of wanted taken 2] by (auto simp: unique_id_def)
qed (simp add: unique_id_def)

section \<open>Editing a published schema\<close>


definition example_edited :: json where
  "example_edited = JObj [(js ''type'', js_str ''object''), (js ''required'', JArr [js_str ''temp'']),
     (js ''properties'', JObj [(js ''temp'', JObj [(js ''type'', js_str ''number''), (js ''minimum'', JNum (Fin (-60)))]),
        (js ''tags'', JObj [(js ''type'', js_str ''array''), (js ''items'', JObj [(js ''type'', js_str ''string'')])])]),
     (js ''additionalProperties'', JBool False)]"


text \<open>Outside that fragment a promise is lost.\<close>

lemma type_list_is_dropped:
  "node_to_schema (schema_to_node (JObj [(js ''type'', JArr [js_str ''string'', js_str ''null''])]) True) = []"
  by code_simp

lemma untyped_bound_is_dropped:
  "node_to_schema (schema_to_node (JObj [(js ''minimum'', JNum (Fin 0))]) True) = []"
  by code_simp

lemma listed_name_is_overwritten:
  "member (node_to_schema (schema_to_node (JObj [(js ''type'', js_str ''object''), (js ''required'', JArr [js_str ''a'', js_str ''b'']),
     (js ''properties'', JObj [(js ''a'', JObj [])])]) True)) ''required'' = Some (JArr [js_str ''b''])"
proof -
  let ?s = "[(js ''type'', js_str ''object''), (js ''required'', JArr [js_str ''a'', js_str ''b'']), (js ''properties'', JObj [(js ''a'', JObj [])])]"
  have "orphan_names ?s = [js_str ''b'']"
    by (simp add: orphan_names_def listed_names_def member_def in_object_def has_own_def object_keys_def OBJECT_PROTOTYPE_def)
  then show ?thesis using republished_required [of ?s True] by (simp add: republished_def)
qed

section \<open>Reading the shape off a sample\<close>


lemma conforms_here_code [code]:
  "conforms_here s v \<longleftrightarrow>
     (case member s ''type'' of Some t \<Rightarrow> list_ex (matches_type v) (type_names t) | None \<Rightarrow> True) \<and>
     (case member s ''const'' of Some c \<Rightarrow> deep_equal v c | None \<Rightarrow> True) \<and>
     (case member s ''enum'' of Some (JArr options) \<Rightarrow> list_ex (deep_equal v) options | _ \<Rightarrow> True) \<and>
     (case v of
        JNum n \<Rightarrow> (case number_member s ''minimum'' of Some lo \<Rightarrow> \<not> num_less n lo | None \<Rightarrow> True) \<and>
          (case number_member s ''maximum'' of Some hi \<Rightarrow> \<not> num_less hi n | None \<Rightarrow> True)
      | JStr t \<Rightarrow> (case number_member s ''minLength'' of Some lo \<Rightarrow> \<not> num_less (len_num t) lo | None \<Rightarrow> True) \<and>
          (case number_member s ''maxLength'' of Some hi \<Rightarrow> \<not> num_less hi (len_num t) | None \<Rightarrow> True)
      | JArr vs \<Rightarrow> (case number_member s ''minItems'' of Some lo \<Rightarrow> \<not> num_less (len_num vs) lo | None \<Rightarrow> True) \<and>
          (case number_member s ''maxItems'' of Some hi \<Rightarrow> \<not> num_less hi (len_num vs) | None \<Rightarrow> True)
      | JObj ps \<Rightarrow> list_all (\<lambda>n. has_own ps (to_str n)) (listed_names s)
      | _ \<Rightarrow> True)"
proof -
  have enum: "(\<forall>options. member s ''enum'' = Some (JArr options) \<longrightarrow> (\<exists>c\<in>set options. deep_equal v c)) \<longleftrightarrow>
      (case member s ''enum'' of Some (JArr options) \<Rightarrow> list_ex (deep_equal v) options | _ \<Rightarrow> True)"
    by (auto simp: list_ex_iff split: option.split json.split)
  have names: "(\<forall>names. member s ''required'' = Some (JArr names) \<longrightarrow> (\<forall>n\<in>set names. has_own ps (to_str n))) \<longleftrightarrow>
      list_all (\<lambda>n. has_own ps (to_str n)) (listed_names s)" for ps
    by (cases "member s ''required''"; cases "the (member s ''required'')") (auto simp: list_all_iff listed_names_def)
  show ?thesis
    unfolding conforms_here_def enum
    by (cases v) (simp_all add: names list_ex_iff split: option.split)
qed


end
