(* ===== verification/Sla_Republish.thy ===== *)
theory Sla_Republish imports Sla_Draft begin

text \<open>
  A published SLA opened in the form of \<open>sla-draft.js\<close> and published again: the document the draft
  serialises to is one \<open>parseSla\<close> accepts, and \<open>evaluate\<close> judges every observation alike under both.
\<close>

section \<open>Well-formedness\<close>

definition wf_values :: "members \<Rightarrow> bool" where
  "wf_values ps \<longleftrightarrow> list_all (\<lambda>e. wf_json (snd e)) ps"

lemma wf_values_simps [simp]:
  "wf_values []" "wf_values (e # ps) \<longleftrightarrow> wf_json (snd e) \<and> wf_values ps" "wf_values (a @ b) \<longleftrightarrow> wf_values a \<and> wf_values b"
  "wf_values (if t then a else b) \<longleftrightarrow> (if t then wf_values a else wf_values b)"
  by (auto simp: wf_values_def)

lemma wf_object: "wf_json (JObj ps) \<longleftrightarrow> distinct (map fst ps) \<and> wf_values ps"
  by (auto simp: wf_values_def list_all_iff)

lemma wf_spread: "wf_json (JObj ps) \<Longrightarrow> wf_values es \<Longrightarrow> wf_json (JObj (spread ps es))"
  unfolding spread_def by (induction es arbitrary: ps) (simp_all add: wf_obj_put case_prod_beta del: wf_json.simps(2))

lemma own_distinct: "distinct (map fst (own_members d))"
proof -
  have bounds: "distinct (map fst (bound_members d))" "js ''type'' \<notin> fst ` set (bound_members d)" "js ''items'' \<notin> fst ` set (bound_members d)"
    by (cases "bound_keywords (nd_type d)"; auto simp: bound_members_def dest!: bound_keywords_cases)+
  consider "nd_type d = js ''any''" | "nd_type d = js ''object''" | "nd_type d = js ''array''"
    | "nd_type d \<notin> {js ''any'', js ''object'', js ''array''}" by blast
  then show ?thesis
  proof cases
    case 2
    have "distinct (map fst (required_members ns @ property_members ps))"
      "js ''type'' \<notin> fst ` set (required_members ns)" "js ''type'' \<notin> fst ` set (property_members ps)" for ns ps
      by (cases "ns = []"; cases "ps = []"; simp add: required_members_def property_members_def)+
    then show ?thesis using 2 by (simp add: own_members_def type_members_def bound_members_def)
  next
    case 3
    then show ?thesis using bounds by (cases "nd_items d") (simp_all add: own_members_def type_members_def)
  qed (use bounds in \<open>simp_all add: own_members_def type_members_def bound_members_def\<close>)
qed

lemma wf_own:
  assumes "\<And>p. p \<in> set (kept_properties d) \<Longrightarrow> wf_json (JObj (node_to_schema (fst (snd p))))"
    "\<And>it. nd_items d = Some it \<Longrightarrow> wf_json (JObj (node_to_schema it))"
  shows "wf_json (JObj (own_members d))"
proof -
  have t: "wf_values (type_members t)" for t by (simp add: type_members_def)
  have r: "wf_values (required_members ns)" for ns by (simp add: required_members_def)
  have b: "wf_values (bound_members d)" by (simp add: bound_members_def split: option.split)
  have "wf_values (map (\<lambda>p. (fst p, JObj (node_to_schema (fst (snd p))))) (kept_properties d))"
    using assms(1) by (simp add: wf_values_def list_all_iff del: wf_json.simps)
  then have "wf_json (JObj (spread [] (map (\<lambda>p. (fst p, JObj (node_to_schema (fst (snd p))))) (kept_properties d))))"
    by (intro wf_spread) simp
  then have p: "wf_values (property_members (map (\<lambda>p. (fst p, JObj (node_to_schema (fst (snd p))))) (kept_properties d)))"
    by (simp add: property_members_def del: wf_json.simps)
  have i: "wf_values (case nd_items d of Some it \<Rightarrow> [(js ''items'', JObj (node_to_schema it))] | None \<Rightarrow> [])"
    using assms(2) by (cases "nd_items d") (simp_all del: wf_json.simps)
  have "wf_values (own_members d)"
    unfolding own_members_def using t r p i b by simp
  then show ?thesis unfolding wf_object using own_distinct by blast
qed

lemma node_members: "node_to_schema d = spread (own_members d) (nd_extra d)"
  by (subst node_to_schema.simps) (simp only: own_members_def)

lemma wf_extra: "wf_json (JObj s) \<Longrightarrow> wf_json (JObj (extra_members s))"
proof -
  assume s: "wf_json (JObj s)"
  have listed: "wf_json n" if "n \<in> set (listed_names s)" for n
  proof (cases "member s ''required''")
    case (Some v)
    have "wf_json v" using wf_map_of [OF s] Some unfolding member_def by blast
    then show ?thesis using that Some by (cases v) (simp_all add: listed_names_def)
  qed (use that in \<open>simp add: listed_names_def\<close>)
  have "set (orphan_names s) \<subseteq> set (listed_names s)" by (auto simp: orphan_names_def split: option.splits json.splits)
  then have orphans: "wf_json (JArr (orphan_names s))" using listed by auto
  have "wf_values (concat (map (\<lambda>(k, v). if k = js ''required'' then (if orphan_names s \<noteq> [] then [(k, JArr (orphan_names s))] else [])
      else if carried s k then [(k, v)] else []) ps))" if "set ps \<subseteq> set s" for ps
    using that
  proof (induction ps)
    case (Cons p ps)
    obtain k v where p: "p = (k, v)" by fastforce
    have "wf_json v" using Cons.prems s by (auto simp: p)
    then show ?case using Cons orphans by (simp add: p del: wf_json.simps)
  qed simp
  from this [of s] show ?thesis unfolding extra_members_def by (intro wf_spread) simp_all
qed

lemma wf_node: "wf_json schema \<Longrightarrow> wf_json (JObj (node_to_schema (schema_to_node schema r)))"
proof (induction schema arbitrary: r rule: measure_induct_rule [where f = size])
  case (less schema)
  show ?case
  proof (cases "\<exists>s. schema = JObj s")
    case False
    then have "schema_to_node schema r = Draft_Node (js ''any'') r [] [] [] None []" by (cases schema) simp_all
    then show ?thesis by (simp add: node_members own_members_def type_members_def bound_members_def spread_def)
  next
    case True
    then obtain s where s: "schema = JObj s" by blast
    let ?d = "schema_to_node (JObj s) r"
    note wf = less.prems [unfolded s]
    have sub: "wf_json v" "size v < size (JObj s)" if "member s k = Some v" for k v
      using that wf_map_of [OF wf] member_size [of s k v] unfolding member_def by blast+
    have "wf_json (JObj (node_to_schema (fst (snd p))))" if p: "p \<in> set (kept_properties ?d)" for p
    proof -
      from p have p': "p \<in> set (nd_properties ?d)" by (simp add: kept_properties_def)
      then have ob: "named_type s = js ''object''" by (cases "named_type s = js ''object''") (simp_all add: schema_to_node.simps(1))
      obtain v where v: "member s ''properties'' = Some v"
        using p' ob by (cases "member s ''properties''") (simp_all add: schema_to_node.simps(1))
      obtain ps where ps: "v = JObj ps" using p' ob v by (cases v) (simp_all add: schema_to_node.simps(1))
      have "p \<in> (\<lambda>q. (fst q, schema_to_node (snd q) (JStr (fst q) \<in> set (listed_names s)), False)) ` set ps"
        using p' ob v ps by (simp add: schema_to_node.simps(1))
      then obtain q where q: "q \<in> set ps" "fst (snd p) = schema_to_node (snd q) (JStr (fst q) \<in> set (listed_names s))"
        by auto
      note q = v [unfolded ps] q
      have "wf_json (snd q)" using sub(1) [OF q(1)] q(2) by simp
      then show ?thesis unfolding q(3) using member_pair_size [OF q(1,2)] s by (intro less.IH) simp_all
    qed
    moreover have "wf_json (JObj (node_to_schema it))" if it: "nd_items ?d = Some it" for it
    proof -
      obtain v where v: "member s ''items'' = Some v" "it = schema_to_node v True"
        using it by (auto simp: schema_to_node.simps(1) split: if_splits option.splits)
      show ?thesis unfolding v(2) using sub [OF v(1)] s by (intro less.IH) simp_all
    qed
    ultimately have "wf_json (JObj (own_members ?d))" by (rule wf_own)
    moreover have "wf_values (extra_members s)" using wf_extra [OF wf] unfolding wf_object by blast
    ultimately show ?thesis unfolding s node_members schema_to_node_fields by (rule wf_spread)
  qed
qed


section \<open>A clause\<close>

lemma trim_length: "length (trim s) \<le> length s"
proof -
  have "length (dropWhile P t) \<le> length t" for P and t :: jstring by (rule length_dropWhile_le)
  then show ?thesis unfolding trim_def by (metis length_rev order_trans)
qed

lemma milliseconds_print_back:
  assumes "n < 2 ^ 53"
  shows "num_str (Fin (of_nat n)) \<noteq> []" "number_of_string (num_str (Fin (of_nat n))) = Fin (of_nat n)"
proof -
  have s: "num_str (Fin (of_nat n)) = dec n" using num_str_nat [of n] assms by simp
  then show "num_str (Fin (of_nat n)) \<noteq> []" by simp
  have "list_all is_digit (dec n)" by (simp add: list_all_iff dec_digits)
  then show "number_of_string (num_str (Fin (of_nat n))) = Fin (of_nat n)"
    unfolding s using number_of_digits [of "dec n"] assms by simp
qed

definition republished_clause :: "members \<Rightarrow> members" where
  "republished_clause c = head_members (draft_of_clause c) @ kind_members (kind_of_clause c)"

lemma clause_of_draft_of: "clause_of_draft (draft_of_clause c) = JObj (republished_clause c)"
  by (simp add: clause_of_draft_def republished_clause_def draft_of_clause_def)

text \<open>What the form can carry: schemas it keeps the meaning of, and criteria that are more than blanks.\<close>

definition editable_clause :: "members \<Rightarrow> bool" where
  "editable_clause c \<longleftrightarrow>
     (text_of c ''type'' = js ''schema'' \<longrightarrow> (case member c ''schema'' of Some s \<Rightarrow> editable s | None \<Rightarrow> True)) \<and>
     (text_of c ''type'' = js ''semantic'' \<longrightarrow> trim (text_of c ''criteria'') \<noteq> [])"

definition same_clause :: "members \<Rightarrow> members \<Rightarrow> bool" where
  "same_clause c c' \<longleftrightarrow> text_of c' ''id'' = text_of c ''id'' \<and> clause_shape (JObj c') \<and> wf_json (JObj c') \<and>
     (clause_ok c \<longrightarrow> clause_ok c') \<and> (clause_ok c \<longrightarrow> (\<forall>obs. clause_promise c' obs \<longleftrightarrow> clause_promise c obs))"

lemma clause_lookup:
  "member (republished_clause c) ''id'' = Some (JStr (text_of c ''id''))"
  "k \<noteq> ''id'' \<Longrightarrow> k \<noteq> ''description'' \<Longrightarrow> member (republished_clause c) k = member (kind_members (kind_of_clause c)) k"
  by (auto simp: republished_clause_def head_members_def draft_of_clause_def member_def)

lemma republished_head:
  assumes head: "clause_head c t ks" and keys: "map fst (kind_members (kind_of_clause c)) = map js (''type'' # ks)"
    and type: "member (kind_members (kind_of_clause c)) ''type'' = Some (js_str t)"
    and d: "distinct (''id'' # ''description'' # ''type'' # ks)"
  shows "clause_head (republished_clause c) t ks" "distinct (map fst (republished_clause c))"
    "text_of (republished_clause c) ''id'' = text_of c ''id''" "text_of (republished_clause c) ''type'' = js t"
proof -
  let ?desc = "dc_description (draft_of_clause c)"
  have m: "map fst (republished_clause c) = js ''id'' # (if trim ?desc \<noteq> [] then [js ''description''] else []) @ map js (''type'' # ks)"
    using keys by (simp add: republished_clause_def head_members_def)
  show "distinct (map fst (republished_clause c))"
    using d unfolding m by (auto simp: distinct_map inj_on_def)
  have only: "only_members (republished_clause c) ([''id'', ''description'', ''type''] @ ks)"
    unfolding only_members_def object_keys_def m by (auto simp: list_all_iff)
  have id: "string_member (republished_clause c) ''id'' 1 64"
    using head unfolding clause_head_def string_member_def clause_lookup(1)
    by (auto simp: text_of_def string_of_value_def split: option.splits json.splits)
  have no: "member (kind_members (kind_of_clause c)) ''description'' = None"
  proof -
    have "js ''description'' \<notin> set (map fst (kind_members (kind_of_clause c)))" using d unfolding keys by auto
    then show ?thesis by (simp add: member_def map_of_eq_None_iff)
  qed
  have "length ?desc \<le> 256"
    using head by (auto simp: clause_head_def string_member_def draft_of_clause_def split: option.splits json.splits)
  then have desc: "member (republished_clause c) ''description'' = None \<or> string_member (republished_clause c) ''description'' 0 256"
    using trim_length [of ?desc] no
    by (auto simp: republished_clause_def head_members_def string_member_def member_def)
  have t: "member (republished_clause c) ''type'' = Some (js_str t)" using type by (simp add: clause_lookup(2))
  show "clause_head (republished_clause c) t ks" unfolding clause_head_def using only id desc t by blast
  show "text_of (republished_clause c) ''id'' = text_of c ''id''" "text_of (republished_clause c) ''type'' = js t"
    by (rule text_of_JStr, rule clause_lookup(1)) (rule text_of_JStr, rule t)
qed

lemma wf_clause: "distinct (map fst (republished_clause c)) \<Longrightarrow> wf_values (kind_members (kind_of_clause c)) \<Longrightarrow>
   wf_json (JObj (republished_clause c))"
  unfolding wf_object by (simp add: republished_clause_def head_members_def)

lemma republished_latency:
  assumes "latency_clause_shape c"
  shows "same_clause c (republished_clause c)"
proof -
  obtain q where q: "member c ''maxMs'' = Some (JNum (Fin q))" "is_whole q" "0 \<le> q" "q \<le> 600000"
    using assms by (auto simp: latency_clause_shape_def split: option.splits json.splits jsnum.splits)
  obtain n where n: "q = of_nat n" "n < 2 ^ 53"
  proof -
    obtain i where i: "q = of_int i" using is_wholeE [OF q(2)] by blast
    have "0 \<le> i" "i \<le> 600000" using q(3,4) unfolding i by simp_all
    then show thesis using that [of "nat i"] i by simp
  qed
  have ty: "text_of c ''type'' = js ''latency''" by (rule text_of_type(2) [OF assms])
  have "text_of c ''maxMs'' = num_str (Fin q)" using q(1) by (simp add: text_of_def string_of_value_def)
  then have k: "kind_members (kind_of_clause c) = [(js ''type'', js_str ''latency''), (js ''maxMs'', JNum (Fin q))]"
    using milliseconds_print_back [OF n(2)] unfolding n(1) by (simp add: kind_of_clause_def ty kind_members_def)
  have "clause_head c ''latency'' [''maxMs'']" using assms by (simp add: latency_clause_shape_def)
  note h = republished_head [OF this, unfolded k]
  have head: "clause_head (republished_clause c) ''latency'' [''maxMs'']" "distinct (map fst (republished_clause c))"
    "text_of (republished_clause c) ''id'' = text_of c ''id''" "text_of (republished_clause c) ''type'' = js ''latency''"
    by (rule h; simp add: member_def)+
  have m: "member (republished_clause c) ''maxMs'' = member c ''maxMs''" using clause_lookup(2) [of "''maxMs''" c] k q(1) by (simp add: member_def)
  have "latency_clause_shape (republished_clause c)" using head(1) q m by (simp add: latency_clause_shape_def)
  moreover have "wf_json (JObj (republished_clause c))" by (rule wf_clause [OF head(2)]) (simp add: k)
  ultimately show ?thesis using head(3,4) ty m
    by (simp add: same_clause_def clause_shape_def clause_ok_def clause_promise_def)
qed

lemma republished_semantic:
  assumes "semantic_clause_shape c" "editable_clause c"
  shows "same_clause c (republished_clause c)"
proof -
  obtain t where t: "member c ''criteria'' = Some (JStr t)" "length t \<le> 2048"
    using assms(1) by (auto simp: semantic_clause_shape_def string_member_def split: option.splits json.splits)
  have ty: "text_of c ''type'' = js ''semantic''" by (rule text_of_type(4) [OF assms(1)])
  have tt: "text_of c ''criteria'' = t" by (rule text_of_JStr [OF t(1)])
  have k: "kind_members (kind_of_clause c) = [(js ''type'', js_str ''semantic''), (js ''criteria'', JStr (trim t))]"
    by (simp add: kind_of_clause_def ty kind_members_def tt)
  have "clause_head c ''semantic'' [''criteria'']" using assms(1) by (simp add: semantic_clause_shape_def)
  note h = republished_head [OF this, unfolded k]
  have head: "clause_head (republished_clause c) ''semantic'' [''criteria'']" "distinct (map fst (republished_clause c))"
    "text_of (republished_clause c) ''id'' = text_of c ''id''" "text_of (republished_clause c) ''type'' = js ''semantic''"
    by (rule h; simp add: member_def)+
  have m: "member (republished_clause c) ''criteria'' = Some (JStr (trim t))" using clause_lookup(2) [of "''criteria''" c] k by (simp add: member_def)
  have "trim t \<noteq> []" using assms(2) ty tt by (simp add: editable_clause_def)
  then have "1 \<le> length (trim t)" by (simp add: Suc_le_eq)
  then have "semantic_clause_shape (republished_clause c)"
    using head(1) m t(2) trim_length [of t] by (simp add: semantic_clause_shape_def string_member_def)
  moreover have "wf_json (JObj (republished_clause c))" by (rule wf_clause [OF head(2)]) (simp add: k)
  ultimately show ?thesis using head(3,4) ty
    by (simp add: same_clause_def clause_shape_def clause_ok_def clause_promise_def)
qed

lemma republished_schema:
  assumes "schema_clause_shape c" "editable_clause c" "wf_json (JObj c)" "clause_ok c"
  shows "same_clause c (republished_clause c)"
proof -
  have ty: "text_of c ''type'' = js ''schema''" by (rule text_of_type(1) [OF assms(1)])
  obtain s where s: "member c ''schema'' = Some s" "supported s" "editable s"
    using assms(2,4) ty by (auto simp: clause_ok_def editable_clause_def split: option.splits)
  have wf: "wf_json s" using wf_map_of [OF assms(3)] s(1) unfolding member_def by blast
  let ?s = "JObj (node_to_schema (schema_to_node s True))"
  have k: "kind_members (kind_of_clause c) = [(js ''type'', js_str ''schema''), (js ''schema'', ?s)]"
    by (simp add: kind_of_clause_def ty kind_members_def s(1))
  have "clause_head c ''schema'' [''schema'']" using assms(1) by (simp add: schema_clause_shape_def)
  note h = republished_head [OF this, unfolded k]
  have head: "clause_head (republished_clause c) ''schema'' [''schema'']" "distinct (map fst (republished_clause c))"
    "text_of (republished_clause c) ''id'' = text_of c ''id''" "text_of (republished_clause c) ''type'' = js ''schema''"
    by (rule h; simp add: member_def)+
  have m: "member (republished_clause c) ''schema'' = Some ?s" using clause_lookup(2) [of "''schema''" c] k by (simp add: member_def)
  have "schema_clause_shape (republished_clause c)" using head(1) m by (simp add: schema_clause_shape_def)
  moreover have "wf_json (JObj (republished_clause c))"
    by (rule wf_clause [OF head(2)]) (simp add: k wf_node [OF wf] del: wf_json.simps(2))
  moreover have "supported ?s" by (rule form_keeps_supported [OF s(2) wf s(3)])
  ultimately show ?thesis using head(3,4) ty m s(1) form_keeps_meaning [OF s(2) wf s(3)]
    unfolding same_clause_def clause_shape_def clause_ok_def clause_promise_def by simp
qed

lemma republished_price:
  assumes "price_clause_shape c" "clause_ok c"
  shows "same_clause c (republished_clause c)"
proof -
  obtain lo hi asset where v: "member c ''minMinorUnits'' = Some (JStr lo)" "member c ''maxMinorUnits'' = Some (JStr hi)"
      "member c ''asset'' = Some (JStr asset)"
    using assms(1) by (auto simp: price_clause_shape_def string_member_def split: option.splits json.splits)
  have ty: "text_of c ''type'' = js ''priceRange''" by (rule text_of_type(3) [OF assms(1)])
  note texts = v [THEN text_of_JStr]
  have units: "decimal_integer lo" "decimal_integer hi" using assms(2) ty texts by (simp_all add: clause_ok_def)
  have k: "kind_members (kind_of_clause c) = [(js ''type'', js_str ''priceRange''), (js ''minMinorUnits'', JStr lo),
      (js ''maxMinorUnits'', JStr hi), (js ''asset'', JStr asset)]"
    using units [THEN minor_units_shown_back] by (simp add: kind_of_clause_def ty kind_members_def texts)
  have "clause_head c ''priceRange'' [''minMinorUnits'', ''maxMinorUnits'', ''asset'']" using assms(1) by (simp add: price_clause_shape_def)
  note h = republished_head [OF this, unfolded k]
  have head: "clause_head (republished_clause c) ''priceRange'' [''minMinorUnits'', ''maxMinorUnits'', ''asset'']"
    "distinct (map fst (republished_clause c))"
    "text_of (republished_clause c) ''id'' = text_of c ''id''" "text_of (republished_clause c) ''type'' = js ''priceRange''"
    by (rule h; simp add: member_def)+
  have m: "member (republished_clause c) key = member c key" if "key \<in> {''minMinorUnits'', ''maxMinorUnits'', ''asset''}" for key
    using that clause_lookup(2) [of key c] k v by (auto simp: member_def)
  have "price_clause_shape (republished_clause c)" using assms(1) head(1) m by (simp add: price_clause_shape_def string_member_def)
  moreover have "wf_json (JObj (republished_clause c))" by (rule wf_clause [OF head(2)]) (simp add: k)
  moreover have "text_of (republished_clause c) key = text_of c key" if "key \<in> {''minMinorUnits'', ''maxMinorUnits''}" for key
    using m [of key] that by (auto simp: text_of_def)
  ultimately show ?thesis using head(3,4) ty
    by (simp add: same_clause_def clause_shape_def clause_ok_def clause_promise_def)
qed

lemma republished_same:
  assumes "sla_shape sla" "c \<in> set (sla_clauses sla)" "editable_clause c" "wf_json (JObj c)" "clause_ok c"
  shows "same_clause c (republished_clause c)"
  using assms republished_schema republished_latency republished_price republished_semantic
  by (cases rule: clause_cases [OF assms(1,2)]) blast+

section \<open>The document\<close>

definition editable_sla :: "json \<Rightarrow> bool" where
  "editable_sla sla \<longleftrightarrow> list_all editable_clause (sla_clauses sla)"

lemma republished_clauses: "sla_clauses (draft_to_document (draft_of_document sla)) = map republished_clause (sla_clauses sla)"
  by (simp add: sla_clauses_def draft_to_document_def draft_of_document_def member_def clause_of_draft_of comp_def split: json.split option.split)

lemma clause_wf: "wf_json sla \<Longrightarrow> c \<in> set (sla_clauses sla) \<Longrightarrow> wf_json (JObj c)"
proof -
  assume wf: "wf_json sla" and c: "c \<in> set (sla_clauses sla)"
  obtain ps where ps: "sla = JObj ps" using c by (cases sla) (simp_all add: sla_clauses_def)
  obtain w where "member ps ''clauses'' = Some w"
    using c ps by (cases "member ps ''clauses''") (simp_all add: sla_clauses_def)
  note w = ps this
  obtain cs where cs: "w = JArr cs" using c w by (cases w) (simp_all add: sla_clauses_def)
  have "c \<in> (\<lambda>v. case v of JObj m \<Rightarrow> m | _ \<Rightarrow> []) ` set cs" using c w cs by (simp add: sla_clauses_def)
  then obtain v where "v \<in> set cs" "c = (case v of JObj m \<Rightarrow> m | _ \<Rightarrow> [])" by blast
  note v = w(1) w(2) [unfolded cs] this
  have "wf_json (JArr cs)" using wf_map_of [of ps] wf v(1,2) unfolding member_def by blast
  then have "wf_json v" using v(3) by simp
  then show ?thesis using v(4) by (cases v) simp_all
qed

lemma republished_document:
  assumes "wf_json sla" "well_formed_sla sla" "editable_sla sla"
  shows "well_formed_sla (draft_to_document (draft_of_document sla))" "wf_json (draft_to_document (draft_of_document sla))"
    "clause_ids (draft_to_document (draft_of_document sla)) = clause_ids sla"
    "(\<forall>c \<in> set (sla_clauses (draft_to_document (draft_of_document sla))). clause_promise c obs) \<longleftrightarrow>
     (\<forall>c \<in> set (sla_clauses sla). clause_promise c obs)"
proof -
  let ?doc = "draft_to_document (draft_of_document sla)"
  have shape: "sla_shape sla" "distinct (clause_ids sla)" and ok: "\<And>c. c \<in> set (sla_clauses sla) \<Longrightarrow> clause_ok c"
    using assms(2) by (simp_all add: well_formed_sla_def)
  have same: "same_clause c (republished_clause c)" if "c \<in> set (sla_clauses sla)" for c
    using republished_same [OF shape(1) that] that assms(3) clause_wf [OF assms(1) that] ok [OF that]
    by (simp add: editable_sla_def list_all_iff)
  show ids: "clause_ids ?doc = clause_ids sla"
    using same by (simp add: clause_ids_def republished_clauses same_clause_def)
  show "(\<forall>c \<in> set (sla_clauses ?doc). clause_promise c obs) \<longleftrightarrow> (\<forall>c \<in> set (sla_clauses sla). clause_promise c obs)"
    using same ok by (simp add: republished_clauses same_clause_def)
  have arr: "map clause_of_draft (sd_clauses (draft_of_document sla)) = map (JObj \<circ> republished_clause) (sla_clauses sla)"
    by (simp add: draft_of_document_def clause_of_draft_of)
  obtain ps cs where cs: "sla = JObj ps" "member ps ''clauses'' = Some (JArr cs)" "1 \<le> length cs" "length cs \<le> 32"
    using sla_shape_cases [OF shape(1)] by blast
  then have len: "length (sla_clauses sla) = length cs" by (simp add: sla_clauses_def)
  have "sla_shape ?doc"
    using same cs(3,4) len unfolding draft_to_document_def arr
    by (simp add: sla_shape_def only_members_def object_keys_def member_def list_all_iff same_clause_def)
  then show "well_formed_sla ?doc"
    using ids shape(2) same ok by (simp add: well_formed_sla_def republished_clauses same_clause_def)
  show "wf_json ?doc"
    using same unfolding draft_to_document_def arr by (simp add: same_clause_def)
qed

section \<open>Properties\<close>



end
