(* ===== verification/Sla_Composer.thy ===== *)
theory Sla_Composer imports Sla_Draft Cre_Judge begin

text \<open>
  \<open>web/src/forms/sla-composer.js\<close> and \<open>sla-validity.js\<close>: the composer element as a state machine, its
  handlers as functions from the state to the next state and the texts emitted to the parent. What
  it renders is not modelled, only which handlers a view offers.
\<close>

section \<open>Validity in one line\<close>

definition describe_sla_validity :: "jstring \<Rightarrow> bool \<times> jstring" where
  "describe_sla_validity source =
     (if trim source = [] then (False, js ''An SLA needs at least one clause.'')
      else case parse_sla (trim source) of
        Inr parsed \<Rightarrow> (True, js ''Valid. '' @ dec (length (sla_clauses parsed)) @ js '' clause'' @
          (if length (sla_clauses parsed) = 1 then [] else js ''s'') @
          js '' plus delivery; the verifier would enforce all of them.'')
      | Inl message \<Rightarrow> (False, message))"

section \<open>The element's state\<close>

datatype composer_view = Form_View | Json_View

datatype source_mode = From_Sample | From_Schema

text \<open>The two panels are records keyed by clause index.\<close>

record composer =
  co_value :: jstring
  co_draft :: sla_draft
  co_view :: composer_view
  co_json_text :: jstring
  co_json_error :: jstring
  co_sources :: "nat \<Rightarrow> source_mode option"
  co_source_errors :: "nat \<Rightarrow> jstring option"
  co_last_emitted :: "jstring option"

definition fresh_composer :: composer where
  "fresh_composer = \<lparr>co_value = [], co_draft = empty_draft, co_view = Form_View, co_json_text = [], co_json_error = [],
     co_sources = Map.empty, co_source_errors = Map.empty, co_last_emitted = None\<rparr>"

definition reindex :: "(nat \<Rightarrow> 'a option) \<Rightarrow> nat \<Rightarrow> nat \<Rightarrow> 'a option" where
  "reindex panel removed = (\<lambda>key. if key < removed then panel key else panel (Suc key))"

definition without :: "(nat \<Rightarrow> 'a option) \<Rightarrow> nat \<Rightarrow> nat \<Rightarrow> 'a option" where
  "without panel key = panel(key := None)"

section \<open>Adopting and emitting\<close>

definition load_text :: "jstring \<Rightarrow> composer \<Rightarrow> composer" where
  "load_text t c =
     (let c = c\<lparr>co_last_emitted := Some t, co_sources := Map.empty, co_source_errors := Map.empty\<rparr> in
      if trim t = [] then c\<lparr>co_draft := empty_draft, co_view := Form_View, co_json_text := [], co_json_error := []\<rparr>
      else case draft_from_text t of
        Inr draft \<Rightarrow> c\<lparr>co_draft := draft, co_view := Form_View, co_json_text := [], co_json_error := []\<rparr>
      | Inl message \<Rightarrow> c\<lparr>co_draft := empty_draft, co_view := Json_View, co_json_text := t, co_json_error := message\<rparr>)"

text \<open>
  \<open>willUpdate\<close> runs before an update in which \<open>value\<close> changed, whoever changed it: the parent, or the
  element itself when it emits. The first update counts as a change.
\<close>

definition will_update :: "composer \<Rightarrow> composer" where
  "will_update c = (if Some (co_value c) \<noteq> co_last_emitted c then load_text (co_value c) c else c)"

definition set_value :: "jstring \<Rightarrow> composer \<Rightarrow> composer" where
  "set_value v c = (if v = co_value c then c else will_update (c\<lparr>co_value := v\<rparr>))"

definition first_update :: "jstring \<Rightarrow> composer" where
  "first_update v = will_update (fresh_composer\<lparr>co_value := v\<rparr>)"

text \<open>A handler's result: the state, and the event it dispatched.\<close>

type_synonym handler = "composer \<Rightarrow> composer \<times> (jstring \<times> bool) list"

definition emit_text :: "jstring \<Rightarrow> handler" where
  "emit_text t c = (c\<lparr>co_last_emitted := Some t, co_value := t\<rparr>, [(t, fst (describe_sla_validity t))])"

definition published_text :: "sla_draft \<Rightarrow> jstring" where
  "published_text draft = (if sd_clauses draft \<noteq> [] then draft_to_text draft else [])"

definition commit :: "sla_draft \<Rightarrow> handler" where
  "commit draft c = emit_text (published_text draft) (c\<lparr>co_draft := draft\<rparr>)"

section \<open>Form and JSON\<close>

definition show_json :: handler where
  "show_json c = (c\<lparr>co_json_text := (if sd_clauses (co_draft c) \<noteq> [] then draft_to_pretty_text (co_draft c) else co_json_text c),
     co_json_error := [], co_view := Json_View\<rparr>, [])"

text \<open>A \<open>Map\<close> of the clauses keeps the last entry of an id.\<close>

definition original_of :: "sla_draft \<Rightarrow> jstring \<Rightarrow> jstring option" where
  "original_of draft i = (case map_of (rev (map (\<lambda>c. (dc_id c, dc_original_id c)) (sd_clauses draft))) i of
     Some original \<Rightarrow> original | None \<Rightarrow> None)"

definition keep_originals :: "sla_draft \<Rightarrow> sla_draft \<Rightarrow> sla_draft" where
  "keep_originals old draft = draft\<lparr>sd_clauses := map (\<lambda>c. c\<lparr>dc_original_id := original_of old (dc_id c)\<rparr>) (sd_clauses draft),
     sd_removed := sd_removed old\<rparr>"

definition show_form :: handler where
  "show_form c =
     (if trim (co_json_text c) = [] then
        (let r = commit empty_draft c in ((fst r)\<lparr>co_view := Form_View, co_json_error := []\<rparr>, snd r))
      else case draft_from_text (co_json_text c) of
        Inr draft \<Rightarrow> commit (keep_originals (co_draft c) draft) (c\<lparr>co_json_error := [], co_view := Form_View\<rparr>)
      | Inl message \<Rightarrow> (c\<lparr>co_json_error := message\<rparr>, []))"

definition edit_json :: "jstring \<Rightarrow> handler" where
  "edit_json t c = emit_text t (c\<lparr>co_json_text := t, co_json_error := []\<rparr>)"

definition start_over :: handler where
  "start_over c = commit empty_draft (c\<lparr>co_json_text := [], co_json_error := [], co_view := Form_View\<rparr>)"

section \<open>Clauses\<close>

definition add_clause :: "kind_name \<Rightarrow> handler" where
  "add_clause kind c = commit ((co_draft c)\<lparr>sd_clauses := sd_clauses (co_draft c) @ [new_clause kind (sd_clauses (co_draft c))]\<rparr>) c"

definition drop_nth :: "nat \<Rightarrow> 'a list \<Rightarrow> 'a list" where
  "drop_nth i xs = take i xs @ drop (Suc i) xs"

text \<open>\<open>originalId\<close> is truthy: neither \<open>null\<close> nor empty.\<close>

definition removed_with :: "sla_draft \<Rightarrow> nat \<Rightarrow> jstring list" where
  "removed_with draft i = (case dc_original_id (sd_clauses draft ! i) of
     Some original \<Rightarrow> if original \<noteq> [] \<and> original \<notin> set (sd_removed draft) then sd_removed draft @ [original] else sd_removed draft
   | None \<Rightarrow> sd_removed draft)"

definition remove_clause :: "nat \<Rightarrow> handler" where
  "remove_clause i c = commit \<lparr>sd_clauses = drop_nth i (sd_clauses (co_draft c)), sd_removed = removed_with (co_draft c) i\<rparr>
     (c\<lparr>co_sources := reindex (co_sources c) i, co_source_errors := reindex (co_source_errors c) i\<rparr>)"

datatype clause_patch =
    Patch_Id jstring | Patch_Description jstring | Patch_Max_Ms jstring | Patch_Min jstring | Patch_Max jstring
  | Patch_Criteria jstring | Patch_Sample jstring | Patch_Schema_Text jstring | Patch_Root draft_node

text \<open>\<open>{ ...clause, ...patch }\<close>; the form offers a patch only on a clause of its kind.\<close>

fun patch_kind :: "clause_patch \<Rightarrow> clause_kind \<Rightarrow> clause_kind" where
  "patch_kind (Patch_Max_Ms v) (Latency_Draft _) = Latency_Draft v"
| "patch_kind (Patch_Min v) (Price_Draft _ hi asset) = Price_Draft v hi asset"
| "patch_kind (Patch_Max v) (Price_Draft lo _ asset) = Price_Draft lo v asset"
| "patch_kind (Patch_Criteria v) (Semantic_Draft _) = Semantic_Draft v"
| "patch_kind (Patch_Sample v) (Schema_Draft _ t tree) = Schema_Draft v t tree"
| "patch_kind (Patch_Schema_Text v) (Schema_Draft s _ tree) = Schema_Draft s v tree"
| "patch_kind (Patch_Root d) (Schema_Draft s t _) = Schema_Draft s t (Some d)"
| "patch_kind _ kind = kind"

fun patched :: "clause_patch \<Rightarrow> draft_clause \<Rightarrow> draft_clause" where
  "patched (Patch_Id v) cl = cl\<lparr>dc_id := v, dc_id_touched := True\<rparr>"
| "patched (Patch_Description v) cl = cl\<lparr>dc_description := v\<rparr>"
| "patched p cl = cl\<lparr>dc_kind := patch_kind p (dc_kind cl)\<rparr>"

text \<open>The patched clause is a new object: none of the old siblings is it, its old self included.\<close>

definition patch_clause :: "nat \<Rightarrow> clause_patch \<Rightarrow> handler" where
  "patch_clause i p c = commit ((co_draft c)\<lparr>sd_clauses := (sd_clauses (co_draft c))
     [i := refresh_id (patched p (sd_clauses (co_draft c) ! i)) (sd_clauses (co_draft c))]\<rparr>) c"

section \<open>Editing the tree\<close>

text \<open>The tree is changed in place and recommitted. A row is found by its path.\<close>

datatype tree_step = At_Property nat | At_Items

datatype node_edit =
    Set_Type jstring | Set_Required bool | Set_Min jstring | Set_Max jstring
  | Set_Ignored nat bool | Drop_Items

fun edit_node :: "node_edit \<Rightarrow> draft_node \<Rightarrow> draft_node" where
  "edit_node (Set_Type v) (Draft_Node t r lo hi ps it e) = Draft_Node v r lo hi ps it e"
| "edit_node (Set_Required b) (Draft_Node t r lo hi ps it e) = Draft_Node t b lo hi ps it e"
| "edit_node (Set_Min v) (Draft_Node t r lo hi ps it e) = Draft_Node t r v hi ps it e"
| "edit_node (Set_Max v) (Draft_Node t r lo hi ps it e) = Draft_Node t r lo v ps it e"
| "edit_node (Set_Ignored i b) (Draft_Node t r lo hi ps it e) =
     Draft_Node t r lo hi (if i < length ps then ps[i := (fst (ps ! i), fst (snd (ps ! i)), b)] else ps) it e"
| "edit_node Drop_Items (Draft_Node t r lo hi ps it e) = Draft_Node t r lo hi ps None e"

fun edit_tree :: "tree_step list \<Rightarrow> node_edit \<Rightarrow> draft_node \<Rightarrow> draft_node" where
  "edit_tree [] change d = edit_node change d"
| "edit_tree (At_Property i # path) change (Draft_Node t r lo hi ps it e) =
     Draft_Node t r lo hi
       (if i < length ps then ps[i := (fst (ps ! i), edit_tree path change (fst (snd (ps ! i))), snd (snd (ps ! i)))] else ps) it e"
| "edit_tree (At_Items # path) change (Draft_Node t r lo hi ps it e) =
     Draft_Node t r lo hi ps (map_option (edit_tree path change) it) e"

definition touch_tree :: "nat \<Rightarrow> tree_step list \<Rightarrow> node_edit \<Rightarrow> handler" where
  "touch_tree i path change c = commit ((co_draft c)\<lparr>sd_clauses := (sd_clauses (co_draft c))
     [i := (let cl = sd_clauses (co_draft c) ! i in cl\<lparr>dc_kind := (case dc_kind cl of
        Schema_Draft s t (Some tree) \<Rightarrow> Schema_Draft s t (Some (edit_tree path change tree)) | kind \<Rightarrow> kind)\<rparr>)]\<rparr>) c"

section \<open>Reading a schema from a source\<close>

definition source_mode_of :: "composer \<Rightarrow> nat \<Rightarrow> jstring \<Rightarrow> jstring \<Rightarrow> source_mode" where
  "source_mode_of c i sample schema_text = (case co_sources c i of
     Some m \<Rightarrow> m | None \<Rightarrow> if trim schema_text \<noteq> [] \<and> trim sample = [] then From_Schema else From_Sample)"

definition read_root :: "source_mode \<Rightarrow> jstring \<Rightarrow> jstring \<Rightarrow> draft_node result" where
  "read_root mode sample schema_text = (case mode of
     From_Sample \<Rightarrow> (case json_parse sample of
       Inr v \<Rightarrow> Inr (infer_node v) | Inl m \<Rightarrow> Inl (js ''Not JSON: '' @ m))
   | From_Schema \<Rightarrow> schema_from_text schema_text)"

definition read_source :: "nat \<Rightarrow> handler" where
  "read_source i c = (case dc_kind (sd_clauses (co_draft c) ! i) of
     Schema_Draft sample schema_text _ \<Rightarrow>
       (case read_root (source_mode_of c i sample schema_text) sample schema_text of
          Inl e \<Rightarrow> (c\<lparr>co_source_errors := (co_source_errors c)(i \<mapsto> e)\<rparr>, [])
        | Inr tree \<Rightarrow> patch_clause i (Patch_Root tree)
            (c\<lparr>co_source_errors := without (co_source_errors c) i, co_sources := without (co_sources c) i\<rparr>))
   | _ \<Rightarrow> (c, []))"

definition open_source :: "nat \<Rightarrow> source_mode \<Rightarrow> handler" where
  "open_source i mode c =
     (let c' = c\<lparr>co_sources := (co_sources c)(i \<mapsto> mode), co_source_errors := without (co_source_errors c) i\<rparr> in
      case dc_kind (sd_clauses (co_draft c) ! i) of
        Schema_Draft _ _ (Some tree) \<Rightarrow>
          if mode = From_Schema then patch_clause i (Patch_Schema_Text (schema_to_text tree)) c' else (c', [])
      | _ \<Rightarrow> (c', []))"

definition close_source :: "nat \<Rightarrow> handler" where
  "close_source i c = (c\<lparr>co_sources := without (co_sources c) i, co_source_errors := without (co_source_errors c) i\<rparr>, [])"

section \<open>The guard on published ids\<close>

text \<open>The counts are a plain object: \<open>None\<close> is what it inherits under a name of its prototype, no number.\<close>

definition cited_clause_ids :: "jstring option list \<Rightarrow> jstring \<Rightarrow> nat option" where
  "cited_clause_ids history i =
     (if i \<in> set (map js OBJECT_PROTOTYPE) then None
      else if i = js ''delivery'' \<or> i = js ''unknown'' then Some 0 else Some (count_list history (Some i)))"

definition removed_cited :: "jstring option list \<Rightarrow> sla_draft \<Rightarrow> jstring list" where
  "removed_cited history draft = filter (\<lambda>i. cited_clause_ids history i \<noteq> Some 0) (sd_removed draft)"

definition renamed_cited :: "jstring option list \<Rightarrow> draft_clause \<Rightarrow> bool" where
  "renamed_cited history cl = (case dc_original_id cl of
     Some original \<Rightarrow> original \<noteq> [] \<and> (case cited_clause_ids history original of Some n \<Rightarrow> 0 < n | None \<Rightarrow> False) \<and>
       trim (dc_id cl) \<noteq> original
   | None \<Rightarrow> False)"

section \<open>The element as a machine\<close>

datatype composer_action =
    Show_Json | Show_Form | Edit_Json jstring | Start_Over | Add_Clause kind_name | Remove_Clause nat
  | Patch_Clause nat clause_patch | Touch_Tree nat "tree_step list" node_edit
  | Read_Source nat | Open_Source nat source_mode | Close_Source nat

fun act :: "composer_action \<Rightarrow> handler" where
  "act Show_Json = show_json"
| "act Show_Form = show_form"
| "act (Edit_Json t) = edit_json t"
| "act Start_Over = start_over"
| "act (Add_Clause kind) = add_clause kind"
| "act (Remove_Clause i) = remove_clause i"
| "act (Patch_Clause i p) = patch_clause i p"
| "act (Touch_Tree i path change) = touch_tree i path change"
| "act (Read_Source i) = read_source i"
| "act (Open_Source i mode) = open_source i mode"
| "act (Close_Source i) = close_source i"

text \<open>The controls a view renders: the two tabs always, the form's on its clauses, the JSON view's own.\<close>

fun patch_fits :: "clause_patch \<Rightarrow> clause_kind \<Rightarrow> bool" where
  "patch_fits (Patch_Id _) _ = True"
| "patch_fits (Patch_Description _) _ = True"
| "patch_fits (Patch_Max_Ms _) (Latency_Draft _) = True"
| "patch_fits (Patch_Min _) (Price_Draft _ _ _) = True"
| "patch_fits (Patch_Max _) (Price_Draft _ _ _) = True"
| "patch_fits (Patch_Criteria _) (Semantic_Draft _) = True"
| "patch_fits (Patch_Sample _) (Schema_Draft _ _ _) = True"
| "patch_fits (Patch_Schema_Text _) (Schema_Draft _ _ _) = True"
| "patch_fits _ _ = False"

fun is_schema_draft :: "clause_kind \<Rightarrow> bool" where
  "is_schema_draft (Schema_Draft _ _ _) = True"
| "is_schema_draft _ = False"

definition clause_at :: "composer \<Rightarrow> nat \<Rightarrow> draft_clause option" where
  "clause_at c i = (if co_view c = Form_View \<and> i < length (sd_clauses (co_draft c)) then Some (sd_clauses (co_draft c) ! i) else None)"

fun offered :: "composer_action \<Rightarrow> composer \<Rightarrow> bool" where
  "offered Show_Json c = True"
| "offered Show_Form c = True"
| "offered (Edit_Json t) c = (co_view c = Json_View)"
| "offered Start_Over c = (co_view c = Json_View \<and> co_json_error c \<noteq> [])"
| "offered (Add_Clause kind) c = (co_view c = Form_View \<and> length (sd_clauses (co_draft c)) < 32)"
| "offered (Remove_Clause i) c = (clause_at c i \<noteq> None)"
| "offered (Patch_Clause i p) c = (case clause_at c i of Some cl \<Rightarrow> patch_fits p (dc_kind cl) | None \<Rightarrow> False)"
| "offered (Touch_Tree i path change) c = (case clause_at c i of Some cl \<Rightarrow> is_schema_draft (dc_kind cl) | None \<Rightarrow> False)"
| "offered (Read_Source i) c = (case clause_at c i of Some cl \<Rightarrow> is_schema_draft (dc_kind cl) | None \<Rightarrow> False)"
| "offered (Open_Source i mode) c = (case clause_at c i of Some cl \<Rightarrow> is_schema_draft (dc_kind cl) | None \<Rightarrow> False)"
| "offered (Close_Source i) c = (case clause_at c i of Some cl \<Rightarrow> is_schema_draft (dc_kind cl) | None \<Rightarrow> False)"

text \<open>A mounted element: the visitor acts, or the parent sets its \<open>value\<close>.\<close>

inductive mounted :: "composer \<Rightarrow> bool" where
  first: "mounted (first_update v)"
| acts: "mounted c \<Longrightarrow> offered a c \<Longrightarrow> mounted (fst (act a c))"
| given: "mounted c \<Longrightarrow> mounted (set_value v c)"

section \<open>Facts\<close>

lemma emit_simps [simp]:
  "co_value (fst (emit_text t c)) = t" "co_last_emitted (fst (emit_text t c)) = Some t" "co_draft (fst (emit_text t c)) = co_draft c"
  "co_view (fst (emit_text t c)) = co_view c" "snd (emit_text t c) = [(t, fst (describe_sla_validity t))]"
  "co_sources (fst (emit_text t c)) = co_sources c" "co_json_text (fst (emit_text t c)) = co_json_text c"
  by (simp_all add: emit_text_def)

lemma commit_simps [simp]:
  "co_value (fst (commit d c)) = published_text d" "co_last_emitted (fst (commit d c)) = Some (published_text d)"
  "co_draft (fst (commit d c)) = d" "co_view (fst (commit d c)) = co_view c"
  "snd (commit d c) = [(published_text d, fst (describe_sla_validity (published_text d)))]"
  "co_sources (fst (commit d c)) = co_sources c" "co_json_text (fst (commit d c)) = co_json_text c"
  by (simp_all add: commit_def)

lemma load_value [simp]: "co_value (load_text t c) = co_value c" "co_last_emitted (load_text t c) = Some t"
  by (simp_all add: load_text_def Let_def split: sum.split)

text \<open>A handler leaves the value alone and emits nothing, or the value is what it emitted.\<close>

definition speaks :: "composer \<Rightarrow> composer \<times> (jstring \<times> bool) list \<Rightarrow> bool" where
  "speaks c r \<longleftrightarrow>
     (snd r = [] \<and> co_value (fst r) = co_value c \<and> co_last_emitted (fst r) = co_last_emitted c) \<or>
     (\<exists>t. snd r = [(t, fst (describe_sla_validity t))] \<and> co_value (fst r) = t \<and> co_last_emitted (fst r) = Some t)"

lemma speaks_commit [simp]: "speaks c (commit d c')"
  by (simp add: speaks_def)

lemma speaks_patch [simp]: "speaks c (patch_clause i p c')"
  by (simp add: patch_clause_def)

lemma act_speaks: "speaks c (act a c)"
proof (cases a)
  case (Open_Source i mode)
  then show ?thesis
    by (auto simp: open_source_def Let_def split: clause_kind.split option.split) (auto simp: speaks_def)
next
  case (Read_Source i)
  then show ?thesis
    by (auto simp: read_source_def split: clause_kind.split sum.split) (auto simp: speaks_def)
next
  case Show_Form
  then show ?thesis
    by (auto simp: show_form_def Let_def split: sum.split) (auto simp: speaks_def)
qed (auto simp: show_json_def edit_json_def start_over_def add_clause_def remove_clause_def touch_tree_def close_source_def,
  auto simp: speaks_def)

lemma mounted_last_emitted: "mounted c \<Longrightarrow> co_last_emitted c = Some (co_value c)"
proof (induction rule: mounted.induct)
  case (acts c a)
  then show ?case using act_speaks [of c a] by (auto simp: speaks_def)
qed (auto simp: first_update_def will_update_def set_value_def fresh_composer_def)

text \<open>What the form shows agrees with what the parent holds.\<close>

definition agrees :: "composer \<Rightarrow> bool" where
  "agrees c \<longleftrightarrow> co_value c = published_text (co_draft c) \<or> draft_from_text (co_value c) = Inr (co_draft c) \<or>
     trim (co_value c) = [] \<and> co_draft c = empty_draft"

lemma load_agrees: "co_value c = t \<Longrightarrow> co_view (load_text t c) = Form_View \<Longrightarrow> agrees (load_text t c)"
  by (auto simp: load_text_def Let_def agrees_def split: sum.splits if_splits)

lemma commit_agrees [simp]: "agrees (fst (commit d c))"
  by (simp add: agrees_def)

lemma patch_agrees [simp]: "agrees (fst (patch_clause i p c))"
  by (simp add: patch_clause_def)

text \<open>An action that ends in the form committed a draft, or changed neither the draft nor the value.\<close>

lemma act_agrees:
  assumes "offered a c" "co_view c = Form_View \<longrightarrow> agrees c" "co_view (fst (act a c)) = Form_View"
  shows "agrees (fst (act a c))"
proof -
  have same: "agrees c \<Longrightarrow> co_value d = co_value c \<Longrightarrow> co_draft d = co_draft c \<Longrightarrow> agrees d" for d
    by (simp add: agrees_def)
  show ?thesis
  proof (cases a)
    case (Open_Source i mode)
    then have "agrees c" using assms(1,2) by (auto simp: clause_at_def split: option.splits if_splits)
    then show ?thesis unfolding Open_Source
      by (auto simp: open_source_def Let_def split: clause_kind.split option.split intro: same)
  next
    case (Read_Source i)
    then have "agrees c" using assms(1,2) by (auto simp: clause_at_def split: option.splits if_splits)
    then show ?thesis unfolding Read_Source
      by (auto simp: read_source_def split: clause_kind.split sum.split intro: same)
  next
    case (Close_Source i)
    then have "agrees c" using assms(1,2) by (auto simp: clause_at_def split: option.splits if_splits)
    then show ?thesis unfolding Close_Source by (auto simp: close_source_def intro: same)
  next
    case Show_Form
    have "agrees (fst (show_form c))" if "\<not> isl (draft_from_text (co_json_text c)) \<or> trim (co_json_text c) = []"
      using that by (auto simp: show_form_def Let_def agrees_def split: sum.splits)
    moreover have "agrees (fst (show_form c))" if unreadable: "isl (draft_from_text (co_json_text c))" and given: "trim (co_json_text c) \<noteq> []"
    proof -
      obtain m where m: "draft_from_text (co_json_text c) = Inl m" using unreadable by (cases "draft_from_text (co_json_text c)") auto
      then have "co_view c = Form_View" using assms(3) given Show_Form by (simp add: show_form_def)
      then show ?thesis using assms(2) given m by (auto simp: show_form_def intro: same)
    qed
    ultimately show ?thesis using Show_Form by auto
  qed (use assms in \<open>auto simp: show_json_def edit_json_def start_over_def add_clause_def remove_clause_def touch_tree_def patch_clause_def\<close>)
qed

lemma mounted_agrees: "mounted c \<Longrightarrow> co_view c = Form_View \<longrightarrow> agrees c"
proof (induction rule: mounted.induct)
  case (first v)
  then show ?case by (auto simp: first_update_def will_update_def fresh_composer_def intro: load_agrees)
next
  case (acts c a)
  then show ?case using act_agrees by blast
next
  case (given c v)
  have "co_last_emitted c = Some (co_value c)" using given.hyps by (rule mounted_last_emitted)
  then show ?case using given.IH by (auto simp: set_value_def will_update_def intro: load_agrees)
qed

text \<open>The ids the published record cites, that a clause still carries or that were removed.\<close>

definition original_ids :: "sla_draft \<Rightarrow> jstring list" where
  "original_ids draft = List.map_filter dc_original_id (sd_clauses draft) @ sd_removed draft"

lemma original_ids_iff:
  "i \<in> set (original_ids d) \<longleftrightarrow> (\<exists>cl \<in> set (sd_clauses d). dc_original_id cl = Some i) \<or> i \<in> set (sd_removed d)"
  by (auto simp: original_ids_def map_filter_def image_iff)

lemma patched_original [simp]: "dc_original_id (patched p cl) = dc_original_id cl"
  by (cases p) simp_all

lemma refresh_original [simp]: "dc_original_id (refresh_id cl others) = dc_original_id cl"
  by (simp add: refresh_id_def)

lemma update_original:
  "i < length cls \<Longrightarrow> dc_original_id cl = dc_original_id (cls ! i) \<Longrightarrow>
     (\<exists>x \<in> set (cls[i := cl]). dc_original_id x = Some k) \<longleftrightarrow> (\<exists>x \<in> set cls. dc_original_id x = Some k)"
proof -
  assume i: "i < length cls" and eq: "dc_original_id cl = dc_original_id (cls ! i)"
  then have same: "dc_original_id cl = map dc_original_id cls ! i" by simp
  have "map dc_original_id (cls[i := cl]) = map dc_original_id cls"
    unfolding map_update same by (rule list_update_id)
  then have "Some k \<in> set (map dc_original_id (cls[i := cl])) \<longleftrightarrow> Some k \<in> set (map dc_original_id cls)"
    by (simp only:)
  moreover have "Some k \<in> set (map dc_original_id xs) \<longleftrightarrow> (\<exists>x \<in> set xs. dc_original_id x = Some k)" for xs
    by force
  ultimately show ?thesis by blast
qed

lemma dropped_original:
  assumes "i < length cls" "x \<in> set cls" "x \<notin> set (drop_nth i cls)"
  shows "x = cls ! i"
proof -
  have "x \<in> set (take i cls @ cls ! i # drop (Suc i) cls)"
    by (subst id_take_nth_drop [OF assms(1), symmetric]) (rule assms(2))
  then show ?thesis using assms(3) by (auto simp: drop_nth_def)
qed

text \<open>What a visitor does in the form, one action after another, without leaving it for the JSON view.\<close>

inductive form_session :: "composer \<Rightarrow> composer \<Rightarrow> bool" for start where
  opened: "co_view start = Form_View \<Longrightarrow> form_session start start"
| edited: "form_session start c \<Longrightarrow> offered a c \<Longrightarrow> a \<noteq> Show_Json \<Longrightarrow> a \<noteq> Show_Form \<Longrightarrow> form_session start (fst (act a c))"

lemma clause_at_Some: "clause_at c i = Some cl \<longleftrightarrow> co_view c = Form_View \<and> i < length (sd_clauses (co_draft c)) \<and> cl = sd_clauses (co_draft c) ! i"
  by (auto simp: clause_at_def)

lemma patch_clause_draft:
  "co_draft (fst (patch_clause i p c)) = (co_draft c)\<lparr>sd_clauses := (sd_clauses (co_draft c))
     [i := refresh_id (patched p (sd_clauses (co_draft c) ! i)) (sd_clauses (co_draft c))]\<rparr>"
  "co_view (fst (patch_clause i p c)) = co_view c"
  by (simp_all add: patch_clause_def)

lemma patch_keeps_originals:
  "i < length (sd_clauses (co_draft c)) \<Longrightarrow> k \<in> set (original_ids (co_draft (fst (patch_clause i p c)))) \<longleftrightarrow> k \<in> set (original_ids (co_draft c))"
  by (simp add: patch_clause_draft original_ids_iff update_original)

lemma act_keeps_originals:
  assumes "offered a c" "co_view c = Form_View" "a \<noteq> Show_Json" "a \<noteq> Show_Form" "k \<in> set (original_ids (co_draft c))" "k \<noteq> []"
  shows "k \<in> set (original_ids (co_draft (fst (act a c)))) \<and> co_view (fst (act a c)) = Form_View"
proof (cases a)
  case (Add_Clause kind)
  then show ?thesis using assms by (auto simp: add_clause_def original_ids_iff)
next
  case (Remove_Clause i)
  then have i: "i < length (sd_clauses (co_draft c))" using assms(1) by (simp add: clause_at_def split: if_splits)
  have "k \<in> set (original_ids \<lparr>sd_clauses = drop_nth i (sd_clauses (co_draft c)), sd_removed = removed_with (co_draft c) i\<rparr>)"
  proof (cases "k \<in> set (sd_removed (co_draft c))")
    case True
    then show ?thesis by (auto simp: original_ids_iff removed_with_def split: option.split)
  next
    case False
    then obtain x where x: "x \<in> set (sd_clauses (co_draft c))" "dc_original_id x = Some k" using assms(5) by (auto simp: original_ids_iff)
    show ?thesis
    proof (cases "x \<in> set (drop_nth i (sd_clauses (co_draft c)))")
      case True
      then show ?thesis using x(2) by (auto simp: original_ids_iff)
    next
      case no: False
      then have "x = sd_clauses (co_draft c) ! i" by (rule dropped_original [OF i x(1)])
      then show ?thesis using x(2) False assms(6) by (simp add: original_ids_iff removed_with_def)
    qed
  qed
  then show ?thesis using assms(2) by (simp add: Remove_Clause remove_clause_def)
next
  case (Patch_Clause i p)
  then have "i < length (sd_clauses (co_draft c))" using assms(1) by (auto simp: clause_at_Some split: option.splits)
  then show ?thesis using assms(2,5) by (simp add: Patch_Clause patch_keeps_originals patch_clause_draft(2))
next
  case (Touch_Tree i path change)
  then have "i < length (sd_clauses (co_draft c))" using assms(1) by (auto simp: clause_at_Some split: option.splits)
  then show ?thesis using assms(2,5) by (simp add: Touch_Tree touch_tree_def Let_def original_ids_iff update_original)
next
  case (Read_Source i)
  then have "i < length (sd_clauses (co_draft c))" using assms(1) by (auto simp: clause_at_Some split: option.splits)
  then show ?thesis using assms(2,5) unfolding Read_Source
    by (auto simp: read_source_def patch_keeps_originals patch_clause_draft(2) split: clause_kind.split sum.split)
next
  case (Open_Source i mode)
  then have "i < length (sd_clauses (co_draft c))" using assms(1) by (auto simp: clause_at_Some split: option.splits)
  then show ?thesis using assms(2,5) unfolding Open_Source
    by (auto simp: open_source_def Let_def patch_keeps_originals patch_clause_draft(2) split: clause_kind.split option.split)
qed (use assms in \<open>auto simp: close_source_def\<close>)

section \<open>What the element gets wrong\<close>

text \<open>
  The JSON tab can be pressed in the JSON view: the text goes back to the draft while the parent keeps what was typed.
\<close>

lemma json_tab_discards_edits:
  assumes "sd_clauses (co_draft c) \<noteq> []"
  shows "co_json_text (fst (act Show_Json (fst (act (Edit_Json t) c)))) = draft_to_pretty_text (co_draft c) \<and>
     co_value (fst (act Show_Json (fst (act (Edit_Json t) c)))) = t"
  using assms by (simp add: show_json_def edit_json_def)

text \<open>The open panels are kept by index when the JSON view brings other clauses.\<close>

lemma panels_survive_the_json_view:
  "co_sources (fst (act Show_Form c)) = co_sources c \<and> co_sources (fst (act Start_Over c)) = co_sources c"
  by (simp add: show_form_def start_over_def Let_def split: sum.split)

text \<open>A clause deleted in the JSON view leaves the guard unnoticed.\<close>

definition example_json_edit :: composer where
  "example_json_edit = fresh_composer\<lparr>co_view := Json_View, co_json_text := tiny_text, co_draft :=
     \<lparr>sd_clauses = [\<lparr>dc_id = js ''slow'', dc_id_touched = True, dc_original_id = Some (js ''slow''), dc_description = [],
        dc_kind = Latency_Draft (js ''9000'')\<rparr>], sd_removed = []\<rparr>\<rparr>"

lemma trim_tiny: "trim tiny_text \<noteq> []"
  by code_simp

lemma json_delete_is_not_guarded:
  "js ''slow'' \<in> set (original_ids (co_draft example_json_edit)) \<and>
   js ''slow'' \<notin> set (original_ids (co_draft (fst (act Show_Form example_json_edit))))"
proof -
  have "co_draft (fst (act Show_Form example_json_edit)) = keep_originals (co_draft example_json_edit) (draft_of_document tiny_sla)"
    using trim_tiny tiny_parses by (simp add: show_form_def example_json_edit_def draft_from_text_def)
  then show ?thesis
    by (auto simp: original_ids_iff keep_originals_def example_json_edit_def fresh_composer_def original_of_def
      draft_of_document_def draft_of_clause_def tiny_sla_def sla_clauses_def member_def text_of_def string_of_value_def
      split: if_splits option.splits)
qed

text \<open>An untouched id that is the suggestion collides with the clause's own old self, and changes on every edit.\<close>

lemma untouched_id_flips:
  assumes "\<not> dc_id_touched cl" "cl \<in> set cls" "dc_id cl = suggest_id (dc_kind cl)"
  shows "dc_id (refresh_id (patched (Patch_Description v) cl) cls) \<noteq> dc_id cl"
proof -
  have "dc_id cl \<in> set (map dc_id cls)" using assms(2) by simp
  then show ?thesis
    using assms(1,3) free_number_free [of "dc_id cl" "map dc_id cls" 2]
    by (auto simp: refresh_id_def unique_id_def numbered_def)
qed

text \<open>A removed id that is the name of an inherited member reads as cited.\<close>

lemma inherited_name_reads_as_cited:
  "removed_cited [] \<lparr>sd_clauses = [], sd_removed = [js ''constructor'']\<rparr> = [js ''constructor'']"
  by (simp add: removed_cited_def cited_clause_ids_def OBJECT_PROTOTYPE_def)

section \<open>Properties\<close>

text \<open>
  The composer never re-reads what it said itself: whatever the visitor does, the next update finds the value to be the
  text last emitted, so the draft (with what was typed but is not in the text) is not reloaded; an action either leaves
  the value alone and dispatches nothing, or dispatches exactly the new value with its validity.
\<close>

theorem composer_keeps_its_draft:
  assumes "mounted c" "offered a c"
  shows "will_update (fst (act a c)) = fst (act a c) \<and>
     (snd (act a c) = [] \<and> co_value (fst (act a c)) = co_value c \<or>
      snd (act a c) = [(co_value (fst (act a c)), fst (describe_sla_validity (co_value (fst (act a c)))))])"
  using act_speaks [of c a] mounted_last_emitted [OF mounted.acts [OF assms]]
  by (auto simp: speaks_def will_update_def)

theorem composer_keeps_its_draft_witness:
  "will_update (fst (act (Add_Clause Kind_Latency) (first_update []))) = fst (act (Add_Clause Kind_Latency) (first_update [])) \<and>
   co_value (fst (act (Add_Clause Kind_Latency) (first_update []))) \<noteq> []"
proof -
  have o1: "offered (Add_Clause Kind_Latency) (first_update [])"
    by (simp add: first_update_def will_update_def fresh_composer_def load_text_def empty_draft_def trim_def)
  have "co_value (fst (act (Add_Clause Kind_Latency) (first_update []))) \<noteq> []"
    by (simp add: add_clause_def published_text_def draft_to_text_def draft_to_document_def js_def)
  then show ?thesis using composer_keeps_its_draft [OF mounted.first o1] by blast
qed

text \<open>
  C13: In the form, what is shown is what is held: in every state a mounted composer reaches, when the form is up, the
  value the parent holds is the text of the draft shown (nothing, for no clauses), or that draft is what the value reads
  as, or both are empty.
\<close>

theorem form_shows_what_is_published:
  assumes "mounted c" "co_view c = Form_View"
  shows "co_value c = (if sd_clauses (co_draft c) \<noteq> [] then draft_to_text (co_draft c) else []) \<or>
     draft_from_text (co_value c) = Inr (co_draft c) \<or> trim (co_value c) = [] \<and> co_draft c = empty_draft"
  using mounted_agrees [OF assms(1)] assms(2) by (simp add: agrees_def published_text_def)

theorem form_shows_what_is_published_witness:
  "co_view (first_update tiny_text) = Form_View \<and> co_draft (first_update tiny_text) = draft_of_document tiny_sla \<and>
   draft_from_text (co_value (first_update tiny_text)) = Inr (co_draft (first_update tiny_text))"
proof -
  have f: "co_view (first_update tiny_text) = Form_View" "co_draft (first_update tiny_text) = draft_of_document tiny_sla"
    "co_value (first_update tiny_text) = tiny_text"
    using trim_tiny tiny_parses
    by (simp_all add: first_update_def will_update_def fresh_composer_def load_text_def draft_from_text_def Let_def)
  then show ?thesis
    using form_shows_what_is_published [OF mounted.first f(1)] f tiny_parses by (auto simp: draft_from_text_def)
qed



end
