(* ===== verification/Sla_Editor.thy ===== *)
theory Sla_Editor imports Sla_Composer begin

text \<open>
  \<open>web/src/forms/sla-editor.js\<close>: the service page's editor around the composer, and its asynchronous \<open>publish\<close>,
  cut at its two awaits. The wallet and the network it waits for are the events that end them.
\<close>

section \<open>Errors in one line\<close>

definition MAX_ERROR_LENGTH :: nat where "MAX_ERROR_LENGTH = 160"

definition first_line :: "jstring \<Rightarrow> jstring" where
  "first_line s = takeWhile (\<lambda>c. c \<noteq> 10) s"

definition trim_end :: "jstring \<Rightarrow> jstring" where
  "trim_end s = rev (dropWhile is_space (rev s))"

text \<open>Of the thrown value: \<open>shortMessage\<close> and \<open>message\<close>, where they are strings.\<close>

record tx_error =
  te_short :: "jstring option"
  te_message :: "jstring option"

definition format_tx_error :: "tx_error \<Rightarrow> jstring" where
  "format_tx_error e =
     (let short = (case te_short e of Some s \<Rightarrow> s | None \<Rightarrow> []); full = (case te_message e of Some s \<Rightarrow> s | None \<Rightarrow> []);
          line = trim (first_line (if short \<noteq> [] then short else full)) in
      if line = [] then js ''The request failed without a message.''
      else if MAX_ERROR_LENGTH < length line then trim_end (take (MAX_ERROR_LENGTH - 1) line) @ [8230]
      else line)"

section \<open>The editor\<close>

text \<open>A call of \<open>publish\<close> is at the first await, or at the second; what it sent is kept with it.\<close>

datatype flight = Awaiting_Network | Awaiting_Wallet jstring jstring | Landed

record sla_editor =
  ed_listing :: "(jstring \<times> jstring option) option" \<comment> \<open>slug and \<open>slaRaw\<close>\<close>
  ed_deps :: bool
  ed_draft :: jstring
  ed_status :: jstring
  ed_pending :: bool
  ed_flights :: "flight list"

datatype editor_event =
    Select "jstring \<times> jstring option" | Clear_Editor | Edit jstring | Discard | Press_Publish
  | Network_Ready nat | Network_Failed nat tx_error | Wallet_Sent nat jstring | Wallet_Failed nat tx_error

definition raw_of :: "(jstring \<times> jstring option) option \<Rightarrow> jstring" where
  "raw_of listing = (case listing of Some (_, Some raw) \<Rightarrow> raw | _ \<Rightarrow> [])"

definition fresh_editor :: sla_editor where
  "fresh_editor = \<lparr>ed_listing = None, ed_deps = False, ed_draft = [], ed_status = [], ed_pending = False, ed_flights = []\<rparr>"

definition changed :: "sla_editor \<Rightarrow> bool" where
  "changed e \<longleftrightarrow> trim (ed_draft e) \<noteq> trim (raw_of (ed_listing e))"

definition failed :: "nat \<Rightarrow> tx_error \<Rightarrow> sla_editor \<Rightarrow> sla_editor" where
  "failed i err e = e\<lparr>ed_status := js ''Failed: '' @ format_tx_error err, ed_pending := False, ed_flights := (ed_flights e)[i := Landed]\<rparr>"

text \<open>What reading a member of \<open>null\<close> throws, inside the \<open>try\<close>; its text is the engine's.\<close>

definition null_error :: tx_error where
  "null_error = \<lparr>te_short = None, te_message = Some (js ''TypeError'')\<rparr>"

text \<open>The state after an event, and the \<open>sla\<close> record that \<open>publishSla\<close> asks the wallet to write, as slug and value.\<close>

fun editor_step :: "editor_event \<Rightarrow> sla_editor \<Rightarrow> sla_editor \<times> (jstring \<times> jstring) list" where
  "editor_step (Select listing) e = (e\<lparr>ed_listing := Some listing, ed_deps := True, ed_draft := raw_of (Some listing), ed_status := []\<rparr>, [])"
| "editor_step Clear_Editor e = (fresh_editor\<lparr>ed_flights := ed_flights e\<rparr>, [])"
| "editor_step (Edit v) e = (e\<lparr>ed_draft := v\<rparr>, [])"
| "editor_step Discard e = (e\<lparr>ed_draft := raw_of (ed_listing e), ed_status := []\<rparr>, [])"
| "editor_step Press_Publish e =
     (if ed_listing e = None \<or> \<not> ed_deps e \<or> \<not> fst (describe_sla_validity (ed_draft e)) then (e, [])
      else (e\<lparr>ed_pending := True, ed_status := js ''Sending'' @ [8230], ed_flights := ed_flights e @ [Awaiting_Network]\<rparr>, []))"
| "editor_step (Network_Ready i) e =
     (if i < length (ed_flights e) \<and> ed_flights e ! i = Awaiting_Network then
        (case ed_listing e of
           Some (slug, _) \<Rightarrow>
             if ed_deps e then (e\<lparr>ed_flights := (ed_flights e)[i := Awaiting_Wallet slug (trim (ed_draft e))]\<rparr>, [(slug, trim (ed_draft e))])
             else (failed i null_error e, [])
         | None \<Rightarrow> (failed i null_error e, []))
      else (e, []))"
| "editor_step (Network_Failed i err) e =
     (if i < length (ed_flights e) \<and> ed_flights e ! i = Awaiting_Network then (failed i err e, []) else (e, []))"
| "editor_step (Wallet_Sent i hash) e =
     (case (if i < length (ed_flights e) then ed_flights e ! i else Landed) of
        Awaiting_Wallet _ _ \<Rightarrow>
          (e\<lparr>ed_status := js ''Sent: '' @ hash, ed_pending := False, ed_flights := (ed_flights e)[i := Landed]\<rparr>, [])
      | _ \<Rightarrow> (e, []))"
| "editor_step (Wallet_Failed i err) e =
     (case (if i < length (ed_flights e) then ed_flights e ! i else Landed) of
        Awaiting_Wallet _ _ \<Rightarrow> (failed i err e, [])
      | _ \<Rightarrow> (e, []))"

fun editor_run :: "editor_event list \<Rightarrow> sla_editor \<Rightarrow> sla_editor \<times> (jstring \<times> jstring) list" where
  "editor_run [] e = (e, [])"
| "editor_run (v # vs) e = (let r = editor_step v e; s = editor_run vs (fst r) in (fst s, snd r @ snd s))"

definition publish_offered :: "sla_editor \<Rightarrow> bool" where
  "publish_offered e \<longleftrightarrow> ed_listing e \<noteq> None \<and> ed_deps e \<and> fst (describe_sla_validity (ed_draft e)) \<and> changed e \<and> \<not> ed_pending e"

text \<open>An event that neither edits the draft nor changes the service.\<close>

fun calm :: "editor_event \<Rightarrow> bool" where
  "calm (Select _) = False"
| "calm Clear_Editor = False"
| "calm (Edit _) = False"
| "calm Discard = False"
| "calm _ = True"

section \<open>Facts\<close>

lemma failed_keeps [simp]:
  "ed_listing (failed i err e) = ed_listing e" "ed_draft (failed i err e) = ed_draft e" "ed_deps (failed i err e) = ed_deps e"
  by (simp_all add: failed_def)

lemma calm_keeps:
  assumes "calm v"
  shows "ed_listing (fst (editor_step v e)) = ed_listing e \<and> ed_draft (fst (editor_step v e)) = ed_draft e \<and>
     ed_deps (fst (editor_step v e)) = ed_deps e"
  using assms by (cases v) (auto simp: Let_def split: option.split flight.split)

lemma calm_sends:
  assumes "calm v" "(slug, value) \<in> set (snd (editor_step v e))"
  shows "value = trim (ed_draft e) \<and> (\<exists>raw. ed_listing e = Some (slug, raw))"
  using assms by (cases v) (auto split: if_splits option.splits flight.splits)

lemma calm_run_sends:
  "list_all calm vs \<Longrightarrow> (slug, value) \<in> set (snd (editor_run vs e)) \<Longrightarrow>
     value = trim (ed_draft e) \<and> (\<exists>raw. ed_listing e = Some (slug, raw))"
proof (induction vs arbitrary: e)
  case (Cons v vs)
  then have "calm v" "list_all calm vs" by simp_all
  moreover have "(slug, value) \<in> set (snd (editor_step v e)) \<or> (slug, value) \<in> set (snd (editor_run vs (fst (editor_step v e))))"
    using Cons.prems(2) by (auto simp: Let_def)
  ultimately show ?case using Cons.IH [of "fst (editor_step v e)"] calm_sends calm_keeps by metis
qed simp

lemma validity_parses: "fst (describe_sla_validity t) \<longleftrightarrow> trim t \<noteq> [] \<and> is_ok (parse_sla (trim t))"
  by (simp add: describe_sla_validity_def split: sum.split)

text \<open>The value is read after the first await: an edit made meanwhile is published unchecked.\<close>

lemma publish_reads_the_draft_late:
  assumes "publish_offered e" "ed_listing e = Some (slug, raw)"
  shows "(slug, trim v) \<in> set (snd (editor_run [Press_Publish, Edit v, Network_Ready (length (ed_flights e))] e))"
  using assms by (simp add: publish_offered_def nth_append Let_def)

section \<open>Properties\<close>

text \<open>
  C32: What \<open>publish\<close> sends is what was checked, as long as nobody edits or changes the service while it waits: after a
  press of the button, whatever the network and the wallet answer and however often, every record sent is for the
  service that was selected, is the draft as it was, and is one \<open>parseSla\<close> accepts; and it differs from the record published.
\<close>

theorem undisturbed_publish_is_valid:
  assumes "publish_offered e" "list_all calm vs" "(slug, value) \<in> set (snd (editor_run (Press_Publish # vs) e))"
  shows "value = trim (ed_draft e) \<and> is_ok (parse_sla value) \<and>
     (\<exists>raw. ed_listing e = Some (slug, raw) \<and> value \<noteq> trim (raw_of (Some (slug, raw))))"
proof -
  have p: "list_all calm (Press_Publish # vs)" using assms(2) by simp
  have "value = trim (ed_draft e) \<and> (\<exists>raw. ed_listing e = Some (slug, raw))"
    by (rule calm_run_sends [OF p assms(3)])
  then show ?thesis using assms(1) by (auto simp: publish_offered_def changed_def validity_parses)
qed

definition example_editor :: sla_editor where
  "example_editor = fresh_editor\<lparr>ed_listing := Some (js ''weather'', None), ed_deps := True, ed_draft := tiny_text\<rparr>"

lemma trim_tiny_text: "trim tiny_text = tiny_text"
  by code_simp

theorem undisturbed_publish_is_valid_witness:
  "snd (editor_run [Press_Publish, Network_Ready 0, Wallet_Sent 0 (js ''0xfeed'')] example_editor) = [(js ''weather'', tiny_text)] \<and>
   is_ok (parse_sla tiny_text)"
proof -
  have n: "trim [] = ([] :: jstring)" "tiny_text \<noteq> []" by (simp_all add: trim_def tiny_text_def)
  have o1: "publish_offered example_editor"
    using n tiny_parses by (simp add: publish_offered_def example_editor_def fresh_editor_def changed_def raw_of_def
      validity_parses trim_tiny_text)
  have c: "list_all calm [Network_Ready 0, Wallet_Sent 0 (js ''0xfeed'')]" by simp
  have s: "snd (editor_run [Press_Publish, Network_Ready 0, Wallet_Sent 0 (js ''0xfeed'')] example_editor) = [(js ''weather'', tiny_text)]"
    using o1 by (simp add: publish_offered_def example_editor_def fresh_editor_def Let_def trim_tiny_text)
  then show ?thesis using undisturbed_publish_is_valid [OF o1 c, of "js ''weather''" tiny_text] by simp
qed

end
