(* ===== verification/Wizard.thy ===== *)
theory Wizard imports Sla_Editor Ens begin

text \<open>
  \<open>web/src/forms/wizard.js\<close> with the four transactions of \<open>web/src/actions.js\<close>: the wizard a provider registers a service
  with. Each asynchronous method is cut at its awaits; the lookup, the network and the wallet are the events that end them,
  and the browser's history is one more source of events.
\<close>

section \<open>The four transactions\<close>

record wizard_deps =
  wd_account :: jstring
  wd_registrar :: jstring
  wd_registry :: jstring
  wd_deposit :: nat

datatype wallet_call =
    Claim_Call jstring jstring jstring \<comment> \<open>registrar, slug, payTo\<close>
  | Register_Call jstring jstring nat \<comment> \<open>registry, slug, value\<close>
  | Send_Call jstring "jstring \<times> jstring \<times> jstring" \<comment> \<open>to, data\<close>

definition claim_subname :: "jstring \<Rightarrow> jstring \<Rightarrow> jstring \<Rightarrow> wallet_call" where
  "claim_subname registrar slug pay_to = Claim_Call registrar slug pay_to"

definition register_service :: "jstring \<Rightarrow> jstring \<Rightarrow> nat \<Rightarrow> wallet_call" where
  "register_service registry slug deposit = Register_Call registry slug deposit"

definition publish_sla :: "(jstring \<Rightarrow> jstring) \<Rightarrow> jstring \<Rightarrow> jstring \<Rightarrow> wallet_call" where
  "publish_sla namehash slug value =
     (let call = set_text_calldata namehash slug (js ''sla'') value None None in Send_Call (uw_to call) (uw_data call))"

definition publish_url :: "(jstring \<Rightarrow> jstring) \<Rightarrow> jstring \<Rightarrow> jstring \<Rightarrow> wallet_call" where
  "publish_url namehash slug value =
     (let call = set_text_calldata namehash slug (js ''url'') value None None in Send_Call (uw_to call) (uw_data call))"

datatype wizard_chain = Sepolia | Arc

record execution_step =
  es_key :: jstring
  es_chain :: wizard_chain
  es_call :: wallet_call

definition build_execution_steps ::
  "(jstring \<Rightarrow> jstring) \<Rightarrow> wizard_deps \<Rightarrow> jstring \<Rightarrow> jstring \<Rightarrow> jstring \<Rightarrow> execution_step list" where
  "build_execution_steps namehash d slug url sla =
     [\<lparr>es_key = js ''claim'', es_chain = Sepolia, es_call = claim_subname (wd_registrar d) slug (wd_account d)\<rparr>,
      \<lparr>es_key = js ''register'', es_chain = Arc, es_call = register_service (wd_registry d) slug (wd_deposit d)\<rparr>,
      \<lparr>es_key = js ''url'', es_chain = Sepolia, es_call = publish_url namehash slug (trim url)\<rparr>,
      \<lparr>es_key = js ''sla'', es_chain = Sepolia, es_call = publish_sla namehash slug (trim sla)\<rparr>]"

section \<open>The element's state\<close>

text \<open>A call of \<open>runStep\<close> holds the index and the step it built; it is at \<open>ensure\<close>, at \<open>run\<close>, or over.\<close>

datatype run_phase = At_Network | At_Wallet | Over

record signing =
  sg_index :: nat
  sg_call :: wallet_call
  sg_phase :: run_phase

text \<open>A call of \<open>checkAvailability\<close> holds its token and the slug it looks up, until it is answered.\<close>

record wizard =
  wz_deps :: "wizard_deps option"
  wz_message :: jstring
  wz_step :: int
  wz_slug :: jstring
  wz_availability :: jstring
  wz_claimed_by :: "jstring option"
  wz_available :: bool
  wz_url :: jstring
  wz_sla :: jstring
  wz_done :: nat
  wz_exec_error :: jstring
  wz_pending :: bool
  wz_check_token :: nat
  wz_timer :: bool
  wz_checks :: "(nat \<times> jstring) option list"
  wz_runs :: "signing list"

definition new_wizard :: wizard where
  "new_wizard = \<lparr>wz_deps = None, wz_message = [], wz_step = 1, wz_slug = [], wz_availability = [], wz_claimed_by = None,
     wz_available = False, wz_url = [], wz_sla = [], wz_done = 0, wz_exec_error = [], wz_pending = False,
     wz_check_token = 0, wz_timer = False, wz_checks = [], wz_runs = []\<rparr>"

text \<open>What the element asks of its host, the lookup and the wallet, and what came back.\<close>

datatype wizard_effect =
    Push_Step int | Back_Step | On_Done
  | Owner_Answer jstring "jstring option" \<comment> \<open>the owner read for a slug\<close>
  | Ask_Wallet nat wallet_call | Written nat wallet_call

datatype wizard_event =
    Mount wizard_deps | Mount_Without_Registrar | Unmount | Clear_Wizard
  | Go_Step int | Step_Back | Restore_Step int
  | Edit_Slug jstring | Debounce_Elapsed | Owner_Read nat "jstring option" | Lookup_Failed nat tx_error
  | Edit_Url jstring | Edit_Sla jstring
  | Press_Sign nat | Chain_Ready nat | Chain_Failed nat tx_error | Signed nat | Refused nat tx_error

section \<open>The handlers\<close>

definition clear_wizard :: "wizard \<Rightarrow> wizard" where
  "clear_wizard w = new_wizard\<lparr>wz_check_token := Suc (wz_check_token w), wz_checks := wz_checks w, wz_runs := wz_runs w\<rparr>"

definition go_step :: "int \<Rightarrow> wizard \<Rightarrow> wizard \<times> wizard_effect list" where
  "go_step n w = (w\<lparr>wz_step := n\<rparr>, if wz_deps w \<noteq> None then [Push_Step n] else [])"

definition restore_step :: "int \<Rightarrow> wizard \<Rightarrow> wizard" where
  "restore_step n w =
     (if 0 < wz_done w then w
      else if 1 < n \<and> wz_slug w = [] then w
      else w\<lparr>wz_step := min (max n 1) 4\<rparr>)"

definition edit_slug :: "jstring \<Rightarrow> wizard \<Rightarrow> wizard" where
  "edit_slug v w =
     (let x = w\<lparr>wz_slug := trim v, wz_available := False, wz_claimed_by := None, wz_check_token := Suc (wz_check_token w),
        wz_timer := False\<rparr> in
      if \<not> slug_matches (wz_slug x) then x\<lparr>wz_availability := js ''Lowercase letters, digits and hyphens only.''\<rparr>
      else x\<lparr>wz_availability := js ''Checking'' @ [8230], wz_timer := True\<rparr>)"

definition lookup_failed :: "tx_error \<Rightarrow> wizard \<Rightarrow> wizard" where
  "lookup_failed err w = w\<lparr>wz_claimed_by := None,
     wz_availability := js ''Could not check availability: '' @ format_tx_error err\<rparr>"

definition check_availability :: "wizard \<Rightarrow> wizard" where
  "check_availability w =
     (if wz_deps w = None then lookup_failed null_error w
      else w\<lparr>wz_checks := wz_checks w @ [Some (wz_check_token w, wz_slug w)]\<rparr>)"

definition truthy_owner :: "jstring option \<Rightarrow> bool" where
  "truthy_owner owner \<longleftrightarrow> owner \<noteq> None \<and> owner \<noteq> Some []"

definition check_at :: "nat \<Rightarrow> wizard \<Rightarrow> (nat \<times> jstring) option" where
  "check_at i w = (if i < length (wz_checks w) then wz_checks w ! i else None)"

definition owner_read :: "nat \<Rightarrow> jstring option \<Rightarrow> wizard \<Rightarrow> wizard \<times> wizard_effect list" where
  "owner_read i owner w =
     (case check_at i w of
        None \<Rightarrow> (w, [])
      | Some (token, slug) \<Rightarrow>
          let x = w\<lparr>wz_checks := (wz_checks w)[i := None]\<rparr> in
          (if token \<noteq> wz_check_token w then x
           else x\<lparr>wz_available := \<not> truthy_owner owner, wz_claimed_by := owner,
             wz_availability := if truthy_owner owner then [] else js ''Available.''\<rparr>,
           [Owner_Answer slug owner]))"

definition lookup_answer_failed :: "nat \<Rightarrow> tx_error \<Rightarrow> wizard \<Rightarrow> wizard" where
  "lookup_answer_failed i err w =
     (case check_at i w of
        None \<Rightarrow> w
      | Some (token, _) \<Rightarrow>
          let x = w\<lparr>wz_checks := (wz_checks w)[i := None]\<rparr> in
          if token \<noteq> wz_check_token w then x else lookup_failed err x)"

definition url_valid :: "wizard \<Rightarrow> bool" where
  "url_valid w \<longleftrightarrow> take 7 (trim (wz_url w)) = js ''http://'' \<or> take 8 (trim (wz_url w)) = js ''https://''"

text \<open>\<open>runStep\<close>, up to its first await: an index past the last step throws inside the \<open>try\<close>.\<close>

definition run_step :: "(jstring \<Rightarrow> jstring) \<Rightarrow> nat \<Rightarrow> wizard \<Rightarrow> wizard" where
  "run_step namehash index w =
     (case wz_deps w of
        None \<Rightarrow> w
      | Some d \<Rightarrow>
          if index \<noteq> wz_done w \<or> wz_pending w then w
          else let steps = build_execution_steps namehash d (wz_slug w) (wz_url w) (wz_sla w) in
            if index < length steps then
              w\<lparr>wz_pending := True, wz_exec_error := [],
                wz_runs := wz_runs w @ [\<lparr>sg_index = index, sg_call = es_call (steps ! index), sg_phase = At_Network\<rparr>]\<rparr>
            else w\<lparr>wz_pending := False, wz_exec_error := format_tx_error null_error\<rparr>)"

definition phase_at :: "nat \<Rightarrow> wizard \<Rightarrow> run_phase" where
  "phase_at i w = (if i < length (wz_runs w) then sg_phase (wz_runs w ! i) else Over)"

definition set_phase :: "nat \<Rightarrow> run_phase \<Rightarrow> wizard \<Rightarrow> wizard" where
  "set_phase i p w = w\<lparr>wz_runs := (wz_runs w)[i := (wz_runs w ! i)\<lparr>sg_phase := p\<rparr>]\<rparr>"

definition chain_ready :: "nat \<Rightarrow> wizard \<Rightarrow> wizard \<times> wizard_effect list" where
  "chain_ready i w =
     (if phase_at i w = At_Network then
        (set_phase i At_Wallet w, [Ask_Wallet (sg_index (wz_runs w ! i)) (sg_call (wz_runs w ! i))])
      else (w, []))"

definition run_failed :: "nat \<Rightarrow> tx_error \<Rightarrow> wizard \<Rightarrow> wizard" where
  "run_failed i err w = (set_phase i Over w)\<lparr>wz_exec_error := format_tx_error err, wz_pending := False\<rparr>"

definition STEP_COUNT :: nat where "STEP_COUNT = 4"

definition wallet_signed :: "nat \<Rightarrow> wizard \<Rightarrow> wizard \<times> wizard_effect list" where
  "wallet_signed i w =
     (if phase_at i w = At_Wallet then
        (let r = wz_runs w ! i in
         ((set_phase i Over w)\<lparr>wz_done := sg_index r + 1, wz_pending := False\<rparr>,
          Written (sg_index r) (sg_call r) # (if sg_index r + 1 = STEP_COUNT then [On_Done] else [])))
      else (w, []))"

fun wizard_step :: "(jstring \<Rightarrow> jstring) \<Rightarrow> wizard_event \<Rightarrow> wizard \<Rightarrow> wizard \<times> wizard_effect list" where
  "wizard_step nh (Mount d) w = (w\<lparr>wz_message := [], wz_deps := Some d\<rparr>, [])"
| "wizard_step nh Mount_Without_Registrar w =
     (w\<lparr>wz_message := js ''Service onboarding needs the subname registrar deployed '' @ [8212] @ js '' not yet live on this build.''\<rparr>, [])"
| "wizard_step nh Unmount w = (w\<lparr>wz_deps := None\<rparr>, [])"
| "wizard_step nh Clear_Wizard w = (clear_wizard w, [])"
| "wizard_step nh (Go_Step n) w = go_step n w"
| "wizard_step nh Step_Back w = (w, if wz_deps w \<noteq> None then [Back_Step] else [])"
| "wizard_step nh (Restore_Step n) w = (restore_step n w, [])"
| "wizard_step nh (Edit_Slug v) w = (edit_slug v w, [])"
| "wizard_step nh Debounce_Elapsed w = (if wz_timer w then check_availability (w\<lparr>wz_timer := False\<rparr>) else w, [])"
| "wizard_step nh (Owner_Read i owner) w = owner_read i owner w"
| "wizard_step nh (Lookup_Failed i err) w = (lookup_answer_failed i err w, [])"
| "wizard_step nh (Edit_Url v) w = (w\<lparr>wz_url := v\<rparr>, [])"
| "wizard_step nh (Edit_Sla v) w = (w\<lparr>wz_sla := v\<rparr>, [])"
| "wizard_step nh (Press_Sign i) w = (run_step nh i w, [])"
| "wizard_step nh (Chain_Ready i) w = chain_ready i w"
| "wizard_step nh (Chain_Failed i err) w = (if phase_at i w = At_Network then run_failed i err w else w, [])"
| "wizard_step nh (Signed i) w = wallet_signed i w"
| "wizard_step nh (Refused i err) w = (if phase_at i w = At_Wallet then run_failed i err w else w, [])"

section \<open>What the view offers\<close>

definition shown :: "wizard \<Rightarrow> bool" where
  "shown w \<longleftrightarrow> wz_message w = [] \<and> wz_deps w \<noteq> None"

definition at_review :: "wizard \<Rightarrow> bool" where
  "at_review w \<longleftrightarrow> wz_step w \<noteq> 1 \<and> wz_step w \<noteq> 2 \<and> wz_step w \<noteq> 3"

text \<open>A control is rendered, and enabled; the host, the history, the lookup and the wallet act when they like.\<close>

fun wizard_offers :: "wizard \<Rightarrow> wizard_event \<Rightarrow> bool" where
  "wizard_offers w (Go_Step n) \<longleftrightarrow> shown w \<and>
     (wz_step w = 1 \<and> n = 2 \<and> wz_available w \<or> wz_step w = 2 \<and> n = 3 \<and> url_valid w \<or>
      wz_step w = 3 \<and> n = 4 \<and> fst (describe_sla_validity (wz_sla w)))"
| "wizard_offers w Step_Back \<longleftrightarrow> shown w \<and> (wz_step w = 2 \<or> wz_step w = 3 \<or> at_review w \<and> wz_done w = 0)"
| "wizard_offers w (Edit_Slug v) \<longleftrightarrow> shown w \<and> wz_step w = 1"
| "wizard_offers w (Edit_Url v) \<longleftrightarrow> shown w \<and> wz_step w = 2"
| "wizard_offers w (Edit_Sla v) \<longleftrightarrow> shown w \<and> wz_step w = 3"
| "wizard_offers w (Press_Sign i) \<longleftrightarrow> shown w \<and> at_review w \<and> i = wz_done w \<and> i < STEP_COUNT \<and> \<not> wz_pending w"
| "wizard_offers w _ \<longleftrightarrow> True"

inductive wizard_session ::
  "(jstring \<Rightarrow> jstring) \<Rightarrow> (wizard \<Rightarrow> wizard_event \<Rightarrow> bool) \<Rightarrow> wizard \<Rightarrow> wizard_effect list \<Rightarrow> bool"
  for nh allowed where
  opened: "wizard_session nh allowed new_wizard []"
| acted: "wizard_session nh allowed w out \<Longrightarrow> wizard_offers w v \<Longrightarrow> allowed w v \<Longrightarrow>
    wizard_session nh allowed (fst (wizard_step nh v w)) (out @ snd (wizard_step nh v w))"

fun wizard_run :: "(jstring \<Rightarrow> jstring) \<Rightarrow> wizard_event list \<Rightarrow> wizard \<Rightarrow> wizard \<times> wizard_effect list" where
  "wizard_run nh [] w = (w, [])"
| "wizard_run nh (v # vs) w = (let r = wizard_step nh v w; s = wizard_run nh vs (fst r) in (fst s, snd r @ snd s))"

fun all_offered :: "(jstring \<Rightarrow> jstring) \<Rightarrow> (wizard \<Rightarrow> wizard_event \<Rightarrow> bool) \<Rightarrow> wizard_event list \<Rightarrow> wizard \<Rightarrow> bool" where
  "all_offered nh allowed [] w \<longleftrightarrow> True"
| "all_offered nh allowed (v # vs) w \<longleftrightarrow>
     wizard_offers w v \<and> allowed w v \<and> all_offered nh allowed vs (fst (wizard_step nh v w))"

lemma run_is_session:
  "wizard_session nh allowed w out \<Longrightarrow> all_offered nh allowed vs w \<Longrightarrow>
     wizard_session nh allowed (fst (wizard_run nh vs w)) (out @ snd (wizard_run nh vs w))"
proof (induction vs arbitrary: w out)
  case (Cons v vs)
  then have "wizard_session nh allowed (fst (wizard_step nh v w)) (out @ snd (wizard_step nh v w))"
    by (intro wizard_session.acted) simp_all
  from Cons.IH [OF this] Cons.prems(2) show ?case by (simp add: Let_def)
qed simp

section \<open>One service, four transactions\<close>

fun written :: "wizard_effect list \<Rightarrow> wallet_call list" where
  "written [] = []"
| "written (Written _ c # es) = c # written es"
| "written (_ # es) = written es"

text \<open>
  The order of the transactions: from \<open>n\<close> written ones and the one last asked for, what follows asks for the next
  only, and writes only what it asked for. \<open>None\<close> is a log out of order.
\<close>

fun follow_order :: "nat \<Rightarrow> wallet_call option \<Rightarrow> wizard_effect list \<Rightarrow> (nat \<times> wallet_call option) option" where
  "follow_order n asked [] = Some (n, asked)"
| "follow_order n asked (Ask_Wallet i c # es) = (if i = n then follow_order n (Some c) es else None)"
| "follow_order n asked (Written i c # es) = (if i = n \<and> asked = Some c then follow_order (Suc n) None es else None)"
| "follow_order n asked (_ # es) = follow_order n asked es"

lemma written_append [simp]: "written (a @ b) = written a @ written b"
  by (induction a rule: written.induct) simp_all

lemma follow_append: "follow_order n asked (a @ b) =
   (case follow_order n asked a of None \<Rightarrow> None | Some (m, k) \<Rightarrow> follow_order m k b)"
  by (induction n asked a rule: follow_order.induct) simp_all

text \<open>Nothing of the wallet, and not the end.\<close>

fun harmless :: "wizard_effect \<Rightarrow> bool" where
  "harmless (Ask_Wallet _ _) = False"
| "harmless (Written _ _) = False"
| "harmless On_Done = False"
| "harmless _ = True"

lemma harmless_effects:
  assumes "\<forall>e \<in> set es. harmless e"
  shows "written es = []" "follow_order n asked es = Some (n, asked)" "On_Done \<notin> set es"
proof -
  from assms show "written es = []" by (induction es rule: written.induct) simp_all
  from assms show "follow_order n asked es = Some (n, asked)" by (induction n asked es rule: follow_order.induct) simp_all
  from assms show "On_Done \<notin> set es" by fastforce
qed

lemma phase_at_set_phase [simp]: "phase_at j (set_phase i p w) = (if j = i \<and> i < length (wz_runs w) then p else phase_at j w)"
  by (simp add: phase_at_def set_phase_def)

lemma phase_at_length [dest]: "phase_at i w \<noteq> Over \<Longrightarrow> i < length (wz_runs w)"
  by (simp add: phase_at_def split: if_splits)

text \<open>The call a step makes for the draft on screen, whoever the account.\<close>

definition draft_call :: "(jstring \<Rightarrow> jstring) \<Rightarrow> wizard \<Rightarrow> nat \<Rightarrow> wallet_call \<Rightarrow> bool" where
  "draft_call nh w n c \<longleftrightarrow> (\<exists>d. c = es_call (build_execution_steps nh d (wz_slug w) (wz_url w) (wz_sla w) ! n))"

definition one_run :: "(jstring \<Rightarrow> jstring) \<Rightarrow> wizard \<Rightarrow> bool" where
  "one_run nh w \<longleftrightarrow>
     (if wz_pending w then \<exists>k. phase_at k w \<noteq> Over \<and> sg_index (wz_runs w ! k) = wz_done w \<and>
         draft_call nh w (wz_done w) (sg_call (wz_runs w ! k)) \<and> (\<forall>j. j \<noteq> k \<longrightarrow> phase_at j w = Over)
      else \<forall>j. phase_at j w = Over)"

definition placed :: "wizard \<Rightarrow> bool" where
  "placed w \<longleftrightarrow> 1 \<le> wz_step w \<and> wz_step w \<le> 4 \<and> (0 < wz_done w \<or> wz_pending w \<longrightarrow> wz_step w = 4) \<and>
     wz_done w \<le> STEP_COUNT \<and> (wz_pending w \<longrightarrow> wz_done w < STEP_COUNT)"

definition order_kept :: "wizard \<Rightarrow> wizard_effect list \<Rightarrow> bool" where
  "order_kept w out \<longleftrightarrow> (\<exists>asked. follow_order 0 None out = Some (wz_done w, asked) \<and>
     (\<forall>k. phase_at k w = At_Wallet \<longrightarrow> asked = Some (sg_call (wz_runs w ! k))))"

definition one_service :: "(jstring \<Rightarrow> jstring) \<Rightarrow> wizard \<Rightarrow> wizard_effect list \<Rightarrow> bool" where
  "one_service nh w out \<longleftrightarrow> length (written out) = wz_done w \<and> (\<forall>i < wz_done w. draft_call nh w i (written out ! i)) \<and>
     (On_Done \<in> set out \<longleftrightarrow> wz_done w = STEP_COUNT)"

lemmas wizard_invariants = one_run_def placed_def order_kept_def one_service_def

text \<open>An event that leaves the runs alone.\<close>

lemma still_keeps:
  assumes "one_run nh w" "placed w" "order_kept w out" "one_service nh w out"
    "wz_done w' = wz_done w" "wz_pending w' = wz_pending w" "wz_runs w' = wz_runs w" "1 \<le> wz_step w'" "wz_step w' \<le> 4"
    "wz_done w = 0 \<and> \<not> wz_pending w \<or> wz_slug w' = wz_slug w \<and> wz_url w' = wz_url w \<and> wz_sla w' = wz_sla w \<and> wz_step w' = wz_step w"
    "\<forall>e \<in> set es. harmless e"
  shows "one_run nh w' \<and> placed w' \<and> order_kept w' (out @ es) \<and> one_service nh w' (out @ es)"
proof -
  have p: "phase_at k w' = phase_at k w" for k using assms(7) by (simp add: phase_at_def)
  have d: "draft_call nh w' i c = draft_call nh w i c" if "wz_done w \<noteq> 0 \<or> wz_pending w" for i c
    using assms(10) that by (auto simp: draft_call_def)
  note h = harmless_effects [OF assms(11)]
  have "one_run nh w'" using assms(1,5,6,7) d by (auto simp: one_run_def p)
  moreover have "placed w'" using assms(2,5,6,8,9,10) by (auto simp: placed_def)
  moreover have "order_kept w' (out @ es)" using assms(3,5,7) h by (auto simp: order_kept_def follow_append p)
  moreover have "one_service nh w' (out @ es)" using assms(4,5) d h by (auto simp: one_service_def)
  ultimately show ?thesis by blast
qed

text \<open>Nobody restores a step, and the element is not cleared, while a transaction is under way.\<close>

fun attended :: "wizard \<Rightarrow> wizard_event \<Rightarrow> bool" where
  "attended w (Restore_Step n) = (\<not> wz_pending w)"
| "attended w Clear_Wizard = False"
| "attended w _ = True"

lemma running:
  assumes "one_run nh w" "phase_at i w \<noteq> Over"
  shows "wz_pending w" "sg_index (wz_runs w ! i) = wz_done w" "draft_call nh w (wz_done w) (sg_call (wz_runs w ! i))"
    "j \<noteq> i \<Longrightarrow> phase_at j w = Over"
  using assms unfolding one_run_def by (auto split: if_splits; metis)+

lemma press_keeps:
  assumes "one_run nh w" "placed w" "order_kept w out" "one_service nh w out" "wizard_offers w (Press_Sign i)"
  shows "one_run nh (run_step nh i w) \<and> placed (run_step nh i w) \<and> order_kept (run_step nh i w) out \<and> one_service nh (run_step nh i w) out"
proof -
  obtain d where d: "wz_deps w = Some d" "i = wz_done w" "i < STEP_COUNT" "\<not> wz_pending w" "wz_step w = 4"
    using assms(2,5) by (auto simp: shown_def at_review_def placed_def)
  define c where "c = es_call (build_execution_steps nh d (wz_slug w) (wz_url w) (wz_sla w) ! i)"
  define w' where "w' = w\<lparr>wz_pending := True, wz_exec_error := [],
      wz_runs := wz_runs w @ [\<lparr>sg_index = i, sg_call = c, sg_phase = At_Network\<rparr>]\<rparr>"
  have r: "run_step nh i w = w'"
    using d by (simp add: run_step_def w'_def c_def build_execution_steps_def STEP_COUNT_def)
  have quiet: "phase_at j w = Over" for j using assms(1) d(4) by (simp add: one_run_def)
  have p: "phase_at j w' = (if j = length (wz_runs w) then At_Network else Over)" for j
    using quiet [of j] by (auto simp: phase_at_def w'_def nth_append)
  have dc: "draft_call nh w' n x = draft_call nh w n x" for n x by (simp add: draft_call_def w'_def)
  have k: "wz_pending w'" "wz_done w' = wz_done w" "wz_runs w' ! length (wz_runs w) = \<lparr>sg_index = i, sg_call = c, sg_phase = At_Network\<rparr>"
    by (simp_all add: w'_def)
  have "draft_call nh w (wz_done w) c" using d(2) by (auto simp: draft_call_def c_def)
  then have "one_run nh w'"
    unfolding one_run_def dc using d(2) k by (auto simp: p intro!: exI [of _ "length (wz_runs w)"])
  moreover have "placed w'" using assms(2) d by (simp add: placed_def w'_def)
  moreover have "order_kept w' out" using assms(3) p by (auto simp: order_kept_def w'_def)
  moreover have "one_service nh w' out" using assms(4) unfolding one_service_def dc by (simp add: w'_def)
  ultimately show ?thesis unfolding r by blast
qed

lemma failed_keeps_order:
  assumes "one_run nh w" "placed w" "order_kept w out" "one_service nh w out" "phase_at i w \<noteq> Over"
  shows "one_run nh (run_failed i err w) \<and> placed (run_failed i err w) \<and> order_kept (run_failed i err w) out \<and>
     one_service nh (run_failed i err w) out"
proof -
  let ?w = "run_failed i err w"
  have "phase_at j ?w = phase_at j (set_phase i Over w)" for j by (simp add: run_failed_def phase_at_def)
  then have p: "phase_at j ?w = Over" for j
    using running(4) [OF assms(1,5), of j] phase_at_length [OF assms(5)] by simp
  have dc: "draft_call nh ?w n x = draft_call nh w n x" for n x by (simp add: draft_call_def run_failed_def set_phase_def)
  show ?thesis
    using assms(2,3,4) running(1) [OF assms(1,5)] unfolding wizard_invariants dc p
    by (auto simp: run_failed_def set_phase_def)
qed

lemma ready_keeps:
  assumes "one_run nh w" "placed w" "order_kept w out" "one_service nh w out" "phase_at i w = At_Network"
  shows "one_run nh (fst (chain_ready i w)) \<and> placed (fst (chain_ready i w)) \<and>
     order_kept (fst (chain_ready i w)) (out @ snd (chain_ready i w)) \<and> one_service nh (fst (chain_ready i w)) (out @ snd (chain_ready i w))"
proof -
  let ?w = "set_phase i At_Wallet w" and ?r = "wz_runs w ! i"
  have ne: "phase_at i w \<noteq> Over" using assms(5) by simp
  note run = running [OF assms(1) ne]
  have i: "i < length (wz_runs w)" using ne by blast
  have c: "chain_ready i w = (?w, [Ask_Wallet (wz_done w) (sg_call ?r)])" using assms(5) run(2) by (simp add: chain_ready_def)
  have s [simp]: "wz_done ?w = wz_done w" "wz_pending ?w = wz_pending w" "wz_step ?w = wz_step w"
    "sg_index (wz_runs ?w ! i) = sg_index ?r" "sg_call (wz_runs ?w ! i) = sg_call ?r"
    using i by (simp_all add: set_phase_def)
  have dc: "draft_call nh ?w n x = draft_call nh w n x" for n x by (simp add: draft_call_def set_phase_def)
  have p: "phase_at j ?w = (if j = i then At_Wallet else Over)" for j using i run(4) by simp
  have "one_run nh ?w" unfolding one_run_def dc using run by (auto simp: p simp del: phase_at_set_phase intro!: exI [of _ i])
  moreover have "placed ?w" using assms(2) by (simp add: placed_def)
  moreover have "order_kept ?w (out @ [Ask_Wallet (wz_done w) (sg_call ?r)])"
    using assms(3) by (auto simp: order_kept_def follow_append p simp del: phase_at_set_phase)
  moreover have "one_service nh ?w (out @ [Ask_Wallet (wz_done w) (sg_call ?r)])"
    using assms(4) unfolding one_service_def dc by simp
  ultimately show ?thesis unfolding c by simp
qed

lemma signed_keeps:
  assumes "one_run nh w" "placed w" "order_kept w out" "one_service nh w out" "phase_at i w = At_Wallet"
  shows "one_run nh (fst (wallet_signed i w)) \<and> placed (fst (wallet_signed i w)) \<and>
     order_kept (fst (wallet_signed i w)) (out @ snd (wallet_signed i w)) \<and> one_service nh (fst (wallet_signed i w)) (out @ snd (wallet_signed i w))"
proof -
  let ?r = "wz_runs w ! i"
  define w' where "w' = (set_phase i Over w)\<lparr>wz_done := Suc (wz_done w), wz_pending := False\<rparr>"
  define es where "es = Written (wz_done w) (sg_call ?r) # (if Suc (wz_done w) = STEP_COUNT then [On_Done] else [])"
  have ne: "phase_at i w \<noteq> Over" using assms(5) by simp
  note run = running [OF assms(1) ne]
  have i: "i < length (wz_runs w)" using ne by blast
  have c: "wallet_signed i w = (w', es)" using assms(5) run(2) by (simp add: wallet_signed_def Let_def w'_def es_def)
  have dc: "draft_call nh w' n x = draft_call nh w n x" for n x by (simp add: draft_call_def w'_def set_phase_def)
  have "phase_at j w' = phase_at j (set_phase i Over w)" for j by (simp add: w'_def phase_at_def)
  then have p: "phase_at j w' = Over" for j using i run(4) [of j] by simp
  have "one_run nh w'" by (simp add: one_run_def p) (simp add: w'_def)
  moreover have "placed w'" using assms(2) run(1) by (simp add: placed_def w'_def set_phase_def)
  moreover have "order_kept w' (out @ es)"
    using assms(3,5) by (auto simp: order_kept_def follow_append p es_def) (simp_all add: w'_def)
  moreover have "one_service nh w' (out @ es)"
  proof -
    have d1: "wz_done w' = Suc (wz_done w)" "wz_done w < STEP_COUNT" using assms(2) run(1) by (simp_all add: w'_def placed_def)
    then show ?thesis using assms(4) run(3) unfolding one_service_def dc
      by (auto simp: es_def nth_append less_Suc_eq)
  qed
  ultimately show ?thesis unfolding c by simp
qed

lemma attended_keeps:
  assumes "one_run nh w" "placed w" "order_kept w out" "one_service nh w out" "wizard_offers w v" "attended w v"
    "wizard_step nh v w = (w', es)"
  shows "one_run nh w' \<and> placed w' \<and> order_kept w' (out @ es) \<and> one_service nh w' (out @ es)"
proof -
  note inv = assms(1-4)
  have idle: "wz_done w = 0 \<and> \<not> wz_pending w" if "wz_step w \<noteq> 4" using that assms(2) by (auto simp: placed_def)
  note still = still_keeps [OF inv]
  have range: "1 \<le> wz_step w" "wz_step w \<le> 4" using assms(2) by (simp_all add: placed_def)
  show ?thesis
  proof (cases v)
    case (Press_Sign i)
    then show ?thesis using press_keeps [OF inv, of i] assms(5,7) by auto
  next
    case (Chain_Ready i)
    show ?thesis
    proof (cases "phase_at i w = At_Network")
      case True
      then show ?thesis using ready_keeps [OF inv True] assms(7) Chain_Ready by simp
    next
      case False
      then show ?thesis using inv assms(7) Chain_Ready by (simp add: chain_ready_def)
    qed
  next
    case (Signed i)
    show ?thesis
    proof (cases "phase_at i w = At_Wallet")
      case True
      then show ?thesis using signed_keeps [OF inv True] assms(7) Signed by simp
    next
      case False
      then show ?thesis using inv assms(7) Signed by (simp add: wallet_signed_def)
    qed
  next
    case (Chain_Failed i err)
    then show ?thesis using inv failed_keeps_order [OF inv, of i err] assms(7) by (auto split: if_splits)
  next
    case (Refused i err)
    then show ?thesis using inv failed_keeps_order [OF inv, of i err] assms(7) by (auto split: if_splits)
  next
    case (Edit_Slug x)
    then show ?thesis using assms(5,7) range idle by (intro still) (auto simp: edit_slug_def Let_def split: if_splits)
  next
    case (Go_Step n)
    then show ?thesis using assms(5,7) idle by (intro still) (auto simp: go_step_def split: if_splits)
  next
    case (Restore_Step n)
    then show ?thesis using assms(6,7) range by (intro still) (auto simp: restore_step_def split: if_splits)
  next
    case Debounce_Elapsed
    then show ?thesis using assms(7) range
      by (intro still) (auto simp: check_availability_def lookup_failed_def split: if_splits)
  next
    case (Owner_Read i owner)
    then show ?thesis using assms(7) range
      by (intro still) (auto simp: owner_read_def Let_def split: option.splits if_splits)
  next
    case (Lookup_Failed i err)
    then show ?thesis using assms(7) range
      by (intro still) (auto simp: lookup_answer_failed_def lookup_failed_def Let_def split: option.splits if_splits)
  next
    case (Mount d)
    then show ?thesis using assms(7) range by (intro still) auto
  next
    case Mount_Without_Registrar
    then show ?thesis using assms(7) range by (intro still) auto
  next
    case Unmount
    then show ?thesis using assms(7) range by (intro still) auto
  next
    case Step_Back
    then show ?thesis using assms(7) range by (intro still) (auto split: if_splits)
  next
    case (Edit_Url x)
    then show ?thesis using assms(5,7) range idle by (intro still) auto
  next
    case (Edit_Sla x)
    then show ?thesis using assms(5,7) range idle by (intro still) auto
  qed (use assms(6) in simp)
qed

lemma session_invariants:
  "wizard_session nh attended w out \<Longrightarrow> one_run nh w \<and> placed w \<and> order_kept w out \<and> one_service nh w out"
proof (induction rule: wizard_session.induct)
  case opened
  then show ?case by (simp add: wizard_invariants new_wizard_def phase_at_def STEP_COUNT_def)
next
  case (acted w out v)
  then show ?case using attended_keeps by (metis prod.collapse)
qed

section \<open>What the review holds\<close>

definition found_free :: "jstring \<Rightarrow> wizard_effect list \<Rightarrow> bool" where
  "found_free slug out \<longleftrightarrow> slug_matches slug \<and> (\<exists>owner. \<not> truthy_owner owner \<and> Owner_Answer slug owner \<in> set out)"

definition gates :: "wizard \<Rightarrow> wizard_effect list \<Rightarrow> bool" where
  "gates w out \<longleftrightarrow> (wz_available w \<or> 2 \<le> wz_step w \<longrightarrow> found_free (wz_slug w) out) \<and> (3 \<le> wz_step w \<longrightarrow> url_valid w) \<and>
     (4 \<le> wz_step w \<longrightarrow> fst (describe_sla_validity (wz_sla w)))"

definition lookups :: "wizard \<Rightarrow> bool" where
  "lookups w \<longleftrightarrow> (wz_timer w \<longrightarrow> slug_matches (wz_slug w)) \<and>
     (\<forall>i t s. check_at i w = Some (t, s) \<longrightarrow>
        t \<le> wz_check_token w \<and> (t = wz_check_token w \<longrightarrow> s = wz_slug w \<and> slug_matches s))"

text \<open>The history only walks back.\<close>

fun backward :: "wizard \<Rightarrow> wizard_event \<Rightarrow> bool" where
  "backward w (Restore_Step n) \<longleftrightarrow> n \<le> wz_step w"
| "backward w _ \<longleftrightarrow> True"

lemma found_free_append: "found_free slug out \<Longrightarrow> found_free slug (out @ es)"
  by (auto simp: found_free_def)

text \<open>An event that leaves the draft, the step and the lookups alone.\<close>

lemma steady:
  assumes "gates w out" "lookups w" "wz_slug w' = wz_slug w" "wz_url w' = wz_url w" "wz_sla w' = wz_sla w"
    "wz_available w' = wz_available w" "wz_step w' = wz_step w" "wz_timer w' = wz_timer w" "wz_checks w' = wz_checks w"
    "wz_check_token w' = wz_check_token w"
  shows "gates w' (out @ es) \<and> lookups w'"
proof -
  have c: "check_at i w' = check_at i w" for i using assms(9) by (simp add: check_at_def)
  have u: "url_valid w' = url_valid w" using assms(4) by (simp add: url_valid_def)
  show ?thesis using assms(1,2) unfolding gates_def lookups_def c u assms(3-8,10) by (blast intro: found_free_append)
qed

lemma same_lookups:
  assumes "lookups w" "wz_slug w' = wz_slug w" "wz_timer w' = wz_timer w" "wz_checks w' = wz_checks w" "wz_check_token w' = wz_check_token w"
  shows "lookups w'"
  using assms(1) unfolding lookups_def check_at_def assms(2-5) .

lemma check_at_update: "check_at j (w\<lparr>wz_checks := (wz_checks w)[i := None]\<rparr>) = (if j = i then None else check_at j w)"
  by (simp add: check_at_def)

lemma check_at_add: "check_at j (w\<lparr>wz_checks := wz_checks w @ [c]\<rparr>) = (if j = length (wz_checks w) then c else check_at j w)"
  by (auto simp: check_at_def nth_append)

lemma check_at_cong [simp]:
  "check_at j (w\<lparr>wz_available := a\<rparr>) = check_at j w" "check_at j (w\<lparr>wz_claimed_by := c\<rparr>) = check_at j w"
  "check_at j (w\<lparr>wz_availability := v\<rparr>) = check_at j w" "check_at j (w\<lparr>wz_timer := t\<rparr>) = check_at j w"
  "check_at j (w\<lparr>wz_slug := s\<rparr>) = check_at j w" "check_at j (w\<lparr>wz_check_token := n\<rparr>) = check_at j w"
  by (simp_all add: check_at_def)

lemma edit_gates:
  assumes "gates w out" "lookups w" "wz_step w = 1"
  shows "gates (edit_slug v w) out \<and> lookups (edit_slug v w)"
proof -
  have "\<forall>i t s. check_at i w = Some (t, s) \<longrightarrow> t < Suc (wz_check_token w)"
    using assms(2) unfolding lookups_def by (meson le_imp_less_Suc)
  then show ?thesis
    using assms(3) by (cases "slug_matches (trim v)") (fastforce simp: edit_slug_def Let_def gates_def lookups_def)+
qed

lemma check_gates:
  assumes "gates w out" "lookups w" "wz_timer w"
  shows "gates (check_availability (w\<lparr>wz_timer := False\<rparr>)) out \<and> lookups (check_availability (w\<lparr>wz_timer := False\<rparr>))"
proof -
  let ?w = "check_availability (w\<lparr>wz_timer := False\<rparr>)"
  have f: "wz_slug ?w = wz_slug w" "wz_sla ?w = wz_sla w" "wz_available ?w = wz_available w" "wz_step ?w = wz_step w"
    "wz_check_token ?w = wz_check_token w" "wz_timer ?w = False" "url_valid ?w = url_valid w"
    by (simp_all add: check_availability_def lookup_failed_def url_valid_def)
  have c: "check_at j ?w = Some (t, s) \<Longrightarrow> check_at j w = Some (t, s) \<or> t = wz_check_token w \<and> s = wz_slug w" for j t s
    by (auto simp: check_availability_def lookup_failed_def check_at_def nth_append split: if_splits)
  have "slug_matches (wz_slug w)" using assms(2,3) by (simp add: lookups_def)
  then have "lookups ?w" using assms(2) c unfolding lookups_def f by (metis order_refl)
  moreover have "gates ?w out" using assms(1) unfolding gates_def f .
  ultimately show ?thesis by blast
qed

lemma answer_gates:
  assumes "gates w out" "lookups w" "owner_read i owner w = (w', es)"
  shows "gates w' (out @ es) \<and> lookups w'"
proof (cases "check_at i w")
  case None
  then show ?thesis using assms by (simp add: owner_read_def)
next
  case (Some c)
  obtain t s where c: "check_at i w = Some (t, s)" using Some by (cases c) auto
  have f: "wz_timer w' = wz_timer w" "wz_slug w' = wz_slug w" "wz_check_token w' = wz_check_token w"
    "check_at j w' = (if j = i then None else check_at j w)" for j
    using assms(3) c by (auto simp: owner_read_def Let_def check_at_update split: if_splits)
  have l: "lookups w'"
    using assms(2) unfolding lookups_def f by (metis option.distinct(1))
  show ?thesis
  proof (cases "t = wz_check_token w")
    case True
    then have "s = wz_slug w" "slug_matches s" using assms(2) c unfolding lookups_def by blast+
    then show ?thesis using assms(1,3) c True l
      by (auto simp: owner_read_def Let_def gates_def found_free_def url_valid_def)
  next
    case False
    then show ?thesis using assms(1,3) c l
      by (auto simp: owner_read_def Let_def gates_def found_free_def url_valid_def)
  qed
qed

lemma backward_gates:
  assumes "gates w out" "lookups w" "wizard_offers w v" "backward w v" "wizard_step nh v w = (w', es)"
  shows "gates w' (out @ es) \<and> lookups w'"
proof -
  note st = steady [OF assms(1,2)]
  show ?thesis
  proof (cases v)
    case Clear_Wizard
    have f: "wz_timer w' = False" "wz_available w' = False" "wz_step w' = 1" "wz_check_token w' = Suc (wz_check_token w)" "es = []"
      "check_at i w' = check_at i w" for i
      using assms(5) Clear_Wizard by (auto simp: clear_wizard_def new_wizard_def check_at_def)
    have "lookups w'" using assms(2) unfolding lookups_def f by (metis Suc_n_not_le_n le_SucI)
    then show ?thesis by (simp add: gates_def f)
  next
    case (Go_Step n)
    then have f: "wz_step w' = n" "wz_slug w' = wz_slug w" "wz_sla w' = wz_sla w" "wz_available w' = wz_available w" "url_valid w' = url_valid w"
      using assms(5) by (auto simp: go_step_def url_valid_def)
    have "lookups w'" using assms(5) Go_Step by (intro same_lookups [OF assms(2)]) (auto simp: go_step_def)
    moreover have "gates w' (out @ es)"
      using assms(1,3) Go_Step unfolding gates_def f by (auto intro: found_free_append)
    ultimately show ?thesis by blast
  next
    case (Restore_Step n)
    then have f: "wz_step w' \<le> max (wz_step w) 1" "wz_slug w' = wz_slug w" "wz_sla w' = wz_sla w" "wz_available w' = wz_available w"
      "url_valid w' = url_valid w" "es = []"
      using assms(4,5) by (auto simp: restore_step_def url_valid_def split: if_splits)
    have "lookups w'" using assms(5) Restore_Step by (intro same_lookups [OF assms(2)]) (auto simp: restore_step_def split: if_splits)
    moreover have "gates w' (out @ es)" using assms(1) f(1) unfolding gates_def f(2-6) by auto
    ultimately show ?thesis by blast
  next
    case (Edit_Slug x)
    then show ?thesis using edit_gates [OF assms(1,2)] assms(3,5) by auto
  next
    case Debounce_Elapsed
    then have "w' = (if wz_timer w then check_availability (w\<lparr>wz_timer := False\<rparr>) else w)" "es = []" using assms(5) by simp_all
    then show ?thesis using assms(1,2) check_gates by simp
  next
    case (Owner_Read i owner)
    then show ?thesis using answer_gates [OF assms(1,2)] assms(5) by simp
  next
    case (Lookup_Failed i err)
    then have f: "wz_slug w' = wz_slug w" "wz_timer w' = wz_timer w" "wz_check_token w' = wz_check_token w" "wz_sla w' = wz_sla w"
      "wz_available w' = wz_available w" "wz_step w' = wz_step w" "url_valid w' = url_valid w" "es = []"
      "check_at j w' = (if j = i then None else check_at j w)" for j
      using assms(5) by (auto simp: lookup_answer_failed_def lookup_failed_def Let_def check_at_def url_valid_def
        split: option.splits if_splits)
    have "lookups w'" using assms(2) unfolding lookups_def f by (metis option.distinct(1))
    then show ?thesis using assms(1) unfolding gates_def f append_Nil2 by blast
  next
    case (Edit_Url x)
    then have "lookups w'" using assms(5) by (intro same_lookups [OF assms(2)]) auto
    then show ?thesis using Edit_Url assms(1,3,5) by (auto simp: gates_def)
  next
    case (Edit_Sla x)
    then have "lookups w'" using assms(5) by (intro same_lookups [OF assms(2)]) auto
    then show ?thesis using Edit_Sla assms(1,3,5) by (auto simp: gates_def url_valid_def)
  next
    case (Press_Sign i)
    then have "es = []" "w' = run_step nh i w" using assms(5) by simp_all
    then show ?thesis by (intro st) (auto simp: run_step_def Let_def split: option.splits if_splits)
  next
    case (Chain_Ready i)
    then show ?thesis using assms(5) by (intro st) (auto simp: chain_ready_def set_phase_def split: if_splits)
  next
    case (Chain_Failed i err)
    then show ?thesis using assms(5) by (intro st) (auto simp: run_failed_def set_phase_def split: if_splits)
  next
    case (Signed i)
    then show ?thesis using assms(5) by (intro st) (auto simp: wallet_signed_def set_phase_def Let_def split: if_splits)
  next
    case (Refused i err)
    then show ?thesis using assms(5) by (intro st) (auto simp: run_failed_def set_phase_def split: if_splits)
  next
    case (Mount d)
    then show ?thesis using assms(5) by (intro st) auto
  next
    case Mount_Without_Registrar
    then show ?thesis using assms(5) by (intro st) auto
  next
    case Unmount
    then show ?thesis using assms(5) by (intro st) auto
  next
    case Step_Back
    then show ?thesis using assms(5) by (intro st) auto
  qed
qed

lemma session_gates: "wizard_session nh backward w out \<Longrightarrow> gates w out \<and> lookups w"
proof (induction rule: wizard_session.induct)
  case opened
  then show ?case by (simp add: gates_def lookups_def new_wizard_def check_at_def)
next
  case (acted w out v)
  then show ?case using backward_gates by (metis prod.collapse)
qed

section \<open>A registration\<close>

definition example_wizard_deps :: wizard_deps where
  "example_wizard_deps = \<lparr>wd_account = js ''0xa1'', wd_registrar = js ''0xb2'', wd_registry = js ''0xc3'', wd_deposit = 5\<rparr>"

definition tidy_draft :: "wizard_event list" where
  "tidy_draft = [Mount example_wizard_deps, Edit_Slug (js ''weather''), Debounce_Elapsed, Owner_Read 0 None, Go_Step 2,
     Edit_Url (js ''https://api.example''), Go_Step 3, Edit_Sla tiny_text, Go_Step 4]"

text \<open>A step signed at the first attempt, as the run numbered \<open>k\<close>.\<close>

definition signs :: "nat \<Rightarrow> nat \<Rightarrow> wizard_event list" where
  "signs i k = [Press_Sign i, Chain_Ready k, Signed k]"

definition signing_all :: "wizard_event list" where
  "signing_all = [Press_Sign 0, Chain_Ready 0, Refused 0 null_error] @ signs 0 1 @ signs 1 2 @ signs 2 3 @ signs 3 4"

definition reviewed :: wizard where
  "reviewed = new_wizard\<lparr>wz_deps := Some example_wizard_deps, wz_step := 4, wz_slug := js ''weather'', wz_availability := js ''Available.'',
     wz_available := True, wz_url := js ''https://api.example'', wz_sla := tiny_text, wz_check_token := 1, wz_checks := [None]\<rparr>"

lemma weather_facts:
  "trim (js ''weather'') = js ''weather''" "slug_matches (js ''weather'')" "trim (js ''https://api.example'') = js ''https://api.example''"
  "take 8 (js ''https://api.example'') = js ''https://''" "fst (describe_sla_validity tiny_text)"
proof -
  show "trim (js ''weather'') = js ''weather''" "trim (js ''https://api.example'') = js ''https://api.example''"
    "take 8 (js ''https://api.example'') = js ''https://''" by code_simp+
  show "slug_matches (js ''weather'')" by code_simp
  show "fst (describe_sla_validity tiny_text)" using tiny_parses by (simp add: validity_parses trim_tiny_text) (simp add: tiny_text_def)
qed

lemmas wizard_run_simps = new_wizard_def shown_def at_review_def url_valid_def edit_slug_def owner_read_def
  check_availability_def check_at_def truthy_owner_def go_step_def restore_step_def run_step_def chain_ready_def wallet_signed_def
  run_failed_def set_phase_def phase_at_def STEP_COUNT_def build_execution_steps_def Let_def weather_facts


lemma tidy_draft_runs:
  "wizard_run nh tidy_draft new_wizard = (reviewed, [Owner_Answer (js ''weather'') None, Push_Step 2, Push_Step 3, Push_Step 4])"
  by (simp add: tidy_draft_def reviewed_def example_wizard_deps_def wizard_run_simps)

lemma tidy_draft_offered: "all_offered nh attended tidy_draft new_wizard" "all_offered nh backward tidy_draft new_wizard"
  by (simp_all add: tidy_draft_def example_wizard_deps_def wizard_run_simps)

lemma reviewed_session:
  "wizard_session nh attended reviewed [Owner_Answer (js ''weather'') None, Push_Step 2, Push_Step 3, Push_Step 4]"
  "wizard_session nh backward reviewed [Owner_Answer (js ''weather'') None, Push_Step 2, Push_Step 3, Push_Step 4]"
  using run_is_session [OF wizard_session.opened tidy_draft_offered(1)] run_is_session [OF wizard_session.opened tidy_draft_offered(2)]
  by (simp_all add: tidy_draft_runs)

lemma wizard_run_append:
  "wizard_run nh (a @ b) w = (let r = wizard_run nh a w; s = wizard_run nh b (fst r) in (fst s, snd r @ snd s))"
  by (induction a arbitrary: w) (simp_all add: Let_def)

lemma all_offered_append:
  "all_offered nh allowed (a @ b) w \<longleftrightarrow> all_offered nh allowed a w \<and> all_offered nh allowed b (fst (wizard_run nh a w))"
  by (induction a arbitrary: w) (simp_all add: Let_def)

definition after_signing :: "(jstring \<Rightarrow> jstring) \<Rightarrow> nat \<Rightarrow> wizard \<Rightarrow> wizard" where
  "after_signing nh i w = w\<lparr>wz_done := Suc i, wz_pending := False, wz_exec_error := [], wz_runs := wz_runs w @
     [\<lparr>sg_index = i, sg_call = es_call (build_execution_steps nh (the (wz_deps w)) (wz_slug w) (wz_url w) (wz_sla w) ! i),
       sg_phase = Over\<rparr>]\<rparr>"

definition ready_to_sign :: "wizard \<Rightarrow> nat \<Rightarrow> bool" where
  "ready_to_sign w i \<longleftrightarrow> wz_deps w \<noteq> None \<and> wz_message w = [] \<and> wz_step w = 4 \<and> wz_done w = i \<and> i < STEP_COUNT \<and> \<not> wz_pending w"

lemma signs_runs:
  assumes "ready_to_sign w i" "k = length (wz_runs w)"
  shows "fst (wizard_run nh (signs i k) w) = after_signing nh i w"
    "written (snd (wizard_run nh (signs i k) w)) =
       [es_call (build_execution_steps nh (the (wz_deps w)) (wz_slug w) (wz_url w) (wz_sla w) ! i)]"
    "all_offered nh attended (signs i k) w"
proof -
  obtain d where d: "wz_deps w = Some d" using assms(1) by (auto simp: ready_to_sign_def)
  define c where "c = es_call (build_execution_steps nh d (wz_slug w) (wz_url w) (wz_sla w) ! i)"
  define w1 where "w1 = w\<lparr>wz_pending := True, wz_exec_error := [],
      wz_runs := wz_runs w @ [\<lparr>sg_index = i, sg_call = c, sg_phase = At_Network\<rparr>]\<rparr>"
  define w2 where "w2 = w\<lparr>wz_pending := True, wz_exec_error := [],
      wz_runs := wz_runs w @ [\<lparr>sg_index = i, sg_call = c, sg_phase = At_Wallet\<rparr>]\<rparr>"
  have s1: "wizard_step nh (Press_Sign i) w = (w1, [])"
    using assms(1) d by (simp add: ready_to_sign_def run_step_def w1_def c_def STEP_COUNT_def build_execution_steps_def)
  have s2: "wizard_step nh (Chain_Ready k) w1 = (w2, [Ask_Wallet i c])"
    by (simp add: chain_ready_def phase_at_def set_phase_def w1_def w2_def assms(2))
  have s3: "wizard_step nh (Signed k) w2 =
      (after_signing nh i w, Written i c # (if Suc i = STEP_COUNT then [On_Done] else []))"
    by (simp add: wallet_signed_def phase_at_def set_phase_def w2_def after_signing_def c_def d Let_def assms(2))
  show "fst (wizard_run nh (signs i k) w) = after_signing nh i w"
    "written (snd (wizard_run nh (signs i k) w)) =
       [es_call (build_execution_steps nh (the (wz_deps w)) (wz_slug w) (wz_url w) (wz_sla w) ! i)]"
    by (simp_all add: signs_def s1 s2 s3 Let_def c_def d del: wizard_step.simps)
  show "all_offered nh attended (signs i k) w"
    using assms(1) by (simp add: signs_def s1 s2 s3 ready_to_sign_def shown_def at_review_def del: wizard_step.simps)
qed

lemma ready_after_signing:
  "ready_to_sign w i \<Longrightarrow> Suc i < STEP_COUNT \<Longrightarrow> ready_to_sign (after_signing nh i w) (Suc i)"
  "length (wz_runs (after_signing nh i w)) = Suc (length (wz_runs w))"
  by (simp_all add: ready_to_sign_def after_signing_def)

definition refused_once :: "(jstring \<Rightarrow> jstring) \<Rightarrow> wizard" where
  "refused_once nh = fst (wizard_run nh [Press_Sign 0, Chain_Ready 0, Refused 0 null_error] reviewed)"

lemma refused_once_facts:
  "ready_to_sign (refused_once nh) 0" "length (wz_runs (refused_once nh)) = 1" "wz_slug (refused_once nh) = js ''weather''"
  "wz_deps (refused_once nh) = Some example_wizard_deps" "wz_url (refused_once nh) = js ''https://api.example''" "wz_sla (refused_once nh) = tiny_text"
  "written (snd (wizard_run nh [Press_Sign 0, Chain_Ready 0, Refused 0 null_error] reviewed)) = []"
  "all_offered nh attended [Press_Sign 0, Chain_Ready 0, Refused 0 null_error] reviewed"
  by (simp_all add: refused_once_def reviewed_def ready_to_sign_def wizard_run_simps)

lemma signing_runs:
  "written (snd (wizard_run nh signing_all reviewed)) =
     map es_call (build_execution_steps nh example_wizard_deps (js ''weather'') (js ''https://api.example'') tiny_text)"
  "wz_done (fst (wizard_run nh signing_all reviewed)) = 4" "all_offered nh attended signing_all reviewed"
proof -
  let ?w1 = "after_signing nh 0 (refused_once nh)"
  let ?w2 = "after_signing nh 1 ?w1"
  let ?w3 = "after_signing nh 2 ?w2"
  have r1: "ready_to_sign ?w1 1" using ready_after_signing(1) [OF refused_once_facts(1)] by (simp add: STEP_COUNT_def)
  have r2: "ready_to_sign ?w2 2" using ready_after_signing(1) [OF r1] by (simp add: STEP_COUNT_def numeral_2_eq_2)
  have r3: "ready_to_sign ?w3 3" using ready_after_signing(1) [OF r2] by (simp add: STEP_COUNT_def numeral_3_eq_3 numeral_2_eq_2)
  have l: "length (wz_runs ?w1) = 2" "length (wz_runs ?w2) = 3" "length (wz_runs ?w3) = 4"
    by (simp_all add: ready_after_signing(2) refused_once_facts(2))
  note s = signs_runs [OF refused_once_facts(1) refused_once_facts(2) [symmetric]] signs_runs [OF r1 l(1) [symmetric]]
    signs_runs [OF r2 l(2) [symmetric]] signs_runs [OF r3 l(3) [symmetric]]
  note f = refused_once_facts(3-8) refused_once_def [symmetric]
  note rules = signing_all_def wizard_run_append all_offered_append Let_def
  show "written (snd (wizard_run nh signing_all reviewed)) =
     map es_call (build_execution_steps nh example_wizard_deps (js ''weather'') (js ''https://api.example'') tiny_text)"
    unfolding rules fst_conv snd_conv written_append f s
    by (simp add: after_signing_def f) (simp add: build_execution_steps_def numeral_2_eq_2 numeral_3_eq_3)
  show "wz_done (fst (wizard_run nh signing_all reviewed)) = 4"
    unfolding rules fst_conv snd_conv f s by (simp add: after_signing_def)
  show "all_offered nh attended signing_all reviewed"
    unfolding rules fst_conv snd_conv f s(1,4,7,10) using refused_once_facts(8) s(3,6,9,12) by blast
qed

text \<open>
  Back stays enabled while the claim is being signed: the steps of the review read the slug again for each transaction, so
  the claimed name and the registered one differ.
\<close>

definition back_while_signing :: "wizard_event list" where
  "back_while_signing = [Press_Sign 0, Chain_Ready 0, Step_Back, Restore_Step 1] @
     [Edit_Slug (js ''sunny''), Signed 0, Debounce_Elapsed] @ [Owner_Read 1 None, Go_Step 2, Go_Step 3, Go_Step 4]"

lemma sunny_facts: "trim (js ''sunny'') = js ''sunny''" "slug_matches (js ''sunny'')"
  by code_simp+

definition split_wizard :: wizard where
  "split_wizard = reviewed\<lparr>wz_slug := js ''sunny'', wz_check_token := 2, wz_checks := [None, None], wz_done := 1,
     wz_runs := [\<lparr>sg_index = 0, sg_call = Claim_Call (js ''0xb2'') (js ''weather'') (js ''0xa1''), sg_phase = Over\<rparr>]\<rparr>"

definition stepped_back :: wizard where
  "stepped_back = reviewed\<lparr>wz_step := 1, wz_pending := True,
     wz_runs := [\<lparr>sg_index = 0, sg_call = Claim_Call (js ''0xb2'') (js ''weather'') (js ''0xa1''), sg_phase = At_Wallet\<rparr>]\<rparr>"

definition renamed :: wizard where
  "renamed = split_wizard\<lparr>wz_step := 1, wz_available := False, wz_availability := js ''Checking'' @ [8230],
     wz_checks := [None, Some (2, js ''sunny'')]\<rparr>"

lemma stepped_back_runs:
  "wizard_run nh [Press_Sign 0, Chain_Ready 0, Step_Back, Restore_Step 1] reviewed =
     (stepped_back, [Ask_Wallet 0 (Claim_Call (js ''0xb2'') (js ''weather'') (js ''0xa1'')), Back_Step])"
  "all_offered nh (\<lambda>_ _. True) [Press_Sign 0, Chain_Ready 0, Step_Back, Restore_Step 1] reviewed"
  by (simp_all add: stepped_back_def reviewed_def example_wizard_deps_def wizard_run_simps claim_subname_def)

lemma renamed_runs:
  "wizard_run nh [Edit_Slug (js ''sunny''), Signed 0, Debounce_Elapsed] stepped_back =
     (renamed, [Written 0 (Claim_Call (js ''0xb2'') (js ''weather'') (js ''0xa1''))])"
  "all_offered nh (\<lambda>_ _. True) [Edit_Slug (js ''sunny''), Signed 0, Debounce_Elapsed] stepped_back"
  by (simp_all add: stepped_back_def renamed_def split_wizard_def reviewed_def example_wizard_deps_def wizard_run_simps sunny_facts)

lemma split_wizard_runs:
  "wizard_run nh [Owner_Read 1 None, Go_Step 2, Go_Step 3, Go_Step 4] renamed =
     (split_wizard, [Owner_Answer (js ''sunny'') None, Push_Step 2, Push_Step 3, Push_Step 4])"
  "all_offered nh (\<lambda>_ _. True) [Owner_Read 1 None, Go_Step 2, Go_Step 3, Go_Step 4] renamed"
  by (simp_all add: renamed_def split_wizard_def reviewed_def example_wizard_deps_def wizard_run_simps)

lemma back_while_signing_runs:
  "fst (wizard_run nh back_while_signing reviewed) = split_wizard"
  "written (snd (wizard_run nh back_while_signing reviewed)) = [Claim_Call (js ''0xb2'') (js ''weather'') (js ''0xa1'')]"
  "all_offered nh (\<lambda>_ _. True) back_while_signing reviewed"
  unfolding back_while_signing_def wizard_run_append all_offered_append Let_def fst_conv snd_conv
    stepped_back_runs(1) renamed_runs(1) split_wizard_runs(1)
  using stepped_back_runs(2) renamed_runs(2) split_wizard_runs(2) by simp_all

lemma back_while_signing_splits_the_names:
  "all_offered nh (\<lambda>_ _. True) back_while_signing reviewed"
  "written (snd (wizard_run nh (back_while_signing @ signs 1 1) reviewed)) =
     [Claim_Call (js ''0xb2'') (js ''weather'') (js ''0xa1''), Register_Call (js ''0xc3'') (js ''sunny'') 5]"
proof -
  have "ready_to_sign split_wizard 1" "(1 :: nat) = length (wz_runs split_wizard)"
    by (simp_all add: ready_to_sign_def split_wizard_def reviewed_def new_wizard_def example_wizard_deps_def STEP_COUNT_def)
  note r = signs_runs(2) [OF this, of nh]
  show "written (snd (wizard_run nh (back_while_signing @ signs 1 1) reviewed)) =
     [Claim_Call (js ''0xb2'') (js ''weather'') (js ''0xa1''), Register_Call (js ''0xc3'') (js ''sunny'') 5]"
    unfolding wizard_run_append Let_def fst_conv snd_conv written_append back_while_signing_runs r
    by (simp add: split_wizard_def reviewed_def example_wizard_deps_def build_execution_steps_def register_service_def)
qed (rule back_while_signing_runs(3))

text \<open>An account change clears the element, and the signature it was waiting for marks the next one's first step as written.\<close>

lemma clear_while_signing_skips_the_claim:
  "wz_done (fst (wizard_run nh [Press_Sign 0, Chain_Ready 0, Clear_Wizard, Signed 0] reviewed)) = 1 \<and>
   wz_slug (fst (wizard_run nh [Press_Sign 0, Chain_Ready 0, Clear_Wizard, Signed 0] reviewed)) = []"
  by (simp add: reviewed_def clear_wizard_def wizard_run_simps)

text \<open>The browser's Forward passes the gates of the Next buttons.\<close>

lemma forward_passes_the_gates:
  "all_offered nh (\<lambda>_ _. True) [Step_Back, Restore_Step 1, Edit_Slug (js ''No!''), Restore_Step 4] reviewed \<and>
   wizard_offers (fst (wizard_run nh [Step_Back, Restore_Step 1, Edit_Slug (js ''No!''), Restore_Step 4] reviewed)) (Press_Sign 0) \<and>
   \<not> slug_matches (wz_slug (fst (wizard_run nh [Step_Back, Restore_Step 1, Edit_Slug (js ''No!''), Restore_Step 4] reviewed)))"
proof -
  have "trim (js ''No!'') = js ''No!''" "\<not> slug_matches (js ''No!'')" by code_simp+
  then show ?thesis by (simp add: reviewed_def wizard_run_simps)
qed

section \<open>Properties\<close>



text \<open>
  C14: What the review shows was checked: as long as the browser's history only walks back, and whatever else happens in
  whatever order, late answers of a lookup included, a wizard at its last step holds a slug that is valid and that a lookup
  of this very slug found without an owner, a url of http or https, and an SLA that \<open>parseSla\<close> accepts.
\<close>

theorem review_was_checked:
  assumes "wizard_session nh backward w out" "4 \<le> wz_step w"
  shows "slug_matches (wz_slug w) \<and> (\<exists>owner. \<not> truthy_owner owner \<and> Owner_Answer (wz_slug w) owner \<in> set out) \<and>
     url_valid w \<and> trim (wz_sla w) \<noteq> [] \<and> is_ok (parse_sla (trim (wz_sla w)))"
  using session_gates [OF assms(1)] assms(2) by (simp add: gates_def found_free_def validity_parses)

theorem review_was_checked_witness:
  "slug_matches (wz_slug reviewed) \<and> is_ok (parse_sla (trim (wz_sla reviewed)))"
  using review_was_checked [OF reviewed_session(2) [of id]] by (simp add: reviewed_def)

end
