(* ===== verification/JS_Round.thy ===== *)
theory JS_Round imports JS_Exact begin

text \<open>
  Rounding to a double is monotone, so a comparison that holds of exact values holds of the rounded ones, not strictly.
\<close>

section \<open>The exponent\<close>

lemma ilog2_spec: "0 < n \<Longrightarrow> 2 ^ ilog2 n \<le> n \<and> n < 2 ^ Suc (ilog2 n)"
proof (induction n rule: ilog2.induct)
  case (1 n)
  show ?case
  proof (cases "n < 2")
    case True
    then show ?thesis using 1(2) by (simp add: ilog2.simps [of n])
  next
    case False
    then have h: "2 ^ ilog2 (n div 2) \<le> n div 2" "n div 2 < 2 * 2 ^ ilog2 (n div 2)" using 1(1) [OF False] by auto
    have "2 * 2 ^ ilog2 (n div 2) \<le> n" "n < 4 * 2 ^ ilog2 (n div 2)" using h by linarith+
    then show ?thesis using False by (simp add: ilog2.simps [of n])
  qed
qed

lemma pow_rat_powi: "pow_rat 2 e = 2 powi e"
  by (simp add: pow_rat_def power_int_def power_inverse [symmetric] inverse_eq_divide power_one_over)

lemma binary_exponent_spec:
  assumes "0 < a"
  shows "2 powi binary_exponent a \<le> a \<and> a < 2 powi (binary_exponent a + 1)"
proof (cases "1 \<le> a")
  case True
  define n where "n = nat \<lfloor>a\<rfloor>"
  define k where "k = ilog2 n"
  have n: "0 < n" "of_nat n \<le> a" "a < of_nat n + 1" using True unfolding n_def by linarith+
  have k: "2 ^ k \<le> n" "n + 1 \<le> 2 ^ Suc k" using ilog2_spec [OF n(1)] unfolding k_def by auto
  have "of_nat (2 ^ k) \<le> (of_nat n :: rat)" using k(1) by (simp only: of_nat_le_iff)
  then have "(2 :: rat) powi int k \<le> a" using n(2) by (metis of_nat_numeral of_nat_power order_trans power_int_of_nat)
  moreover have "a < 2 powi (int k + 1)"
  proof -
    have "of_nat n + 1 \<le> (2 :: rat) ^ Suc k" using of_nat_mono [OF k(2), where 'a = rat] by simp
    then show ?thesis using n(3) by (simp add: power_int_add)
  qed
  moreover have "binary_exponent a = int k" using True by (simp add: binary_exponent_def k_def n_def)
  ultimately show ?thesis by simp
next
  case False
  define m where "m = nat \<lceil>inverse a\<rceil>"
  have gt: "1 < inverse a" using False assms by (simp add: one_less_inverse)
  have m: "2 \<le> m" "inverse a \<le> of_nat m" "of_nat (m - 1) < inverse a" using gt unfolding m_def by linarith+
  define k where "k = ilog2 (m - 1)"
  have k: "2 ^ k \<le> m - 1" "m \<le> 2 ^ Suc k" using ilog2_spec [of "m - 1"] m(1) unfolding k_def by auto
  have e: "binary_exponent a = - int (Suc k)" using False m(1) by (simp add: binary_exponent_def m_def k_def Let_def)
  have hi: "inverse a \<le> 2 ^ Suc k" using m(2) of_nat_mono [OF k(2), where 'a = rat] by simp
  have "of_nat (2 ^ k) \<le> (of_nat (m - 1) :: rat)" using k(1) by (simp only: of_nat_le_iff)
  then have lo: "2 ^ k < inverse a" using m(3) by (metis of_nat_numeral of_nat_power order_le_less_trans)
  have "inverse (2 ^ Suc k) \<le> a" using hi assms by (metis inverse_inverse_eq inverse_positive_iff_positive le_imp_inverse_le)
  moreover have "a < inverse (2 ^ k)"
    using lo assms by (metis inverse_inverse_eq less_imp_inverse_less zero_less_numeral zero_less_power)
  moreover have p1: "(2 :: rat) powi (- int (Suc k)) = inverse (2 ^ Suc k)" by (simp only: power_int_minus power_int_of_nat)
  moreover have p2: "(2 :: rat) powi (- int (Suc k) + 1) = inverse (2 ^ k)"
  proof -
    have e: "- int (Suc k) + 1 = - int k" by simp
    show ?thesis unfolding e by (simp add: power_int_minus)
  qed
  ultimately show ?thesis unfolding e p1 p2 by blast
qed

lemma powi_less_cancel: "(2 :: rat) powi m < 2 powi n \<Longrightarrow> m < n"
  by (metis linorder_not_less one_le_numeral power_int_increasing)

lemma binary_exponent_mono:
  assumes "0 < p" "p \<le> q"
  shows "binary_exponent p \<le> binary_exponent q"
proof -
  have "(2 :: rat) powi binary_exponent p < 2 powi (binary_exponent q + 1)"
    using binary_exponent_spec [of p] binary_exponent_spec [of q] assms by linarith
  then show ?thesis using powi_less_cancel by fastforce
qed

section \<open>The magnitude\<close>

lemma round_half_even_near: "\<lfloor>x\<rfloor> \<le> round_half_even x \<and> round_half_even x \<le> \<lfloor>x\<rfloor> + 1"
  by (simp add: round_half_even_def Let_def)

lemma round_half_even_mono:
  assumes "x \<le> y"
  shows "round_half_even x \<le> round_half_even y"
proof (cases "\<lfloor>x\<rfloor> = \<lfloor>y\<rfloor>")
  case True
  then show ?thesis using assms by (simp add: round_half_even_def Let_def)
next
  case False
  then have "\<lfloor>x\<rfloor> + 1 \<le> \<lfloor>y\<rfloor>" using floor_mono [OF assms] by simp
  then show ?thesis using round_half_even_near [of x] round_half_even_near [of y] by linarith
qed

definition ulp_exponent :: "rat \<Rightarrow> int" where
  "ulp_exponent a = max (binary_exponent a) (- 1022)"

definition magnitude :: "rat \<Rightarrow> rat" where
  "magnitude a = of_int (round_half_even (a / 2 powi (ulp_exponent a - 52))) * 2 powi (ulp_exponent a - 52)"

lemma powi_52: "(2 :: rat) powi e = of_int (2 ^ 52) * 2 powi (e - 52)" "(2 :: rat) powi (e + 1) = of_int (2 ^ 53) * 2 powi (e - 52)"
proof -
  have "(2 :: rat) powi (52 + (e - 52)) = 2 powi 52 * 2 powi (e - 52)" by (rule power_int_add) simp
  then show "(2 :: rat) powi e = of_int (2 ^ 52) * 2 powi (e - 52)" by simp
  have "(2 :: rat) powi (53 + (e - 52)) = 2 powi 53 * 2 powi (e - 52)" by (rule power_int_add) simp
  then show "(2 :: rat) powi (e + 1) = of_int (2 ^ 53) * 2 powi (e - 52)" by (simp add: algebra_simps)
qed

lemma magnitude_bounds:
  assumes "0 < a"
  shows "magnitude a \<le> 2 powi (ulp_exponent a + 1)" "binary_exponent a = ulp_exponent a \<Longrightarrow> 2 powi ulp_exponent a \<le> magnitude a"
    "0 \<le> magnitude a" "round_half_even (a / 2 powi (ulp_exponent a - 52)) \<le> 2 ^ 53"
proof -
  let ?u = "(2 :: rat) powi (ulp_exponent a - 52)"
  have u: "0 < ?u" by simp
  have "a < 2 powi (binary_exponent a + 1)" using binary_exponent_spec [OF assms] by simp
  also have "\<dots> \<le> 2 powi (ulp_exponent a + 1)" by (intro power_int_increasing) (auto simp: ulp_exponent_def)
  finally have hi: "a / ?u \<le> of_int (2 ^ 53)" using u unfolding powi_52(2) by (simp add: divide_le_eq)
  have m: "round_half_even (a / ?u) \<le> 2 ^ 53" using round_half_even_mono [OF hi] unfolding round_half_even_int .
  then show "round_half_even (a / ?u) \<le> 2 ^ 53" .
  have "(of_int (round_half_even (a / ?u)) :: rat) \<le> of_int (2 ^ 53)" using m by (simp only: of_int_le_iff)
  then show "magnitude a \<le> 2 powi (ulp_exponent a + 1)"
    unfolding powi_52(2) magnitude_def using u by (intro mult_right_mono) simp_all
  show "2 powi ulp_exponent a \<le> magnitude a" if "binary_exponent a = ulp_exponent a"
  proof -
    have "of_int (2 ^ 52) \<le> a / ?u"
      using binary_exponent_spec [OF assms] u unfolding that powi_52(1) [of "ulp_exponent a"] by (simp add: le_divide_eq)
    then have "2 ^ 52 \<le> round_half_even (a / ?u)" using round_half_even_mono round_half_even_int by metis
    then have "(of_int (2 ^ 52) :: rat) \<le> of_int (round_half_even (a / ?u))" by (simp only: of_int_le_iff)
    then show ?thesis unfolding magnitude_def powi_52(1) [of "ulp_exponent a"] using u by (intro mult_right_mono) simp_all
  qed
  have "0 \<le> a / ?u" using assms u by simp
  then have "0 \<le> round_half_even (a / ?u)" using round_half_even_near [of "a / ?u"] by (meson dual_order.trans zero_le_floor)
  then show "0 \<le> magnitude a" using u by (simp add: magnitude_def)
qed

lemma magnitude_mono:
  assumes "0 < p" "p \<le> q"
  shows "magnitude p \<le> magnitude q"
proof (cases "ulp_exponent p = ulp_exponent q")
  case True
  then show ?thesis unfolding magnitude_def True
    using assms by (intro mult_right_mono) (simp_all add: round_half_even_mono divide_right_mono)
next
  case False
  have q: "0 < q" using assms by simp
  have lt: "ulp_exponent p + 1 \<le> ulp_exponent q" "binary_exponent q = ulp_exponent q"
    using binary_exponent_mono [OF assms] False unfolding ulp_exponent_def by linarith+
  have "magnitude p \<le> 2 powi (ulp_exponent p + 1)" by (rule magnitude_bounds(1) [OF assms(1)])
  also have "\<dots> \<le> 2 powi ulp_exponent q" using lt(1) by (intro power_int_increasing) auto
  also have "\<dots> \<le> magnitude q" by (rule magnitude_bounds(2) [OF q lt(2)])
  finally show ?thesis .
qed

definition TWO_1024 :: rat where "TWO_1024 = 2 powi 1024"

lemma overflow_iff:
  assumes "0 < a"
  shows "1023 < binary_exponent a \<or> binary_exponent a = 1023 \<and> round_half_even (a / 2 powi (ulp_exponent a - 52)) = 2 ^ 53 \<longleftrightarrow>
     TWO_1024 \<le> magnitude a"
proof (cases "binary_exponent a" "1023 :: int" rule: linorder_cases)
  case less
  have "magnitude a \<le> 2 powi (ulp_exponent a + 1)" by (rule magnitude_bounds(1) [OF assms])
  also have "\<dots> < TWO_1024" unfolding TWO_1024_def using less by (intro power_int_strict_increasing) (auto simp: ulp_exponent_def)
  finally show ?thesis using less by simp
next
  case equal
  have u: "ulp_exponent a = 1023" using equal by (simp add: ulp_exponent_def)
  have t: "TWO_1024 = of_int (2 ^ 53) * 2 powi (ulp_exponent a - 52)"
    unfolding TWO_1024_def u using powi_52(2) [of 1023] by simp
  have "TWO_1024 \<le> magnitude a \<longleftrightarrow> 2 ^ 53 \<le> round_half_even (a / 2 powi (ulp_exponent a - 52))"
    unfolding t magnitude_def by (subst mult_le_cancel_right_pos) (simp, simp only: of_int_le_iff)
  then show ?thesis using equal magnitude_bounds(4) [OF assms] by auto
next
  case greater
  have u: "binary_exponent a = ulp_exponent a" using greater by (simp add: ulp_exponent_def)
  have "TWO_1024 \<le> 2 powi ulp_exponent a" unfolding TWO_1024_def using greater u by (intro power_int_increasing) auto
  then show ?thesis using greater magnitude_bounds(2) [OF assms u] by simp
qed

section \<open>Rounding\<close>

lemma to_f64_magnitude:
  "to_f64 q =
     (if q = 0 then Fin 0
      else if TWO_1024 \<le> magnitude \<bar>q\<bar> then (if q < 0 then NegInf else PosInf)
      else Fin ((if q < 0 then - 1 else 1) * magnitude \<bar>q\<bar>))"
proof (cases "q = 0")
  case False
  then have "0 < \<bar>q\<bar>" by simp
  from overflow_iff [OF this] False show ?thesis
    by (simp only: to_f64_def Let_def pow_rat_powi ulp_exponent_def [symmetric] magnitude_def [symmetric] if_False)
qed (simp add: to_f64_def)

text \<open>Neither is NaN: \<open>to_f64\<close> rounds to no other.\<close>

lemma to_f64_number: "to_f64 q \<noteq> NotNum"
  by (simp add: to_f64_magnitude)

theorem to_f64_mono: "p \<le> q \<Longrightarrow> \<not> num_less (to_f64 q) (to_f64 p)"
proof (cases "0 < p")
  case True
  assume "p \<le> q"
  then show ?thesis using True magnitude_mono [of p q] magnitude_bounds(3) [of p] by (auto simp: to_f64_magnitude)
next
  case False
  assume le: "p \<le> q"
  show ?thesis
  proof (cases "0 \<le> q")
    case True
    then show ?thesis using False magnitude_bounds(3) [of q] magnitude_bounds(3) [of "- p"]
      by (cases "p = 0"; cases "q = 0") (auto simp: to_f64_magnitude)
  next
    case neg: False
    then show ?thesis using le magnitude_mono [of "- q" "- p"] by (auto simp: to_f64_magnitude)
  qed
qed

end
