(* ===== verification/Score_Run.thy ===== *)
theory Score_Run imports Cre_Reputation Log_Scan Discovery JS_Round begin

text \<open>
  The hourly run, \<open>cre/workflows/aggregate/workflow.ts\<close>: the registry's logs read in chunks, dated from the head of the chain,
  scored by \<open>reputationForWindow\<close> and written one report per service. The CRE SDK and viem are the record \<open>score_chain\<close>;
  what they throw is \<open>Inl\<close>.
\<close>

section \<open>What the run reads and calls\<close>

record evm_log =
  lg_data :: jstring
  lg_topics :: "jstring list"
  lg_block :: "int option"

datatype registry_event = Service_Registered | Verdict_Written

record score_report =
  rr_slug :: jstring
  rr_conformance :: int
  rr_availability :: int

record score_config =
  cf_arc_name :: jstring
  cf_sepolia_name :: jstring
  cf_deploy_block :: jstring
  cf_block_time :: "json option"
  cf_log_chunk :: "json option"

text \<open>
  The head is the block number, where there is one, and the timestamp. A log decodes to the service id and slug, or to the service
  id and outcome. A report is signed, then written: success, and the hash where there is one.
\<close>

record score_chain =
  ch_arc :: bool
  ch_sepolia :: bool
  ch_head :: "(int option \<times> int) result"
  ch_filter :: "registry_event \<Rightarrow> block_range \<Rightarrow> evm_log list result"
  ch_registered :: "evm_log \<Rightarrow> (jstring \<times> jstring) result"
  ch_verdict :: "evm_log \<Rightarrow> (jstring \<times> int) result"
  ch_status :: "jstring \<Rightarrow> int result"
  ch_sign :: "score_report \<Rightarrow> unit result"
  ch_write :: "score_report \<Rightarrow> (bool \<times> jstring option) result"

section \<open>Time and blocks\<close>

text \<open>\<open>*\<close> by a positive number.\<close>

fun num_scale :: "jsnum \<Rightarrow> rat \<Rightarrow> jsnum" where
  "num_scale (Fin a) b = to_f64 (a * b)"
| "num_scale n b = n"

text \<open>\<open>BigInt(Math.ceil(WINDOW_SECONDS / blockTimeSeconds))\<close>\<close>

definition window_blocks :: "rat \<Rightarrow> int result" where
  "window_blocks block_time = (case to_f64 (WINDOW_SECONDS / block_time) of
     Fin q \<Rightarrow> Inr \<lceil>q\<rceil>
   | n \<Rightarrow> Inl (js ''The number '' @ num_str n @ js '' cannot be converted to a BigInt because it is not an integer''))"

definition window_start :: "int \<Rightarrow> int \<Rightarrow> int \<Rightarrow> int" where
  "window_start head deploy blocks = (if blocks + deploy < head then head - blocks else deploy)"

definition timestamp_of_block :: "int \<Rightarrow> jsnum \<Rightarrow> rat \<Rightarrow> int \<Rightarrow> jsnum" where
  "timestamp_of_block head head_time block_time block =
     num_minus head_time (num_scale (to_f64 (of_int (head - block))) block_time)"

section \<open>The logs\<close>

definition scan_logs :: "score_chain \<Rightarrow> int \<Rightarrow> registry_event \<Rightarrow> int \<Rightarrow> int \<Rightarrow> evm_log list result" where
  "scan_logs ch chunk ev from_b to_b = bind_r (block_range_chunks from_b to_b chunk) (\<lambda>chunks.
     bind_r (map_r (ch_filter ch ev) chunks) (\<lambda>pages. Inr (concat pages)))"

definition read_service :: "score_chain \<Rightarrow> evm_log \<Rightarrow> service_entry result" where
  "read_service ch l = bind_r (ch_registered ch l) (\<lambda>(service_id, slug).
     bind_r (ch_status ch service_id) (\<lambda>n. bind_r (status_from_ordinal (jsint n)) (\<lambda>status.
       Inr \<lparr>v_service_id = service_id, v_slug = slug, v_status = status\<rparr>)))"

definition read_verdict :: "score_chain \<Rightarrow> int \<Rightarrow> jsnum \<Rightarrow> rat \<Rightarrow> evm_log \<Rightarrow> (jstring \<times> outcome \<times> jsnum) result" where
  "read_verdict ch head head_time block_time l = bind_r (ch_verdict ch l) (\<lambda>(service_id, n).
     bind_r (outcome_from_ordinal (jsint n)) (\<lambda>r.
       Inr (service_id, r, timestamp_of_block head head_time block_time (case lg_block l of Some b \<Rightarrow> b | None \<Rightarrow> head))))"

text \<open>
  What \<open>reputationForWindow\<close> compares with its window: a verdict dated at an infinity lies outside of every one, and one dated at
  NaN, which only a head at an infinity gives, is never looked at.
\<close>

definition dated :: "(jstring \<times> outcome \<times> jsnum) list \<Rightarrow> verdict_entry list" where
  "dated vs = concat (map (\<lambda>(i, r, n). case n of
     Fin t \<Rightarrow> [\<lparr>w_service_id = i, w_outcome = JStr (outcome_name r), w_timestamp = t\<rparr>] | _ \<Rightarrow> []) vs)"

section \<open>The run\<close>

text \<open>Up to the scores: the time at the head, and what is to be published.\<close>

definition score_run :: "score_config \<Rightarrow> score_chain \<Rightarrow> (jsnum \<times> service_scores list) result" where
  "score_run cfg ch =
     (if \<not> ch_arc ch then Inl (js ''unknown chain selector name: '' @ cf_arc_name cfg)
      else if \<not> ch_sepolia ch then Inl (js ''unknown chain selector name: '' @ cf_sepolia_name cfg)
      else bind_r (assert_block_time_seconds (cf_block_time cfg)) (\<lambda>block_time.
        bind_r (to_bigint (Some (JStr (cf_deploy_block cfg)))) (\<lambda>deploy.
        bind_r (ch_head ch) (\<lambda>(number, time).
        case number of
          None \<Rightarrow> Inl (js ''could not read Arc head'')
        | Some head \<Rightarrow>
          (let head_time = to_f64 (of_int time) in
           bind_r (window_blocks block_time) (\<lambda>blocks.
           bind_r (assert_log_chunk_blocks (cf_log_chunk cfg)) (\<lambda>chunk.
           bind_r (scan_logs ch chunk Service_Registered deploy head) (\<lambda>registered.
           bind_r (map_r (read_service ch) registered) (\<lambda>services.
           bind_r (scan_logs ch chunk Verdict_Written (window_start head deploy blocks) head) (\<lambda>written.
           bind_r (map_r (read_verdict ch head head_time block_time) written) (\<lambda>verdicts.
           bind_r (reputation_for_window services (dated verdicts) head_time WINDOW_SECONDS) (\<lambda>scores.
             Inr (head_time, scores)))))))))))))"

definition score_report_of :: "service_scores \<Rightarrow> score_report" where
  "score_report_of p = \<lparr>rr_slug = p_slug p, rr_conformance = int (conformance (p_scores p)),
     rr_availability = int (availability (p_scores p))\<rparr>"

definition score_line :: "service_scores \<Rightarrow> bool \<times> jstring option \<Rightarrow> jstring" where
  "score_line p w = p_slug p @ js ''='' @ dec (conformance (p_scores p)) @ js ''/'' @ dec (availability (p_scores p)) @
     (if fst w then [] else js '' (write failed)'') @ js '' tx='' @ (case snd w of Some h \<Rightarrow> h | None \<Rightarrow> js ''none'')"

text \<open>The loop, with the reports handed to \<open>writeReport\<close>: what it throws ends the run.\<close>

fun publish_scores :: "score_chain \<Rightarrow> service_scores list \<Rightarrow> jstring list result \<times> score_report list" where
  "publish_scores ch [] = (Inr [], [])"
| "publish_scores ch (p # ps) = (case ch_sign ch (score_report_of p) of
     Inl m \<Rightarrow> (Inl m, [])
   | Inr _ \<Rightarrow> (case ch_write ch (score_report_of p) of
       Inl m \<Rightarrow> (Inl m, [score_report_of p])
     | Inr w \<Rightarrow> (let r = publish_scores ch ps in
         (bind_r (fst r) (\<lambda>ls. Inr (score_line p w # ls)), score_report_of p # snd r))))"

definition run_summary :: "jsnum \<Rightarrow> jstring list \<Rightarrow> jstring" where
  "run_summary head_time ls = js ''window '' @ num_str (Fin WINDOW_SECONDS) @ js ''s ending '' @ num_str head_time @ js '': '' @
     (if join_with (js '' '') ls = [] then js ''no listed services'' else join_with (js '' '') ls)"

definition on_schedule :: "score_config \<Rightarrow> score_chain \<Rightarrow> jstring result \<times> score_report list" where
  "on_schedule cfg ch = (case score_run cfg ch of
     Inl m \<Rightarrow> (Inl m, [])
   | Inr (head_time, scores) \<Rightarrow>
       (let r = publish_scores ch scores in (bind_r (fst r) (\<lambda>ls. Inr (run_summary head_time ls)), snd r)))"

section \<open>The scans\<close>

text \<open>\<open>eth_getLogs\<close>: a range is answered with the logs of its blocks, in order, each dated with its block.\<close>

definition answers_by_block :: "score_chain \<Rightarrow> (registry_event \<Rightarrow> int \<Rightarrow> evm_log list) \<Rightarrow> bool" where
  "answers_by_block ch logs \<longleftrightarrow>
     (\<forall>ev a b. a \<le> b \<longrightarrow> ch_filter ch ev (a, b) = Inr (concat (map (logs ev) [a..b]))) \<and>
     (\<forall>ev k. \<forall>l \<in> set (logs ev k). lg_block l = Some k)"

definition all_logs :: "(registry_event \<Rightarrow> int \<Rightarrow> evm_log list) \<Rightarrow> registry_event \<Rightarrow> int \<Rightarrow> int \<Rightarrow> evm_log list" where
  "all_logs logs ev a b = concat (map (logs ev) [a..b])"

lemma map_r_const: "(\<And>x. x \<in> set xs \<Longrightarrow> f x = Inr (g x)) \<Longrightarrow> map_r f xs = Inr (map g xs)"
  by (induction xs) auto

lemma scan_logs_reads_all:
  assumes "answers_by_block ch logs" "0 < chunk"
  shows "scan_logs ch chunk ev f t = Inr (all_logs logs ev f t)"
proof -
  let ?c = "chunk_loop f t chunk" and ?g = "\<lambda>(a, b). concat (map (logs ev) [a..b])"
  have "map_r (ch_filter ch ev) ?c = Inr (map ?g ?c)"
  proof (rule map_r_const)
    fix r assume "r \<in> set ?c"
    moreover obtain a b where "r = (a, b)" by (cases r)
    ultimately have r: "r = (a, b)" "(a, b) \<in> set ?c" by simp_all
    have "a \<le> b" using chunk_loop_width [OF assms(2) r(2)] by simp
    then show "ch_filter ch ev r = Inr (?g r)" using assms(1) by (simp add: answers_by_block_def r(1))
  qed
  moreover have "concat (map ?g cs) = concat (map (logs ev) (concat (map (\<lambda>(a, b). [a..b]) cs)))" for cs
    by (induction cs) auto
  ultimately show ?thesis
    using assms(2) by (simp add: scan_logs_def block_range_chunks_def chunk_loop_covers all_logs_def)
qed

lemma all_logs_split: "a \<le> m \<Longrightarrow> m \<le> b + 1 \<Longrightarrow> all_logs logs ev a b = all_logs logs ev a (m - 1) @ all_logs logs ev m b"
proof -
  assume h: "a \<le> m" "m \<le> b + 1"
  have "[a..b] = [a..m - 1] @ [m..b]"
    using h by (cases "m = b + 1") (auto simp: upto_split1 [of a m b])
  then show ?thesis by (simp add: all_logs_def)
qed

section \<open>Blocks before the window\<close>

lemma scale_mono: "0 < b \<Longrightarrow> n \<le> y \<Longrightarrow> \<not> num_less (num_scale (Fin y) b) (to_f64 (n * b))"
  by (simp add: to_f64_mono)

lemma not_less_exact: "\<not> num_less n (Fin a) \<Longrightarrow> n \<noteq> NotNum \<Longrightarrow> n = PosInf \<or> (\<exists>x. n = Fin x \<and> a \<le> x)"
  by (cases n) auto

lemma exact_nat: "0 \<le> z \<Longrightarrow> z < 2 ^ 53 \<Longrightarrow> to_f64 (of_int z) = Fin (of_int z)"
  using to_f64_exact [of "nat z"] by simp

text \<open>The rounded count of blocks is at most one short of the exact one.\<close>

lemma window_blocks_bound:
  assumes "0 < b" "WINDOW_SECONDS \<le> b * (2 ^ 53 - 2)" "window_blocks b = Inr n"
  shows "WINDOW_SECONDS \<le> of_int (n + 1) * b" "0 \<le> n" "n + 1 < 2 ^ 53"
proof -
  let ?x = "WINDOW_SECONDS / b"
  obtain q where q: "to_f64 ?x = Fin q" "n = \<lceil>q\<rceil>" using assms(3) by (auto simp: window_blocks_def split: jsnum.splits)
  have x: "0 \<le> ?x" "?x \<le> of_int (2 ^ 53 - 2)" using assms(1,2) by (simp_all add: WINDOW_SECONDS_def divide_le_eq mult.commute)
  have f: "0 \<le> \<lfloor>?x\<rfloor>" "\<lfloor>?x\<rfloor> \<le> 2 ^ 53 - 2" using x floor_mono [OF x(2)] by (simp, simp only: floor_of_int)
  have "to_f64 (of_int \<lfloor>?x\<rfloor>) = Fin (of_int \<lfloor>?x\<rfloor>)" using f by (intro exact_nat) auto
  then have lo: "of_int \<lfloor>?x\<rfloor> \<le> q" using to_f64_mono [of "of_int \<lfloor>?x\<rfloor>" ?x] q(1) by simp
  have "to_f64 (of_int (2 ^ 53 - 2)) = Fin (of_int (2 ^ 53 - 2))" by (intro exact_nat) auto
  then have hi: "q \<le> of_int (2 ^ 53 - 2)" using to_f64_mono [OF x(2)] q(1) by simp
  have n: "\<lfloor>?x\<rfloor> \<le> n" "n \<le> 2 ^ 53 - 2" using lo hi unfolding q(2) by (simp_all add: le_ceiling_iff ceiling_le_iff)
  show "0 \<le> n" using n(1) f(1) by linarith
  show "n + 1 < 2 ^ 53" using n(2) by simp
  have "?x < of_int (\<lfloor>?x\<rfloor> + 1)" by linarith
  also have "\<dots> \<le> of_int (n + 1)" using n(1) by simp
  finally show "WINDOW_SECONDS \<le> of_int (n + 1) * b" using assms(1) by (simp add: divide_less_eq)
qed

lemma old_block_is_outside:
  assumes b: "0 < b" "WINDOW_SECONDS \<le> b * (2 ^ 53 - 2)" "window_blocks b = Inr n" and k: "k < head - n"
    and time: "86400 \<le> time" "time < 2 ^ 53" and d: "timestamp_of_block head (to_f64 (of_int time)) b k = Fin x"
  shows "x \<le> of_int time - WINDOW_SECONDS"
proof -
  note n = window_blocks_bound [OF b]
  have t: "to_f64 (of_int time) = Fin (of_int time)" using time by (intro exact_nat) auto
  have "to_f64 (of_int (n + 1)) = Fin (of_int (n + 1))" using n by (intro exact_nat) auto
  then have "\<not> num_less (to_f64 (of_int (head - k))) (Fin (of_int (n + 1)))"
    using to_f64_mono [of "of_int (n + 1)" "of_int (head - k)"] k by simp
  then obtain y where y: "to_f64 (of_int (head - k)) = PosInf \<or> to_f64 (of_int (head - k)) = Fin y \<and> of_int (n + 1) \<le> y"
    using not_less_exact to_f64_number by blast
  have w: "to_f64 WINDOW_SECONDS = Fin WINDOW_SECONDS" using exact_nat [of 86400] by (simp add: WINDOW_SECONDS_def)
  obtain z where z: "num_scale (to_f64 (of_int (head - k))) b = PosInf \<or>
      num_scale (to_f64 (of_int (head - k))) b = Fin z \<and> WINDOW_SECONDS \<le> z"
  proof (cases "to_f64 (of_int (head - k)) = PosInf")
    case False
    then have "to_f64 (of_int (head - k)) = Fin y" "of_int (n + 1) \<le> y" using y by auto
    moreover have "WINDOW_SECONDS \<le> y * b"
      using n(1) calculation(2) b(1) by (meson less_imp_le mult_right_mono order_trans)
    ultimately show ?thesis using that to_f64_mono [of WINDOW_SECONDS "y * b"] not_less_exact [of "to_f64 (y * b)"] to_f64_number w
      by force
  qed (use that in simp)
  have z': "num_scale (to_f64 (of_int (head - k))) b = Fin z" "WINDOW_SECONDS \<le> z" "to_f64 (of_int time - z) = Fin x"
    using z d unfolding timestamp_of_block_def t by auto
  have "to_f64 (of_int time - WINDOW_SECONDS) = Fin (of_int time - WINDOW_SECONDS)"
    using exact_nat [of "time - 86400"] time by (simp add: WINDOW_SECONDS_def)
  then show ?thesis using to_f64_mono [of "of_int time - z" "of_int time - WINDOW_SECONDS"] z'(2,3) by simp
qed

section \<open>The window is scanned\<close>

lemma dated_append: "dated (a @ b) = dated a @ dated b"
  by (simp add: dated_def)

lemma old_verdicts_are_outside:
  assumes "map_r (read_verdict ch head (to_f64 (of_int time)) b) ls = Inr vs"
    "\<And>l. l \<in> set ls \<Longrightarrow> \<exists>k. lg_block l = Some k \<and> k < head - n"
    "0 < b" "WINDOW_SECONDS \<le> b * (2 ^ 53 - 2)" "window_blocks b = Inr n" "86400 \<le> time" "time < 2 ^ 53"
  shows "window_outcomes (of_int time - WINDOW_SECONDS) (of_int time) i (dated vs) = []"
  using assms(1,2)
proof (induction ls arbitrary: vs)
  case (Cons l ls)
  obtain v vs' where v: "read_verdict ch head (to_f64 (of_int time)) b l = Inr v"
      "map_r (read_verdict ch head (to_f64 (of_int time)) b) ls = Inr vs'" "vs = v # vs'"
    using Cons.prems(1) by (auto simp: bind_r_Inr_iff)
  obtain k where k: "lg_block l = Some k" "k < head - n" using Cons.prems(2) by auto
  obtain j r where j: "v = (j, r, timestamp_of_block head (to_f64 (of_int time)) b k)"
    using v(1) k(1) by (auto simp: read_verdict_def bind_r_Inr_iff)
  have "window_outcomes (of_int time - WINDOW_SECONDS) (of_int time) i (dated [v]) = []"
    using old_block_is_outside [OF assms(3-5) k(2) assms(6,7)]
    by (auto simp: j dated_def window_outcomes_def in_window_def split: jsnum.splits)
  moreover have "dated vs = dated [v] @ dated vs'" unfolding v(3) by (subst dated_append [symmetric]) simp
  ultimately show ?case using Cons.IH [OF v(2)] Cons.prems(2) by (simp add: window_outcomes_def)
qed (simp add: dated_def window_outcomes_def)

lemma reputation_depends_on_window:
  assumes "\<And>i. window_outcomes (t - w) t i vs = window_outcomes (t - w) t i vs'"
  shows "reputation_for_window services vs (Fin t) w = reputation_for_window services vs' (Fin t) w"
  unfolding reputation_for_window_eq assms ..

lemma window_scan_is_enough:
  assumes "answers_by_block ch logs" "0 < b" "WINDOW_SECONDS \<le> b * (2 ^ 53 - 2)" "window_blocks b = Inr n"
    "86400 \<le> time" "time < 2 ^ 53" "deploy \<le> head"
    and all: "map_r (read_verdict ch head (to_f64 (of_int time)) b) (all_logs logs Verdict_Written deploy head) = Inr vs"
  shows "\<exists>recent. map_r (read_verdict ch head (to_f64 (of_int time)) b)
       (all_logs logs Verdict_Written (window_start head deploy n) head) = Inr recent \<and>
     reputation_for_window services (dated recent) (Fin (of_int time)) WINDOW_SECONDS =
     reputation_for_window services (dated vs) (Fin (of_int time)) WINDOW_SECONDS"
proof (cases "n + deploy < head")
  case False
  then show ?thesis using all by (simp add: window_start_def)
next
  case True
  let ?m = "head - n" and ?f = "read_verdict ch head (to_f64 (of_int time)) b"
  have n: "0 \<le> n" by (rule window_blocks_bound(2) [OF assms(2-4)])
  have "all_logs logs Verdict_Written deploy head =
      all_logs logs Verdict_Written deploy (?m - 1) @ all_logs logs Verdict_Written ?m head"
    using True n by (intro all_logs_split) auto
  then obtain old recent where r: "map_r ?f (all_logs logs Verdict_Written deploy (?m - 1)) = Inr old"
      "map_r ?f (all_logs logs Verdict_Written ?m head) = Inr recent" "vs = old @ recent"
    using all by (auto simp: map_r_append bind_r_Inr_iff)
  have block: "lg_block l = Some k" if "l \<in> set (logs ev k)" for l ev k
    using that assms(1) unfolding answers_by_block_def by blast
  have "\<exists>k. lg_block l = Some k \<and> k < ?m" if l: "l \<in> set (all_logs logs Verdict_Written deploy (?m - 1))" for l
  proof -
    obtain k where "k \<le> ?m - 1" "l \<in> set (logs Verdict_Written k)" using l by (auto simp: all_logs_def)
    then show ?thesis using block by (intro exI [of _ k]) simp
  qed
  then have "window_outcomes (of_int time - WINDOW_SECONDS) (of_int time) i (dated old) = []" for i
    using old_verdicts_are_outside [OF r(1)] assms(2-6) by blast
  then have "window_outcomes (of_int time - WINDOW_SECONDS) (of_int time) i (dated recent) =
      window_outcomes (of_int time - WINDOW_SECONDS) (of_int time) i (dated vs)" for i
    by (simp add: r(3) dated_append window_outcomes_def)
  then have "reputation_for_window services (dated recent) (Fin (of_int time)) WINDOW_SECONDS =
      reputation_for_window services (dated vs) (Fin (of_int time)) WINDOW_SECONDS"
    by (rule reputation_depends_on_window)
  moreover have "window_start head deploy n = ?m" using True by (simp add: window_start_def)
  ultimately show ?thesis using r(2) by metis
qed

section \<open>The guards of the configuration\<close>

lemma block_time_positive: "assert_block_time_seconds v = Inr b \<Longrightarrow> 0 < b"
  by (auto simp: assert_block_time_seconds_def split: jsnum.splits if_splits)

lemma chunk_positive: "assert_log_chunk_blocks v = Inr c \<Longrightarrow> 0 < c"
  by (auto simp: assert_log_chunk_blocks_def split: option.splits if_splits)

section \<open>Publishing\<close>

lemma publish_all:
  assumes "\<And>r. is_ok (ch_sign ch r)" "\<And>r. is_ok (ch_write ch r)"
  shows "is_ok (fst (publish_scores ch ps)) \<and> snd (publish_scores ch ps) = map score_report_of ps"
proof (induction ps)
  case (Cons p ps)
  obtain u w where u: "ch_sign ch (score_report_of p) = Inr u" "ch_write ch (score_report_of p) = Inr w"
    using assms [of "score_report_of p"] by (auto simp: is_ok_iff)
  show ?case using Cons u by (auto simp: is_ok_iff Let_def)
qed simp

text \<open>A write that fails is passed over; one that throws ends the run, and the services after it keep their old scores.\<close>

lemma thrown_write_stops_the_rest:
  assumes "is_ok (ch_sign ch (score_report_of p))" "ch_write ch (score_report_of p) = Inl m"
  shows "publish_scores ch (p # ps) = (Inl m, [score_report_of p])"
  using assms by (auto simp: is_ok_iff)

lemma dated_outcomes: "\<forall>v \<in> set (dated vs). w_outcome v \<in> {js_str ''PASS'', js_str ''FAIL'', js_str ''DOWN''}"
proof -
  have "\<forall>v \<in> set (dated vs). \<exists>r. w_outcome v = JStr (outcome_name r)" by (auto simp: dated_def split: jsnum.splits)
  moreover have "JStr (outcome_name r) \<in> {js_str ''PASS'', js_str ''FAIL'', js_str ''DOWN''}" for r
    by (cases r) (simp_all add: outcome_name_def)
  ultimately show ?thesis by metis
qed


section \<open>Properties\<close>

text \<open>
  C8: The hourly run publishes every listing's score, once, whatever the chunking: from logs answered block by block and writes
  that do not throw, it succeeds and hands the score writer one report per live listing, in registration order, each the score
  of exactly the verdicts since the registry's deployment that its window dates, although it scanned the window's blocks
  only; dates are doubles, rounded at each operation, and so is the count of blocks of the window.
\<close>

theorem hourly_run_scores_every_listing:
  assumes "ch_arc ch" "ch_sepolia ch" "assert_block_time_seconds (cf_block_time cfg) = Inr b" "WINDOW_SECONDS \<le> b * (2 ^ 53 - 2)"
    "is_ok (window_blocks b)" "to_bigint (Some (JStr (cf_deploy_block cfg))) = Inr deploy"
    "is_ok (assert_log_chunk_blocks (cf_log_chunk cfg))" "ch_head ch = Inr (Some head, time)" "deploy \<le> head"
    "86400 \<le> time" "time < 2 ^ 53" "answers_by_block ch logs"
    "map_r (read_service ch) (all_logs logs Service_Registered deploy head) = Inr services"
    "map_r (read_verdict ch head (Fin (of_int time)) b) (all_logs logs Verdict_Written deploy head) = Inr verdicts"
    "\<And>r. is_ok (ch_sign ch r)" "\<And>r. is_ok (ch_write ch r)"
  shows "is_ok (fst (on_schedule cfg ch)) \<and>
     (\<exists>scores. reputation_for_window services (dated verdicts) (Fin (of_int time)) WINDOW_SECONDS = Inr scores \<and>
        snd (on_schedule cfg ch) = map score_report_of scores \<and>
        map p_slug scores = map v_slug (filter (\<lambda>s. listed services (v_service_id s)) services))"
proof -
  obtain n c where n: "window_blocks b = Inr n" and c: "assert_log_chunk_blocks (cf_log_chunk cfg) = Inr c"
    using assms(5,7) by (auto simp: is_ok_iff)
  have pos: "0 < b" "0 < c" using block_time_positive [OF assms(3)] chunk_positive [OF c] by simp_all
  have t: "to_f64 (of_int time) = Fin (of_int time)" using assms(10,11) by (intro exact_nat) auto
  obtain recent where r: "map_r (read_verdict ch head (to_f64 (of_int time)) b)
       (all_logs logs Verdict_Written (window_start head deploy n) head) = Inr recent"
     "reputation_for_window services (dated recent) (Fin (of_int time)) WINDOW_SECONDS =
      reputation_for_window services (dated verdicts) (Fin (of_int time)) WINDOW_SECONDS"
    using window_scan_is_enough [OF assms(12) pos(1) assms(4) n assms(10,11,9)] assms(14) t by metis
  obtain scores where s: "reputation_for_window services (dated verdicts) (Fin (of_int time)) WINDOW_SECONDS = Inr scores"
      "map p_slug scores = map v_slug (filter (\<lambda>s. listed services (v_service_id s)) services)"
    using live_listing_scores [OF dated_outcomes] by blast
  have "score_run cfg ch = Inr (Fin (of_int time), scores)"
    using assms(1,2,3,6,8,13) n c r s(1)
    by (simp add: score_run_def scan_logs_reads_all [OF assms(12) pos(2)] t Let_def)
  then show ?thesis using publish_all [of ch scores] assms(15,16) s by (auto simp: on_schedule_def is_ok_iff Let_def)
qed


definition example_log :: "string \<Rightarrow> int \<Rightarrow> evm_log" where
  "example_log data k = \<lparr>lg_data = js data, lg_topics = [], lg_block = Some k\<rparr>"

definition example_logs :: "registry_event \<Rightarrow> int \<Rightarrow> evm_log list" where
  "example_logs ev k = (case ev of
     Service_Registered \<Rightarrow> if k = 1 then [example_log ''weather'' k] else []
   | Verdict_Written \<Rightarrow> if k = 2 then [example_log ''fail'' k] else if k = 5 then [example_log ''pass'' k] else [])"

definition example_score_chain :: score_chain where
  "example_score_chain = \<lparr>ch_arc = True, ch_sepolia = True, ch_head = Inr (Some 5, 1000000),
     ch_filter = (\<lambda>ev r. Inr (all_logs example_logs ev (fst r) (snd r))),
     ch_registered = (\<lambda>l. Inr (js ''0x1'', lg_data l)),
     ch_verdict = (\<lambda>l. Inr (js ''0x1'', if lg_data l = js ''pass'' then 0 else 1)),
     ch_status = (\<lambda>_. Inr 1), ch_sign = (\<lambda>_. Inr ()), ch_write = (\<lambda>_. Inr (False, None))\<rparr>"

definition example_score_config :: score_config where
  "example_score_config = \<lparr>cf_arc_name = [], cf_sepolia_name = [], cf_deploy_block = js ''0'',
     cf_block_time = Some (JNum (Fin 86400)), cf_log_chunk = None\<rparr>"

lemma example_answers: "answers_by_block example_score_chain example_logs"
  by (auto simp: answers_by_block_def example_score_chain_def all_logs_def example_logs_def example_log_def
    split: registry_event.splits if_splits)

lemma blocks_0_5: "[0..5 :: int] = [0, 1, 2, 3, 4, 5]"
  by (simp add: upto_rec1)

lemma example_ordinals: "outcome_from_ordinal (jsint 0) = Inr PASS" "outcome_from_ordinal (jsint 1) = Inr FAIL"
  "status_from_ordinal (jsint 1) = Inr ACTIVE"
  by (simp_all add: outcome_from_ordinal_def status_from_ordinal_def from_ordinal_def OUTCOME_BY_ORDINAL_def STATUS_BY_ORDINAL_def)

lemma example_score_reads:
  "map_r (read_service example_score_chain) (all_logs example_logs Service_Registered 0 5) =
     Inr [\<lparr>v_service_id = js ''0x1'', v_slug = js ''weather'', v_status = ACTIVE\<rparr>]"
  "\<exists>vs. map_r (read_verdict example_score_chain 5 (Fin (of_int 1000000)) 86400) (all_logs example_logs Verdict_Written 0 5) = Inr vs"
  using example_ordinals
  by (simp_all add: all_logs_def blocks_0_5 example_logs_def example_log_def example_score_chain_def read_service_def read_verdict_def)

lemma example_config_reads:
  "assert_block_time_seconds (cf_block_time example_score_config) = Inr 86400" "is_ok (window_blocks 86400)"
  "to_bigint (Some (JStr (cf_deploy_block example_score_config))) = Inr 0"
  "is_ok (assert_log_chunk_blocks (cf_log_chunk example_score_config))"
proof -
  show "assert_block_time_seconds (cf_block_time example_score_config) = Inr 86400"
    by (simp add: assert_block_time_seconds_def example_score_config_def)
  show "is_ok (window_blocks 86400)" using exact_nat [of 1] by (simp add: window_blocks_def WINDOW_SECONDS_def)
  show "to_bigint (Some (JStr (cf_deploy_block example_score_config))) = Inr 0" by code_simp
  show "is_ok (assert_log_chunk_blocks (cf_log_chunk example_score_config))"
    by (simp add: assert_log_chunk_blocks_def example_score_config_def)
qed

theorem hourly_run_scores_every_listing_witness:
  "is_ok (fst (on_schedule example_score_config example_score_chain)) \<and>
   map rr_slug (snd (on_schedule example_score_config example_score_chain)) = [js ''weather'']"
proof -
  obtain vs where vs: "map_r (read_verdict example_score_chain 5 (Fin (of_int 1000000)) 86400)
      (all_logs example_logs Verdict_Written 0 5) = Inr vs"
    using example_score_reads(2) by blast
  have ch: "ch_arc example_score_chain" "ch_sepolia example_score_chain" "ch_head example_score_chain = Inr (Some 5, 1000000)"
    "is_ok (ch_sign example_score_chain r)" "is_ok (ch_write example_score_chain r)" for r
    by (simp_all add: example_score_chain_def)
  have "WINDOW_SECONDS \<le> 86400 * (2 ^ 53 - 2)" by (simp add: WINDOW_SECONDS_def)
  note hourly_run_scores_every_listing [OF ch(1,2) example_config_reads(1) this example_config_reads(2-4) ch(3) _ _ _
    example_answers example_score_reads(1) vs ch(4,5)]
  then show ?thesis by (auto simp: listed_def score_report_of_def)
qed

end
