(* ===== verification/Runner_Host.thy ===== *)
theory Runner_Host imports Enclave_Verify Proxy_Config begin

text \<open>
  The runner's host: \<open>runner/src/config.js\<close>, the supervisor of \<open>simulator.js\<close> that keeps one \<open>cre workflow simulate\<close> child
  alive, and the request listener of \<open>server.js\<close>. What the children do and when the timers fire are events; logging is left out.
\<close>

section \<open>loadConfig\<close>

record runner_settings =
  rs_port :: jsnum
  rs_gateway :: runner_config
  rs_trigger_ack_timeout_ms :: jsnum
  rs_max_request_body_bytes :: jsnum
  rs_workflow_dir :: jstring
  rs_workflow_target :: jstring
  rs_workflow_name :: jstring
  rs_broadcast :: bool
  rs_simulator_warmup_ms :: jsnum

definition runner_env :: "environment \<Rightarrow> string \<Rightarrow> jstring option" where
  "runner_env source name = (case source (js name) of Some v \<Rightarrow> if v = [] then None else Some v | None \<Rightarrow> None)"

definition runner_text :: "environment \<Rightarrow> string \<Rightarrow> string \<Rightarrow> jstring" where
  "runner_text source name d = (case runner_env source name of Some v \<Rightarrow> v | None \<Rightarrow> js d)"

definition runner_number :: "environment \<Rightarrow> string \<Rightarrow> int \<Rightarrow> jsnum" where
  "runner_number source name d = (case runner_env source name of Some v \<Rightarrow> number_of_string v | None \<Rightarrow> jsint d)"

definition load_runner_config :: "environment \<Rightarrow> runner_settings result" where
  "load_runner_config source = (case runner_env source ''RUNNER_TRIGGER_ADDRESS'' of
     None \<Rightarrow> Inl (js ''RUNNER_TRIGGER_ADDRESS is required: the address expected to sign the proxy'' @ [39] @ js ''s trigger JWTs'')
   | Some trigger_address \<Rightarrow> Inr
      \<lparr>rs_port = runner_number source ''RUNNER_PORT'' 8787,
       rs_gateway = \<lparr>rc_trigger_address = trigger_address,
         rc_jwt_max_age_seconds = runner_number source ''RUNNER_JWT_MAX_AGE_SECONDS'' 300,
         rc_simulator_url = runner_text source ''RUNNER_SIMULATOR_URL'' ''http://127.0.0.1:2000/trigger'',
         rc_expected_workflow_id = runner_env source ''RUNNER_WORKFLOW_ID''\<rparr>,
       rs_trigger_ack_timeout_ms = runner_number source ''RUNNER_TRIGGER_ACK_TIMEOUT_MS'' 5000,
       rs_max_request_body_bytes = runner_number source ''RUNNER_MAX_REQUEST_BODY_BYTES'' 1048576,
       rs_workflow_dir = runner_text source ''RUNNER_WORKFLOW_DIR'' ''/app/cre/workflows'',
       rs_workflow_target = runner_text source ''RUNNER_CRE_TARGET'' ''staging-settings'',
       rs_workflow_name = runner_text source ''RUNNER_WORKFLOW_NAME'' ''verify'',
       rs_broadcast = (runner_text source ''RUNNER_CRE_BROADCAST'' ''false'' = js ''true''),
       rs_simulator_warmup_ms = runner_number source ''RUNNER_SIMULATOR_WARMUP_MS'' 15000\<rparr>)"

section \<open>The supervisor\<close>

definition build_args :: "jstring \<Rightarrow> jstring \<Rightarrow> bool \<Rightarrow> jstring list" where
  "build_args workflow_name target broadcast =
     [js ''workflow'', js ''simulate'', workflow_name, js ''--listen'', js ''--target'', target] @
     (if broadcast then [js ''--broadcast''] else [])"

text \<open>\<open>/listen|localhost:2000|server started|serving/i\<close>\<close>

fun occurs_in :: "jstring \<Rightarrow> jstring \<Rightarrow> bool" where
  "occurs_in p [] \<longleftrightarrow> p = []"
| "occurs_in p (c # s) \<longleftrightarrow> take (length p) (c # s) = p \<or> occurs_in p s"

definition ready_hint :: "jstring \<Rightarrow> bool" where
  "ready_hint printed \<longleftrightarrow> list_ex (\<lambda>p. occurs_in (js p) (lower printed)) [''listen'', ''localhost:2000'', ''server started'', ''serving'']"

text \<open>
  Children are numbered in the order of their spawns; \<open>su_ready\<close> holds, for each spawn, whether its promise is resolved, and
  \<open>readyResolve\<close> is the resolver of the last. Of the timers, how many are pending.
\<close>

record supervisor =
  su_child :: "nat option"
  su_restarting :: bool
  su_stopped :: bool
  su_ready :: "bool list"
  su_fallbacks :: nat
  su_restarts :: nat
  su_killed :: "nat list"

definition idle_supervisor :: supervisor where
  "idle_supervisor = \<lparr>su_child = None, su_restarting = False, su_stopped = False, su_ready = [], su_fallbacks = 0,
     su_restarts = 0, su_killed = []\<rparr>"

definition spawned :: "supervisor \<Rightarrow> nat" where
  "spawned s = length (su_ready s)"

definition spawn_child :: "supervisor \<Rightarrow> supervisor" where
  "spawn_child s = s\<lparr>su_ready := su_ready s @ [False], su_fallbacks := Suc (su_fallbacks s), su_child := Some (spawned s)\<rparr>"

definition resolve_ready :: "supervisor \<Rightarrow> supervisor" where
  "resolve_ready s = (if su_ready s = [] then s else s\<lparr>su_ready := butlast (su_ready s) @ [True]\<rparr>)"

definition restart_after_failure :: "supervisor \<Rightarrow> supervisor" where
  "restart_after_failure s =
     (let r = resolve_ready s in
      if \<not> su_stopped r \<and> \<not> su_restarting r then r\<lparr>su_restarting := True, su_restarts := Suc (su_restarts r)\<rparr> else r)"

datatype host_event =
    Start_Host | Stop_Host
  | Printed nat jstring | Child_Exited nat | Spawn_Error nat
  | Fallback_Fires | Restart_Fires

fun supervisor_step :: "host_event \<Rightarrow> supervisor \<Rightarrow> supervisor" where
  "supervisor_step Start_Host s = (if su_child s \<noteq> None then s else spawn_child s)"
| "supervisor_step Stop_Host s = s\<lparr>su_stopped := True, su_killed := su_killed s @ (case su_child s of Some k \<Rightarrow> [k] | None \<Rightarrow> [])\<rparr>"
| "supervisor_step (Printed k printed) s = (if k < spawned s \<and> ready_hint printed then resolve_ready s else s)"
| "supervisor_step (Child_Exited k) s = (if k < spawned s then restart_after_failure s else s)"
| "supervisor_step (Spawn_Error k) s = (if k < spawned s then restart_after_failure s else s)"
| "supervisor_step Fallback_Fires s =
     (if 0 < su_fallbacks s then resolve_ready (s\<lparr>su_fallbacks := su_fallbacks s - 1\<rparr>) else s)"
| "supervisor_step Restart_Fires s =
     (if 0 < su_restarts s then
        (let r = s\<lparr>su_restarts := su_restarts s - 1, su_restarting := False\<rparr> in if su_stopped r then r else spawn_child r)
      else s)"

definition supervise :: "host_event list \<Rightarrow> supervisor \<Rightarrow> supervisor" where
  "supervise vs s = fold supervisor_step vs s"

fun is_failure :: "host_event \<Rightarrow> bool" where
  "is_failure (Child_Exited _) = True"
| "is_failure (Spawn_Error _) = True"
| "is_failure _ = False"

section \<open>The request listener\<close>

definition healthz :: "nat option \<Rightarrow> json" where
  "healthz pid = JObj [(js ''ok'', JBool True), (js ''simulatorPid'', case pid of Some p \<Rightarrow> JNum (Fin (of_nat p)) | None \<Rightarrow> JNull)]"

text \<open>
  \<open>body\<close> is what \<open>readRequestBody\<close> resolved to: \<open>None\<close> once it has answered itself. The reply, where the listener gives one, and
  what went to the simulator.
\<close>

definition serve_request ::
  "(8 word list \<Rightarrow> 8 word list) \<Rightarrow> (json option \<Rightarrow> jstring \<Rightarrow> jstring \<Rightarrow> bool) \<Rightarrow> runner_settings \<Rightarrow> nat option \<Rightarrow> simulator_reply \<Rightarrow>
   jstring \<Rightarrow> jstring \<Rightarrow> jstring option \<Rightarrow> jstring option \<Rightarrow> jsnum \<Rightarrow> (nat \<times> json) option \<times> jstring option" where
  "serve_request sha256 verify_message config pid simulator meth url authorization body now =
     (if meth = js ''GET'' \<and> url = js ''/healthz'' then (Some (200, healthz pid), None)
      else if meth = js ''POST'' \<and> url = js ''/workflows/execute'' then
        (case body of
           None \<Rightarrow> (None, None)
         | Some raw_body \<Rightarrow>
             (let a = handle_trigger sha256 verify_message (rs_gateway config) simulator authorization raw_body now in
              (Some (ta_status a, ta_body a), ta_forwarded a)))
      else (Some (404, JObj [(js ''error'', js_str ''not_found'')]), None))"

section \<open>What a run of the supervisor keeps\<close>

definition waiters_served :: "supervisor \<Rightarrow> bool" where
  "waiters_served s \<longleftrightarrow> (\<forall>i < spawned s. su_ready s ! i \<or> i = spawned s - 1 \<and> 0 < su_fallbacks s)"

definition supervised :: "supervisor \<Rightarrow> bool" where
  "supervised s \<longleftrightarrow> (su_child s = None \<longleftrightarrow> su_ready s = []) \<and> su_restarts s = (if su_restarting s then 1 else 0) \<and>
     (su_restarting s \<longrightarrow> su_ready s \<noteq> [] \<and> last (su_ready s)) \<and> list_all (\<lambda>r. r) (butlast (su_ready s)) \<and>
     (su_ready s \<noteq> [] \<and> \<not> last (su_ready s) \<longrightarrow> 0 < su_fallbacks s)"

lemma resolve_ready_facts [simp]:
  "su_child (resolve_ready s) = su_child s" "su_restarts (resolve_ready s) = su_restarts s"
  "su_restarting (resolve_ready s) = su_restarting s" "su_stopped (resolve_ready s) = su_stopped s"
  "su_fallbacks (resolve_ready s) = su_fallbacks s" "spawned (resolve_ready s) = spawned s"
  "su_ready (resolve_ready s) = [] \<longleftrightarrow> su_ready s = []" "butlast (su_ready (resolve_ready s)) = butlast (su_ready s)"
  "su_ready s \<noteq> [] \<Longrightarrow> last (su_ready (resolve_ready s))"
  by (auto simp: resolve_ready_def spawned_def)

lemma spawned_nonempty: "k < spawned s \<Longrightarrow> su_ready s \<noteq> []"
  by (auto simp: spawned_def)

lemma restart_keeps: "supervised s \<Longrightarrow> su_ready s \<noteq> [] \<Longrightarrow> supervised (restart_after_failure s)"
  by (auto simp: supervised_def restart_after_failure_def Let_def)

lemma resolve_keeps: "supervised s \<Longrightarrow> supervised (resolve_ready s)"
  by (cases "su_ready s = []") (auto simp: supervised_def resolve_ready_def)

lemma all_resolved: "supervised s \<Longrightarrow> su_restarting s \<Longrightarrow> list_all (\<lambda>r. r) (su_ready s)"
  by (metis append_butlast_last_id list.pred_inject list_all_append supervised_def)

lemma step_keeps: "supervised s \<Longrightarrow> supervised (supervisor_step v s)"
proof (cases v)
  case Restart_Fires
  assume s: "supervised s"
  then show ?thesis using Restart_Fires all_resolved [OF s] by (auto simp: supervised_def spawn_child_def Let_def split: if_splits)
next
  case Fallback_Fires
  assume "supervised s"
  then show ?thesis using Fallback_Fires by (auto simp: supervised_def resolve_ready_def)
qed (auto simp: restart_keeps resolve_keeps spawned_nonempty, auto simp: supervised_def spawn_child_def)

text \<open>Every restart is owed to a failure.\<close>

definition owed :: "supervisor \<Rightarrow> nat" where
  "owed s = spawned s + su_restarts s"

lemma step_owes:
  assumes "supervised s"
  shows "owed (supervisor_step v s) \<le> owed s + (if is_failure v then 1 else 0) +
     (if su_child s = None \<and> su_child (supervisor_step v s) \<noteq> None then 1 else 0)"
  using assms by (cases v) (auto simp: owed_def spawn_child_def restart_after_failure_def Let_def spawned_def supervised_def split: if_splits,
    auto simp: resolve_ready_def)

lemma child_stays: "su_child s \<noteq> None \<Longrightarrow> su_child (supervisor_step v s) \<noteq> None"
  by (cases v) (auto simp: spawn_child_def restart_after_failure_def Let_def)

lemma supervise_keeps:
  "supervised s \<Longrightarrow> supervised (supervise vs s) \<and>
     owed (supervise vs s) \<le> owed s + length (filter is_failure vs) + (if su_child s = None then 1 else 0)"
proof (induction vs arbitrary: s)
  case (Cons v vs)
  have "supervised (supervisor_step v s)" by (rule step_keeps [OF Cons.prems])
  from Cons.IH [OF this] show ?case
    using step_owes [OF Cons.prems, of v] child_stays [of s v] by (auto simp: supervise_def split: if_splits)
qed (simp add: supervise_def)

lemma supervised_waiters:
  assumes "supervised s"
  shows "waiters_served s"
  unfolding waiters_served_def spawned_def
proof (intro allI impI)
  fix i assume i: "i < length (su_ready s)"
  show "su_ready s ! i \<or> i = length (su_ready s) - 1 \<and> 0 < su_fallbacks s"
  proof (cases "i = length (su_ready s) - 1")
    case True
    then have "su_ready s ! i = last (su_ready s)" using i by (subst last_conv_nth) auto
    then show ?thesis using assms i True unfolding supervised_def by auto
  next
    case False
    then have "i < length (butlast (su_ready s))" using i by simp
    then show ?thesis using assms unfolding supervised_def list_all_length by (metis nth_butlast)
  qed
qed

lemma stopped_spawns: "su_stopped s \<Longrightarrow> su_child s \<noteq> None \<Longrightarrow> spawned (supervise vs s) = spawned s"
proof (induction vs arbitrary: s)
  case (Cons v vs)
  have "spawned (supervisor_step v s) = spawned s \<and> su_stopped (supervisor_step v s)"
    using Cons.prems by (cases v) (auto simp: restart_after_failure_def Let_def, auto simp: spawned_def)
  then show ?case using Cons.IH [of "supervisor_step v s"] Cons.prems(2) child_stays by (auto simp: supervise_def)
qed (simp add: supervise_def)

lemma supervised_idle: "supervised idle_supervisor"
  by (simp add: supervised_def idle_supervisor_def)

text \<open>
  A child that fails to start and later exits is restarted for each: its successor lives on unsupervised, and \<open>stop\<close> kills the last
  one only.
\<close>

lemma late_exit_spawns_twice:
  "spawned (supervise [Start_Host, Spawn_Error 0, Restart_Fires, Child_Exited 0, Restart_Fires, Stop_Host] idle_supervisor) = 3"
  "su_killed (supervise [Start_Host, Spawn_Error 0, Restart_Fires, Child_Exited 0, Restart_Fires, Stop_Host] idle_supervisor) = [2]"
  by (simp_all add: supervise_def idle_supervisor_def spawn_child_def restart_after_failure_def resolve_ready_def spawned_def Let_def)

text \<open>A fallback timer of an earlier child resolves the promise of the present one.\<close>

lemma early_fallback_is_ready:
  "su_ready (supervise [Start_Host, Child_Exited 0, Restart_Fires, Fallback_Fires] idle_supervisor) = [True, True]"
  by (simp add: supervise_def idle_supervisor_def spawn_child_def restart_after_failure_def resolve_ready_def spawned_def Let_def)

text \<open>A body limit that is no number is none: \<open>size > maxBytes\<close> is false of NaN, and nothing is refused.\<close>

lemma unreadable_limit_is_none:
  assumes "number_of_string v = NotNum" "source (js ''RUNNER_MAX_REQUEST_BODY_BYTES'') = Some v" "v \<noteq> []"
    "load_runner_config source = Inr config"
  shows "\<not> num_less (rs_max_request_body_bytes config) (jsint n)"
proof -
  have "rs_max_request_body_bytes config = runner_number source ''RUNNER_MAX_REQUEST_BODY_BYTES'' 1048576"
    using assms(4) unfolding load_runner_config_def by (cases "runner_env source ''RUNNER_TRIGGER_ADDRESS''") auto
  then show ?thesis using assms(1-3) by (simp add: runner_number_def runner_env_def)
qed

section \<open>Properties\<close>

text \<open>
  C27: The supervisor keeps its promises: whatever the children print, however they end and whenever the timers fire, at most one
  restart is pending, every promise a caller may wait on is resolved or is the last one and has a fallback timer pending, and
  each child but the first was spawned for a failure reported before.
\<close>

theorem supervisor_keeps_its_promises:
  "su_restarts (supervise vs idle_supervisor) \<le> 1 \<and> waiters_served (supervise vs idle_supervisor) \<and>
   spawned (supervise vs idle_supervisor) + su_restarts (supervise vs idle_supervisor) \<le> 1 + length (filter is_failure vs)"
proof -
  have k: "supervised (supervise vs idle_supervisor)"
    "owed (supervise vs idle_supervisor) \<le> owed idle_supervisor + length (filter is_failure vs) + 1"
    using supervise_keeps [OF supervised_idle, of vs] by (auto simp: idle_supervisor_def)
  have "owed idle_supervisor = 0" by (simp add: owed_def spawned_def idle_supervisor_def)
  then show ?thesis using k supervised_waiters [OF k(1)] by (simp add: owed_def supervised_def)
qed

text \<open>
  Stopping is final: once a started supervisor is stopped, no child is spawned any more, whatever fails and whatever
  fires.
\<close>

theorem stop_is_final:
  "su_child s \<noteq> None \<Longrightarrow> spawned (supervise (Stop_Host # vs) s) = spawned s"
  using stopped_spawns [of "supervisor_step Stop_Host s" vs] by (simp add: supervise_def spawned_def)

theorem stop_is_final_witness:
  "spawned (supervise [Stop_Host, Child_Exited 0, Restart_Fires, Start_Host] (supervise [Start_Host, Spawn_Error 0] idle_supervisor)) = 1"
proof -
  have "su_child (supervise [Start_Host, Spawn_Error 0] idle_supervisor) \<noteq> None"
    "spawned (supervise [Start_Host, Spawn_Error 0] idle_supervisor) = 1"
    by (simp_all add: supervise_def idle_supervisor_def spawn_child_def restart_after_failure_def resolve_ready_def spawned_def Let_def)
  then show ?thesis using stop_is_final [of "supervise [Start_Host, Spawn_Error 0] idle_supervisor"] by simp
qed

text \<open>
  C20: The host starts a run for nothing but a POST of a runnable request: what reaches the simulator is the input of one, read from
  the body within its limit, for a token the configured address signed.
\<close>

theorem host_runs_only_verified_posts:
  assumes "load_runner_config source = Inr config"
  shows "snd (serve_request sha256 verify_message config pid simulator meth url authorization body now) = Some sent \<longleftrightarrow>
     meth = js ''POST'' \<and> url = js ''/workflows/execute'' \<and>
     (\<exists>raw_body input address. body = Some raw_body \<and> source (js ''RUNNER_TRIGGER_ADDRESS'') = Some address \<and>
        rc_trigger_address (rs_gateway config) = address \<and> address \<noteq> [] \<and>
        runnable sha256 verify_message (rs_gateway config) authorization raw_body now input \<and>
        sent = stringify (JObj [(js ''input'', input)]))"
proof -
  have a: "source (js ''RUNNER_TRIGGER_ADDRESS'') = Some (rc_trigger_address (rs_gateway config))" "rc_trigger_address (rs_gateway config) \<noteq> []"
    using assms by (auto simp: load_runner_config_def runner_env_def split: option.splits if_splits)
  show ?thesis
  proof (cases "meth = js ''POST'' \<and> url = js ''/workflows/execute''")
    case True
    then show ?thesis using a by (cases body) (simp_all add: serve_request_def Let_def handle_trigger_sends)
  next
    case False
    then show ?thesis by (auto simp: serve_request_def)
  qed
qed

definition example_source :: environment where
  "example_source name = (if name = js ''RUNNER_TRIGGER_ADDRESS'' then Some (js ''0xaB'') else None)"

theorem host_runs_only_verified_posts_witness:
  "\<exists>config authorization sent.
     load_runner_config example_source = Inr config \<and>
     snd (serve_request (\<lambda>_. []) (\<lambda>iss m s. iss = Some (JStr example_issuer) \<and> s = example_sign m) config None Sim_Ok
       (js ''POST'') (js ''/workflows/execute'') (Some authorization)
       (Some (trigger_text (js ''0x01'') (js ''https://cb'') paid_query)) (Fin 1059)) = Some sent"
proof -
  let ?body = "trigger_text (js ''0x01'') (js ''https://cb'') paid_query"
  let ?verify = "\<lambda>iss m s. iss = Some (JStr example_issuer) \<and> s = example_sign m"
  obtain token where t: "is_ok (verify_trigger_jwt (\<lambda>_. []) ?verify (Some (js ''Bearer '' @ token)) ?body (js ''0xaB'') (Fin 300) (Fin 1059))"
    using example_token_accepted by blast
  obtain config where c: "load_runner_config example_source = Inr config"
    "rc_trigger_address (rs_gateway config) = js ''0xaB''" "rc_jwt_max_age_seconds (rs_gateway config) = Fin 300"
    "rc_expected_workflow_id (rs_gateway config) = None"
    by (simp add: load_runner_config_def runner_env_def example_source_def runner_number_def)
  obtain sent where "ta_forwarded (handle_trigger (\<lambda>_. []) ?verify (rs_gateway config) Sim_Ok (Some (js ''Bearer '' @ token)) ?body (Fin 1059)) = Some sent"
    using trigger_forwarded [of "\<lambda>_. []" ?verify _ _ _ _ "rs_gateway config"] t c by metis
  then have "\<exists>input. runnable (\<lambda>_. []) ?verify (rs_gateway config) (Some (js ''Bearer '' @ token)) ?body (Fin 1059) input \<and>
      sent = stringify (JObj [(js ''input'', input)])"
    by (simp only: handle_trigger_sends)
  then have "snd (serve_request (\<lambda>_. []) ?verify config None Sim_Ok (js ''POST'') (js ''/workflows/execute'') (Some (js ''Bearer '' @ token))
      (Some ?body) (Fin 1059)) = Some sent"
    unfolding host_runs_only_verified_posts [OF c(1)] using c(2) by (auto simp: example_source_def)
  then show ?thesis using c(1) by blast
qed

end
