(* ===== verification/Spec2Isabelle.thy ===== *)
theory Spec2Isabelle
  imports Sla_Aggregate Cre_Reputation Log_Scan Proxy_Http Verification Evidence Relay_Payload Discovery
    Json_Wire Trigger_Jwt Runner_Gateway Payment Proxy_Config Router_Http JS_Exact Ens Proxy_Router
    Enclave_Verify Sla_Draft Sla_Republish Sla_Composer Sla_Editor Wizard JS_Round Score_Run Runner_Host
begin

text \<open>
  Verdikt sells API calls under a service level agreement. A provider registers a service on Arc, publishes its
  endpoint and its SLA as ENS text records, and bonds a deposit. An agent sends its paid (x402) call through the proxy,
  which hands it to a workflow in an enclave: the enclave replays the call with the agent's payment, judges the response
  by the SLA, reports the verdict to Arc and pushes the result back to the proxy, which answers the agent. An hourly
  workflow turns verdicts into published scores. The development models that path, and the form the SLA is written in;
  the sources named are relative to the repository's root.

  \<^bold>\<open>The language.\<close>
  \<^item> \<open>Verdikt_Prelude\<close>, \<open>JS_Number\<close>, \<open>JS_Text\<close>, \<open>JS_Json\<close>, \<open>JS_Buffer\<close>, \<open>JS_Exact\<close>, \<open>JS_Round\<close>: JavaScript strings as lists of 16-bit
    code units, thrown errors as \<open>Inl\<close>, doubles as the rationals they denote with rounding to nearest (exact on integers below
    \<open>2 ^ 53\<close>, and monotone), \<open>JSON.parse\<close> and
    \<open>JSON.stringify\<close>, UTF-8, base64 and hex. A record of the program is an object of its own members in enumeration order.
  \<^item> \<open>Json_Wire\<close>: what is written as JSON reads back, also through UTF-8 and base64url (\<open>wire\<close> excludes duplicate and index
    keys and numbers that do not print exactly).

  \<^bold>\<open>Judging.\<close>
  \<^item> \<open>Json_Schema\<close> (\<open>packages/sla/jsonschema.js\<close>): \<open>assert_schema\<close> and \<open>validate\<close>, against the declarative \<open>supported\<close> and \<open>conforms\<close>.
  \<^item> \<open>Sla_Engine\<close> (\<open>packages/sla/schema.json\<close>, \<open>clauses.js\<close>, \<open>index.js\<close>): \<open>parse_sla\<close>, \<open>evaluate\<close>, \<open>evaluate_status_only\<close>; which
    documents are accepted, and when each outcome is given.
  \<^item> \<open>Cre_Judge\<close> (\<open>cre/lib/judge.js\<close>): the fallback ladder, and that a FAIL has a cause.
  \<^item> \<open>Relay_Payload\<close> (\<open>cre/lib/relay-payload.js\<close>): trimming the result to the budget; eight attempts are enough whenever the
    fixed part fits.
  \<^item> \<open>Enclave_Verify\<close> (\<open>cre/workflows/verify/workflow.ts\<close>): one run, from the trigger to the callback.

  \<^bold>\<open>The proxy and the runner.\<close>
  \<^item> \<open>Proxy_Http\<close>, \<open>Router_Http\<close>, \<open>Proxy_Config\<close>, \<open>Discovery\<close>, \<open>Proxy_Router\<close> (\<open>proxy/src/http.js\<close>, \<open>challenge.js\<close>, \<open>config.js\<close>,
    \<open>discovery.js\<close>, \<open>router.js\<close>): \<open>handle_request\<close> gives the response, or the exception that escapes, with the calls made in order.
  \<^item> \<open>Verification\<close> (\<open>proxy/src/verification.js\<close>, \<open>pending-do.js\<close>) and \<open>Evidence\<close> (\<open>evidence.js\<close>, \<open>evidence-do.js\<close>): each has an
    in-memory store and a Durable Object behind one interface, a locale that both interpret.
  \<^item> \<open>Trigger_Jwt\<close>, \<open>Runner_Gateway\<close> (\<open>proxy/src/jwt.js\<close>, \<open>runner/src/jwt.js\<close>, \<open>gateway.js\<close>, \<open>request-body.js\<close>): what the runner accepts.
  \<^item> \<open>Runner_Host\<close> (\<open>runner/src/config.js\<close>, \<open>simulator.js\<close>, \<open>server.js\<close>): the configuration, the supervisor of the simulator as a
    machine of its children and timers, the request listener.

  \<^bold>\<open>The SDK and the scores.\<close>
  \<^item> \<open>Registry_Sdk\<close>, \<open>Payment\<close>, \<open>Ens\<close>, \<open>Log_Scan\<close> (\<open>packages/sdk\<close>): ids and ordinals, who paid, a service's records behind a cache
    with deadlines (the locale \<open>expiring_cache\<close>), scanning logs in chunks.
  \<^item> \<open>Sla_Aggregate\<close>, \<open>Cre_Reputation\<close> (\<open>packages/sla/aggregate.js\<close>, \<open>cre/lib/reputation.js\<close>): the scores of a window.
  \<^item> \<open>Score_Run\<close> (\<open>cre/workflows/aggregate/workflow.ts\<close>): the hourly run; the blocks it does not scan hold nothing its window counts,
    with the rounding of doubles taken into account.

  \<^bold>\<open>The form.\<close>
  \<^item> \<open>Sla_Draft\<close>, \<open>Sla_Republish\<close>, \<open>Sla_Composer\<close>, \<open>Sla_Editor\<close> (\<open>web/src/forms/sla-draft.js\<close>, \<open>sla-composer.js\<close>, \<open>sla-validity.js\<close>,
    \<open>sla-editor.js\<close>): the tree of a schema and back, amounts and ids, a whole SLA read into the form and written again, the composer as a machine of its handlers, and the editor's
    \<open>publish\<close> cut at its awaits.
  \<^item> \<open>Wizard\<close> (\<open>web/src/forms/wizard.js\<close>, \<open>web/src/actions.js\<close>): registration, with the browser's history as a source of events.

  This theory holds the properties that span the ENS layer, the router and the registry.

  \<^bold>\<open>How the parts meet.\<close> The router resolves a slug through the ENS cache (\<open>resolves_through\<close>), checks the registry, and builds a
  \<open>verify_request\<close>; \<open>trigger_text\<close> carries it to the runner, which forwards the input to the enclave (\<open>enclave_replays_the_paid_call\<close>);
  the enclave's payload goes to \<open>handle_callback\<close>, which settles the wait of \<open>Verification\<close> (\<open>chain_and_callback_agree\<close>), and \<open>deliver\<close>
  answers the agent (\<open>agent_reads_the_verdict\<close>).

  \<^bold>\<open>Parameters.\<close> viem (hashes, addresses, signatures, codecs), the chain readers, \<open>fetch\<close>, the WHATWG URL parser, the CRE SDK, the
  clock and the Durable Object runtime are arguments; what they throw is an error value. No property assumes more of them than its
  hypotheses say.

  \<^bold>\<open>Recursion and fuel.\<close> The JSON parser is fuelled by twice the length of its text, which \<open>Json_Wire\<close> shows is enough for what is
  written; the validator and the tree mappings recurse on the size of the schema, with termination proofs; the loops that search
  (\<open>free_number\<close>) or scan (\<open>chunk_loop\<close>) have measures.

  \<^bold>\<open>What the source gets wrong\<close> where the model shows it is kept as a lemma beside the definitions: \<open>join_can_change_the_host\<close>,
  \<open>settled_result_lost_on_trigger_error\<close>, \<open>type_list_is_dropped\<close>, \<open>untyped_bound_is_dropped\<close>, \<open>listed_name_is_overwritten\<close>,
  \<open>publish_reads_the_draft_late\<close>, \<open>back_while_signing_splits_the_names\<close>, \<open>late_exit_spawns_twice\<close>, \<open>untouched_id_flips\<close>, \<open>json_tab_discards_edits\<close> and others.

  \<^bold>\<open>Not modelled.\<close> The contracts (Solidity) and the GenLayer judge (Python) are other programs, present as the registry's answers.
  The getters of \<open>packages/sdk/arc.js\<close> rename the fields of one contract read. The front end's pages, templates, router and wallet
  plumbing, the Worker's entry point and the registration of the workflows' handlers, the operator scripts and the vendored agent tooling are I/O and presentation around what is modelled. Of a Response only status, headers
  and body are kept, and of an error only its message.
\<close>

section \<open>The router over the ENS layer\<close>

text \<open>
  \<open>handleRequest\<close> reads the record through \<open>resolveServiceRecord\<close>, whose cache holds what the earlier
  calls left in it.
\<close>

definition resolves_through :: "'h proxy_deps \<Rightarrow> ens_env \<Rightarrow> ens_lookup list \<Rightarrow> int \<Rightarrow> int \<Rightarrow> bool" where
  "resolves_through d e history now later \<longleftrightarrow>
     px_resolve d = (\<lambda>slug. fst (resolve_call (proxy_lookup e (px_config d) slug now later) (cache_after history)))"

definition same_process :: "ens_env \<Rightarrow> ens_lookup list \<Rightarrow> bool" where
  "same_process e history = list_all (\<lambda>b. ro_parent_name (rc_opts b) = None \<and>
     ee_keccak (rc_env b) = ee_keccak e \<and> ee_to_bytes (rc_env b) = ee_to_bytes e) history"

lemma answer_of_service_id:
  "answer_of b rec \<Longrightarrow> sr_service_id rec = ee_keccak (rc_env b) (ee_to_bytes (rc_env b) (rc_slug b))"
  by (auto simp: answer_of_def service_id_of_def split: if_splits)

lemma proxy_lookup_simps [simp]:
  "rc_env (proxy_lookup e config slug now later) = e" "rc_slug (proxy_lookup e config slug now later) = slug"
  "ro_parent_name (rc_opts (proxy_lookup e config slug now later)) = None"
  by (simp_all add: proxy_lookup_def)

lemma resolved_service_id:
  assumes "resolves_through d e history now later" "same_process e history" "px_resolve d slug = Inr rec"
  shows "sr_service_id rec = ee_keccak e (ee_to_bytes e slug)"
proof -
  let ?a = "proxy_lookup e (px_config d) slug now later"
  have "fst (resolve_call ?a (cache_after history)) = Inr rec"
    using assms(1,3) by (simp add: resolves_through_def)
  moreover have "list_all (\<lambda>b. ro_parent_name (rc_opts b) = None) (?a # history)"
    using assms(2) by (simp add: same_process_def list_all_iff)
  ultimately have "answer_of ?a rec \<or> list_ex (\<lambda>b. rc_slug b = slug \<and> key_of b = key_of ?a \<and> answer_of b rec \<and>
      num_less (jsint (rc_now ?a)) (deadline_of b)) history"
    using resolved_by_own_slug [of ?a history rec] by simp
  then have "\<exists>b \<in> set (?a # history). rc_slug b = slug \<and> answer_of b rec"
    by (auto simp: list_ex_iff simp del: proxy_lookup_simps(1))
  then obtain b where "b \<in> set (?a # history)" "rc_slug b = slug" "answer_of b rec" by blast
  moreover have "ee_keccak (rc_env b) = ee_keccak e \<and> ee_to_bytes (rc_env b) = ee_to_bytes e"
  proof (cases "b = ?a")
    case True
    then show ?thesis by (simp add: proxy_lookup_def)
  next
    case False
    then show ?thesis using \<open>b \<in> set (?a # history)\<close> assms(2) by (simp add: same_process_def list_all_iff)
  qed
  ultimately show ?thesis using answer_of_service_id [of b rec] by simp
qed

text \<open>
  C7: What the enclave is asked to pay and to judge is the service the agent named. Whatever calls
  the ENS cache has answered before, a trigger that a request causes carries the service id hashed
  from the very slug of that request's url, and Arc has that id \<open>ACTIVE\<close>.
\<close>

theorem paid_call_is_for_the_slug:
  assumes "resolves_through d e history now later" "same_process e history"
    and "Triggered q \<in> set (snd (handle_request d rq))"
  shows "\<exists>slug rest. route_of (rq_url rq) (px_config d) = Some (slug, rest) \<and> slug_matches slug \<and>
    vq_service_id q = ee_keccak e (ee_to_bytes e slug) \<and>
    (\<exists>state. px_get_service d (vq_service_id q) = Inr state \<and> ss_status state = ACTIVE)"
proof -
  obtain rec upstream where r: "relayable_service d rq rec upstream" "Triggered q \<in> set (snd (relay d rq rec upstream))"
    using route_request_actions [of "Triggered q" d rq] handle_request_actions [OF assms(3)] by auto
  have q: "vq_service_id q = sr_service_id rec" using relay_actions [OF r(2)] by simp
  from r(1) obtain slug rest state where s: "route_of (rq_url rq) (px_config d) = Some (slug, rest)" "slug_matches slug"
    "px_resolve d slug = Inr rec" "px_get_service d (sr_service_id rec) = Inr state" "ss_status state = ACTIVE"
    unfolding relayable_service_def by blast
  show ?thesis using s q resolved_service_id [OF assms(1,2) s(3)] by auto
qed

theorem paid_call_is_for_the_slug_witness:
  "\<exists>slug. slug_matches slug \<and> vq_service_id paid_query = ee_keccak example_env (ee_to_bytes example_env slug)"
proof -
  have "resolves_through example_deps example_env [] 0 7"
    by (simp add: resolves_through_def example_deps_def)
  moreover have "same_process example_env []" by (simp add: same_process_def)
  ultimately have "\<exists>slug rest. route_of (rq_url example_request) (px_config example_deps) = Some (slug, rest) \<and> slug_matches slug \<and>
      vq_service_id paid_query = ee_keccak example_env (ee_to_bytes example_env slug) \<and>
      (\<exists>state. px_get_service example_deps (vq_service_id paid_query) = Inr state \<and> ss_status state = ACTIVE)"
    by (rule paid_call_is_for_the_slug [OF _ _ example_paid_call])
  then show ?thesis by blast
qed

end
